(* ===== verification/Prelude.thy ===== *)
theory Prelude
  imports Main "HOL-Library.Word" "HOL-Library.Sublist"
begin

text \<open>
  What every component of the model shares: the fixed-width arithmetic of the C++ integers
  (as \<open>nat\<close> with the wrap-around written out), C++ exceptions as values, memory as byte
  lists, the part of \<open>std::string\<close> that the driver uses, and the lemma collections of the
  development.
\<close>

named_theorems model_defs \<open>definitions that the component proofs unfold\<close>
named_theorems frame_simps \<open>what an operation leaves unchanged\<close>
named_theorems inv_intros \<open>operations keep the invariant of their component\<close>

section \<open>Fixed-width unsigned integers\<close>

text \<open>The conversions to \<open>uint16_t\<close>, \<open>uint32_t\<close> and \<open>size_t\<close> (64 bit) of the code.\<close>

definition u16 :: "nat \<Rightarrow> nat" where "u16 x = x mod 2 ^ 16"
definition u32 :: "nat \<Rightarrow> nat" where "u32 x = x mod 2 ^ 32"
definition u64 :: "nat \<Rightarrow> nat" where "u64 x = x mod 2 ^ 64"

text \<open>A signed \<open>long\<close> converted to an unsigned type keeps its residue.\<close>

definition long_to_u16 :: "int \<Rightarrow> nat" where "long_to_u16 x = nat (x mod 2 ^ 16)"
definition long_to_u32 :: "int \<Rightarrow> nat" where "long_to_u32 x = nat (x mod 2 ^ 32)"

text \<open>Subtraction on \<open>size_t\<close>.\<close>

definition sub64 :: "nat \<Rightarrow> nat \<Rightarrow> nat" where
  "sub64 a b = (a + (2 ^ 64 - b mod 2 ^ 64)) mod 2 ^ 64"

lemma u16_bound [simp]: "u16 x < 65536" and u32_bound [simp]: "u32 x < 4294967296"
  and u64_bound [simp]: "u64 x < 18446744073709551616"
  by (simp_all add: u16_def u32_def u64_def)

lemma u16_id [simp]: "x < 65536 \<Longrightarrow> u16 x = x"
  and u32_id [simp]: "x < 4294967296 \<Longrightarrow> u32 x = x"
  and u64_id [simp]: "x < 18446744073709551616 \<Longrightarrow> u64 x = x"
  by (simp_all add: u16_def u32_def u64_def)

lemma sub64_id [simp]: "b \<le> a \<Longrightarrow> a < 18446744073709551616 \<Longrightarrow> sub64 a b = a - b"
proof -
  assume a: "b \<le> a" "a < 18446744073709551616"
  then have "a + (2 ^ 64 - b mod 2 ^ 64) = (a - b) + 2 ^ 64" by simp
  then have "sub64 a b = ((a - b) + 2 ^ 64) mod 2 ^ 64" unfolding sub64_def by (rule arg_cong)
  also have "\<dots> = (a - b) mod 2 ^ 64" by (rule mod_add_self2)
  also have "\<dots> = a - b" using a by simp
  finally show ?thesis .
qed

lemma long_to_u32_nat [simp]: "0 \<le> x \<Longrightarrow> x < 2 ^ 32 \<Longrightarrow> long_to_u32 x = nat x"
  by (simp add: long_to_u32_def)

lemma long_to_u16_nat [simp]: "0 \<le> x \<Longrightarrow> x < 2 ^ 16 \<Longrightarrow> long_to_u16 x = nat x"
  by (simp add: long_to_u16_def)

lemma long_to_u32_bound [simp]: "long_to_u32 x < 4294967296"
proof -
  have "x mod 4294967296 < (4294967296::int)" by simp
  then show ?thesis unfolding long_to_u32_def by (simp add: nat_less_iff)
qed

section \<open>Exceptions\<close>

text \<open>
  The C++ exceptions the parsing code raises or lets through. \<open>Undefined\<close> stands for
  undefined behaviour (an index past the end of a \<open>std::vector\<close>), which no handler catches.
\<close>

datatype exn = Invalid_argument string | Out_of_range string | Undefined

definition exn_bind :: "exn + 'a \<Rightarrow> ('a \<Rightarrow> exn + 'b) \<Rightarrow> exn + 'b" where
  "exn_bind m f = (case m of Inl e \<Rightarrow> Inl e | Inr x \<Rightarrow> f x)"

text \<open>\<open>try { m } catch (...) { throw std::invalid_argument(msg); }\<close>\<close>

definition catch_all :: "exn + 'a \<Rightarrow> string \<Rightarrow> exn + 'a" where
  "catch_all m msg = (case m of Inr x \<Rightarrow> Inr x | Inl Undefined \<Rightarrow> Inl Undefined
                       | Inl _ \<Rightarrow> Inl (Invalid_argument msg))"

text \<open>\<open>std::vector::operator[]\<close> of a vector: no bounds check.\<close>

definition vec_at :: "'a list \<Rightarrow> nat \<Rightarrow> exn + 'a" where
  "vec_at xs i = (if i < length xs then Inr (xs ! i) else Inl Undefined)"

lemma exn_bind_Inr [simp]: "exn_bind (Inr x) f = f x"
  and exn_bind_Inl [simp]: "exn_bind (Inl e) f = Inl e"
  by (simp_all add: exn_bind_def)

lemma exn_bind_eq_Inr: "exn_bind m f = Inr y \<longleftrightarrow> (\<exists>x. m = Inr x \<and> f x = Inr y)"
  by (cases m) auto

lemma catch_all_Inr [simp]: "catch_all (Inr x) msg = Inr x"
  by (simp add: catch_all_def)

lemma catch_all_eq_Inr [simp]: "catch_all m msg = Inr y \<longleftrightarrow> m = Inr y"
  by (auto simp: catch_all_def split: sum.splits exn.splits)

lemma vec_at_Inr [simp]: "i < length xs \<Longrightarrow> vec_at xs i = Inr (xs ! i)"
  by (simp add: vec_at_def)

lemma vec_at_eq_Inr: "vec_at xs i = Inr y \<longleftrightarrow> i < length xs \<and> xs ! i = y"
  by (simp add: vec_at_def)

lemma vec_at_UB [simp]: "length xs \<le> i \<Longrightarrow> vec_at xs i = Inl Undefined"
  by (simp add: vec_at_def)

section \<open>Memory\<close>

type_synonym byte = "8 word"

text \<open>
  \<open>None\<close> is undefined behaviour: a \<open>memcpy\<close> that reads past its source or writes past its
  destination.
\<close>

definition mem_read :: "byte list \<Rightarrow> nat \<Rightarrow> nat \<Rightarrow> byte list option" where
  "mem_read m off n = (if off + n \<le> length m then Some (take n (drop off m)) else None)"

definition mem_write :: "byte list \<Rightarrow> byte list \<Rightarrow> byte list option" where
  "mem_write dst src = (if length src \<le> length dst then Some (src @ drop (length src) dst) else None)"

text \<open>An ADS call that answers with \<open>resp\<close> into a buffer of which it may use \<open>n\<close> bytes.\<close>

definition fill :: "nat \<Rightarrow> 'a list \<Rightarrow> 'a list \<Rightarrow> 'a list" where
  "fill n resp buf = (let d = take (min n (length buf)) resp in d @ drop (length d) buf)"

lemma length_fill [simp]: "length (fill n resp buf) = length buf"
  by (auto simp: fill_def Let_def)

lemma fill_exact [simp]: "length resp = length buf \<Longrightarrow> length buf \<le> n \<Longrightarrow> fill n resp buf = resp"
  by (simp add: fill_def min_def)

lemma mem_read_Some [simp]: "off + n \<le> length m \<Longrightarrow> mem_read m off n = Some (take n (drop off m))"
  by (simp add: mem_read_def)

lemma mem_write_Some [simp]:
  "length src \<le> length dst \<Longrightarrow> mem_write dst src = Some (src @ drop (length src) dst)"
  by (simp add: mem_write_def)

lemma mem_write_None [simp]: "length dst < length src \<Longrightarrow> mem_write dst src = None"
  by (simp add: mem_write_def)

lemma mem_write_length: "mem_write dst src = Some d \<Longrightarrow> length d = length dst"
  by (auto simp: mem_write_def split: if_splits)

lemma mem_read_length: "mem_read m off n = Some d \<Longrightarrow> length d = n"
  by (auto simp: mem_read_def split: if_splits)

section \<open>Strings\<close>

text \<open>
  \<open>std::string\<close>: \<open>npos\<close> is the largest \<open>size_t\<close>, so that \<open>find(...) + 2\<close> wraps around when
  nothing is found; \<open>substr\<close> raises \<open>std::out_of_range\<close> past the end of the string, and a count of
  \<open>npos\<close> means the rest of the string.
\<close>

definition npos :: nat where "npos = 2 ^ 64 - 1"

fun find_from :: "nat \<Rightarrow> string \<Rightarrow> string \<Rightarrow> nat" where
  "find_from i s p = (if prefix p s then i else
     (case s of [] \<Rightarrow> npos | _ # t \<Rightarrow> find_from (Suc i) t p))"

declare find_from.simps [simp del]

definition str_find :: "string \<Rightarrow> string \<Rightarrow> nat" where
  "str_find s p = find_from 0 s p"

definition substr :: "string \<Rightarrow> nat \<Rightarrow> nat \<Rightarrow> exn + string" where
  "substr s pos n = (if pos > length s then Inl (Out_of_range ''basic_string::substr'')
                     else Inr (if n = npos then drop pos s else take n (drop pos s)))"

definition contains :: "string \<Rightarrow> string \<Rightarrow> bool" where
  "contains s p \<longleftrightarrow> str_find s p \<noteq> npos"

lemma substr_ok [simp]: "pos \<le> length s \<Longrightarrow> n \<noteq> npos \<Longrightarrow> substr s pos n = Inr (take n (drop pos s))"
  and substr_rest [simp]: "pos \<le> length s \<Longrightarrow> substr s pos npos = Inr (drop pos s)"
  by (simp_all add: substr_def)

lemma substr_fail [simp]:
  "length s < pos \<Longrightarrow> substr s pos n = Inl (Out_of_range ''basic_string::substr'')"
  by (simp add: substr_def)

lemma find_from_prefix [simp]: "prefix p s \<Longrightarrow> find_from i s p = i"
  by (subst find_from.simps) simp

lemma find_from_Nil [simp]: "p \<noteq> [] \<Longrightarrow> find_from i [] p = npos"
  by (subst find_from.simps) simp

lemma find_from_Cons [simp]:
  "\<not> prefix p (c # t) \<Longrightarrow> find_from i (c # t) p = find_from (Suc i) t p"
  by (subst find_from.simps) simp

lemma find_from_bounds:
  "find_from i s p = npos \<or> (i \<le> find_from i s p \<and> find_from i s p + length p \<le> i + length s
     \<and> prefix p (drop (find_from i s p - i) s))"
proof (induction s arbitrary: i)
  case Nil
  then show ?case by (cases "p = []") auto
next
  case (Cons c t)
  show ?case
  proof (cases "prefix p (c # t)")
    case True
    then show ?thesis using prefix_length_le [OF True] by simp
  next
    case False
    then have eq: "find_from i (c # t) p = find_from (Suc i) t p" by simp
    consider "find_from (Suc i) t p = npos"
      | "Suc i \<le> find_from (Suc i) t p" "find_from (Suc i) t p + length p \<le> Suc i + length t"
        "prefix p (drop (find_from (Suc i) t p - Suc i) t)"
      using Cons.IH [of "Suc i"] by blast
    then show ?thesis
    proof cases
      case 1
      then show ?thesis unfolding eq by simp
    next
      case 2
      then have "find_from (Suc i) t p - i = Suc (find_from (Suc i) t p - Suc i)" by simp
      with 2 show ?thesis unfolding eq by simp
    qed
  qed
qed

text \<open>The first occurrence of a single character.\<close>

lemma find_from_char:
  assumes "c \<notin> set a"
  shows "find_from i (a @ c # b) [c] = i + length a"
  using assms
proof (induction a arbitrary: i)
  case Nil
  then show ?case by simp
next
  case (Cons x a)
  then have "\<not> prefix [c] ((x # a) @ c # b)" by simp
  with Cons show ?case by simp
qed

lemma find_from_char_none: "c \<notin> set s \<Longrightarrow> find_from i s [c] = npos"
proof (induction s arbitrary: i)
  case Nil
  then show ?case by simp
next
  case (Cons x s)
  then have "\<not> prefix [c] (x # s)" by simp
  with Cons show ?case by simp
qed

lemma str_find_char: "c \<notin> set a \<Longrightarrow> str_find (a @ c # b) [c] = length a"
  by (simp add: str_find_def find_from_char)

text \<open>A message with its argument in single quotes, as the code's messages are built.\<close>

definition quoted :: "string \<Rightarrow> string \<Rightarrow> string" where
  "quoted msg s = msg @ [CHR 0x27] @ s @ [CHR 0x27]"

section \<open>Generic lemmas on lists\<close>

lemma take_drop_concat:
  assumes "i < length xs"
  shows "take (length (xs ! i)) (drop (sum_list (map length (take i xs))) (concat xs)) = xs ! i"
proof -
  have "concat xs = concat (take i xs) @ concat (drop i xs)"
    by (metis append_take_drop_id concat_append)
  moreover have "length (concat (take i xs)) = sum_list (map length (take i xs))"
    by (simp add: length_concat)
  moreover have "concat (drop i xs) = xs ! i @ concat (drop (Suc i) xs)"
    using assms by (metis Cons_nth_drop_Suc concat.simps(2))
  ultimately show ?thesis by simp
qed

lemma sum_list_take_le: "sum_list (map f (take i xs)) \<le> sum_list (map (f :: 'a \<Rightarrow> nat) xs)"
  by (metis append_take_drop_id le_add1 map_append sum_list_append)

lemma sum_list_take_Suc_le:
  assumes "i < length xs"
  shows "sum_list (map f (take i xs)) + f (xs ! i) \<le> sum_list (map (f :: 'a \<Rightarrow> nat) xs)"
proof -
  have "sum_list (map f (take (Suc i) xs)) \<le> sum_list (map f xs)" by (rule sum_list_take_le)
  with assms show ?thesis by (simp add: take_Suc_conv_app_nth)
qed

lemma concat_replicate_length:
  "(\<And>x. x \<in> set xs \<Longrightarrow> length (f x) = n) \<Longrightarrow> length (concat (map f xs)) = length xs * n"
  by (induction xs) auto

end
