(* ===== verification/Std_Map.thy ===== *)
theory Std_Map
  imports Prelude "HOL-Library.List_Lexorder" "HOL-Library.Char_ord"
begin

text \<open>
  \<open>std::map\<close> as the driver uses it: a list of entries in strictly ascending key order, which
  is the order in which the code iterates. \<open>sm_insert\<close> keeps an entry that is already there
  (initialiser lists), \<open>sm_set\<close> replaces it (\<open>m[k] = v\<close>), \<open>sm_index\<close> is the reading
  \<open>m[k]\<close>, which inserts a default value when the key is absent, and \<open>sm_at\<close> is \<open>m.at(k)\<close>.
  The locale \<open>ordered_map\<close> is what the sum-read request relies on.
\<close>

type_synonym ('k, 'v) smap = "('k \<times> 'v) list"

fun sm_insert :: "'k::linorder \<Rightarrow> 'v \<Rightarrow> ('k, 'v) smap \<Rightarrow> ('k, 'v) smap" where
  "sm_insert k v [] = [(k, v)]"
| "sm_insert k v ((k', v') # m) =
     (if k < k' then (k, v) # (k', v') # m
      else if k = k' then (k', v') # m
      else (k', v') # sm_insert k v m)"

fun sm_set :: "'k::linorder \<Rightarrow> 'v \<Rightarrow> ('k, 'v) smap \<Rightarrow> ('k, 'v) smap" where
  "sm_set k v [] = [(k, v)]"
| "sm_set k v ((k', v') # m) =
     (if k < k' then (k, v) # (k', v') # m
      else if k = k' then (k, v) # m
      else (k', v') # sm_set k v m)"

definition sm_find :: "('k, 'v) smap \<Rightarrow> 'k \<Rightarrow> 'v option" where
  "sm_find m k = map_of m k"

definition sm_of_list :: "('k::linorder \<times> 'v) list \<Rightarrow> ('k, 'v) smap" where
  "sm_of_list xs = foldl (\<lambda>m (k, v). sm_insert k v m) [] xs"

definition sm_index :: "'v \<Rightarrow> ('k::linorder, 'v) smap \<Rightarrow> 'k \<Rightarrow> 'v \<times> ('k, 'v) smap" where
  "sm_index d m k = (case sm_find m k of Some v \<Rightarrow> (v, m) | None \<Rightarrow> (d, sm_insert k d m))"

definition sm_at :: "('k, 'v) smap \<Rightarrow> 'k \<Rightarrow> exn + 'v" where
  "sm_at m k = (case sm_find m k of Some v \<Rightarrow> Inr v | None \<Rightarrow> Inl (Out_of_range ''map::at''))"

definition sm_invar :: "('k::linorder, 'v) smap \<Rightarrow> bool" where
  "sm_invar m \<longleftrightarrow> sorted_wrt (<) (map fst m)"

section \<open>Keys stay ordered\<close>

lemma set_keys_insert: "fst ` set (sm_insert k v m) = insert k (fst ` set m)"
  by (induction k v m rule: sm_insert.induct) auto

lemma set_keys_set: "fst ` set (sm_set k v m) = insert k (fst ` set m)"
  by (induction k v m rule: sm_set.induct) auto

lemma sm_invar_Nil [simp]: "sm_invar []"
  by (simp add: sm_invar_def)

lemma sm_invar_Cons: "sm_invar ((k, v) # m) \<longleftrightarrow> (\<forall>k' \<in> fst ` set m. k < k') \<and> sm_invar m"
  by (auto simp: sm_invar_def)

lemma sm_invar_insert: "sm_invar m \<Longrightarrow> sm_invar (sm_insert k v m)"
  by (induction k v m rule: sm_insert.induct) (auto simp: sm_invar_Cons set_keys_insert)

lemma sm_invar_set: "sm_invar m \<Longrightarrow> sm_invar (sm_set k v m)"
  by (induction k v m rule: sm_set.induct) (auto simp: sm_invar_Cons set_keys_set)

lemma sm_invar_distinct: "sm_invar m \<Longrightarrow> distinct (map fst m)"
  unfolding sm_invar_def by (induction m) auto

lemma map_of_insert: "sm_invar m \<Longrightarrow> map_of (sm_insert k v m) = [k \<mapsto> v] ++ map_of m"
proof (induction k v m rule: sm_insert.induct)
  case (1 k v)
  then show ?case by auto
next
  case (2 k v k' v' m)
  have "map_of m x = None" if "k < k'" "x = k" for x
    using 2 that by (auto simp: sm_invar_Cons map_of_eq_None_iff)
  with 2 show ?case by (auto simp: sm_invar_Cons fun_eq_iff map_add_def split: option.splits)
qed

lemma map_of_set: "sm_invar m \<Longrightarrow> map_of (sm_set k v m) = (map_of m)(k \<mapsto> v)"
proof (induction k v m rule: sm_set.induct)
  case (1 k v)
  then show ?case by auto
next
  case (2 k v k' v' m)
  then show ?case by (auto simp: sm_invar_Cons fun_eq_iff)
qed

text \<open>An initialiser list: the first of several entries for a key wins, as \<open>map_of\<close> says.\<close>

lemma foldl_insert:
  assumes "sm_invar m"
  shows "sm_invar (foldl (\<lambda>m (k, v). sm_insert k v m) m xs)"
    and "map_of (foldl (\<lambda>m (k, v). sm_insert k v m) m xs) = map_of xs ++ map_of m"
proof -
  have "sm_invar (foldl (\<lambda>m (k, v). sm_insert k v m) m xs) \<and>
    map_of (foldl (\<lambda>m (k, v). sm_insert k v m) m xs) = map_of xs ++ map_of m"
    using assms
  proof (induction xs arbitrary: m)
    case Nil
    then show ?case by simp
  next
    case (Cons x xs)
    obtain k v where x: "x = (k, v)" by (cases x)
    from Cons.prems have "sm_invar (sm_insert k v m)" by (rule sm_invar_insert)
    with Cons.IH [of "sm_insert k v m"] Cons.prems x show ?case
      by (auto simp: map_of_insert fun_eq_iff map_add_def split: option.splits)
  qed
  then show "sm_invar (foldl (\<lambda>m (k, v). sm_insert k v m) m xs)"
    and "map_of (foldl (\<lambda>m (k, v). sm_insert k v m) m xs) = map_of xs ++ map_of m" by auto
qed

lemma sm_invar_of_list [simp]: "sm_invar (sm_of_list xs)"
  unfolding sm_of_list_def by (rule foldl_insert) simp

lemma sm_find_of_list [simp]: "sm_find (sm_of_list xs) k = map_of xs k"
  unfolding sm_find_def sm_of_list_def by (simp add: foldl_insert)

text \<open>
  Reading an absent key with \<open>m[k]\<close> inserts the default, but no later reading with \<open>m[k]\<close>
  can tell: the value of \<open>m[k']\<close> is the same before and after, for every \<open>k'\<close>. The model of
  the driver therefore reads its global tables with \<open>sm_get\<close>, without the insertion.
\<close>

definition sm_get :: "'v \<Rightarrow> ('k, 'v) smap \<Rightarrow> 'k \<Rightarrow> 'v" where
  "sm_get d m k = (case sm_find m k of Some v \<Rightarrow> v | None \<Rightarrow> d)"

lemma sm_index_value: "fst (sm_index d m k) = sm_get d m k"
  by (simp add: sm_index_def sm_get_def split: option.splits)

lemma sm_index_unobservable:
  assumes "sm_invar m"
  shows "sm_get d (snd (sm_index d m k)) k' = sm_get d m k'" and "sm_invar (snd (sm_index d m k))"
  using assms
  by (auto simp: sm_index_def sm_get_def sm_find_def map_of_insert sm_invar_insert
      split: option.splits if_splits)

section \<open>The interface\<close>

locale ordered_map =
  fixes empty :: "'m"
    and lookup :: "'m \<Rightarrow> 'k::linorder \<Rightarrow> 'v option"
    and update :: "'k \<Rightarrow> 'v \<Rightarrow> 'm \<Rightarrow> 'm"
    and entries :: "'m \<Rightarrow> ('k \<times> 'v) list"
    and invar :: "'m \<Rightarrow> bool"
  assumes invar_empty: "invar empty"
    and entries_empty: "entries empty = []"
    and invar_update: "invar m \<Longrightarrow> invar (update k v m)"
    and lookup_entries: "invar m \<Longrightarrow> lookup m = map_of (entries m)"
    and keys_ordered: "invar m \<Longrightarrow> sorted_wrt (<) (map fst (entries m))"
    and lookup_update: "invar m \<Longrightarrow> lookup (update k v m) = (lookup m)(k \<mapsto> v)"
begin

lemma keys_distinct: "invar m \<Longrightarrow> distinct (map fst (entries m))"
  using keys_ordered [of m] by (simp add: strict_sorted_iff)

lemma entry_iff: "invar m \<Longrightarrow> (k, v) \<in> set (entries m) \<longleftrightarrow> lookup m k = Some v"
  using keys_distinct [of m] by (simp add: lookup_entries)

lemma entries_update:
  assumes "invar m"
  shows "set (entries (update k v m)) = insert (k, v) {e \<in> set (entries m). fst e \<noteq> k}"
proof -
  have "e \<in> set (entries (update k v m)) \<longleftrightarrow> e = (k, v) \<or> (e \<in> set (entries m) \<and> fst e \<noteq> k)" for e
    by (cases e) (auto simp: entry_iff lookup_update assms invar_update)
  then show ?thesis by blast
qed

text \<open>A predicate on all values survives an update by a value that satisfies it.\<close>

lemma all_update:
  assumes "invar m" and "\<And>k' v'. (k', v') \<in> set (entries m) \<Longrightarrow> P k' v'" and "P k v"
    and "(k', v') \<in> set (entries (update k v m))"
  shows "P k' v'"
  using assms by (auto simp: entries_update)

end

interpretation sm: ordered_map "[]" sm_find sm_set "\<lambda>m. m" sm_invar
  by unfold_locales
    (auto simp: sm_invar_set sm_find_def map_of_set fun_eq_iff sm_invar_def [symmetric])

end
