(* ===== verification/Ads_Def.thy ===== *)
theory Ads_Def
  imports Prelude
begin

text \<open>
  The ADS client library (Beckhoff's AdsLib, a git submodule, or the TwinCAT DLL) is not part of
  the repository. The constants of its header and its functions are parameters of the model:
  a record \<open>ads_def\<close> of constants and a record \<open>ads_lib\<close> of functions over a state \<open>'e\<close> of the
  library and of everything behind it (router, network, PLC). A function answers with its return
  code, what it stores through its output parameters, and the next state.
\<close>

record ads_def =
  ADSERR_DEVICE_ERROR :: int
  GLOBALERR_MISSING_ROUTE :: int
  ADSERR_CLIENT_SYNCTIMEOUT :: int
  ADSERR_DEVICE_SYMBOLNOTFOUND :: int
  ADSIGRP_SYM_HNDBYNAME :: nat
  ADSIGRP_SYM_VALBYHND :: nat
  ADSIGRP_SYM_RELEASEHND :: nat
  ADSIGRP_SUMUP_READ :: nat
  AMSPORT_LOGGER :: nat
  AMSPORT_R0_RTIME :: nat
  AMSPORT_R0_TRACE :: nat
  AMSPORT_R0_IO :: nat
  AMSPORT_R0_SPS :: nat
  AMSPORT_R0_NC :: nat
  AMSPORT_R0_ISG :: nat
  AMSPORT_R0_PCS :: nat
  AMSPORT_R0_PLC :: nat
  AMSPORT_R0_PLC_RTS1 :: nat
  AMSPORT_R0_PLC_RTS2 :: nat
  AMSPORT_R0_PLC_RTS3 :: nat
  AMSPORT_R0_PLC_RTS4 :: nat
  AMSPORT_R0_PLC_TC3 :: nat

text \<open>
  What the driver relies on: the error constants it names are error codes (not 0), the index
  group that reads a variable by its handle fits \<open>uint32_t\<close> and is not 0, and ADS ports fit
  \<open>uint16_t\<close>.
\<close>

definition wf_ads_def :: "ads_def \<Rightarrow> bool" where
  "wf_ads_def d \<longleftrightarrow>
     0 < ADSERR_DEVICE_ERROR d \<and> 0 < GLOBALERR_MISSING_ROUTE d
     \<and> 0 < ADSERR_CLIENT_SYNCTIMEOUT d \<and> 0 < ADSERR_DEVICE_SYMBOLNOTFOUND d
     \<and> 0 < ADSIGRP_SYM_VALBYHND d \<and> ADSIGRP_SYM_VALBYHND d < 2 ^ 32
     \<and> list_all (\<lambda>p. p < 2 ^ 16)
          [AMSPORT_LOGGER d, AMSPORT_R0_RTIME d, AMSPORT_R0_TRACE d, AMSPORT_R0_IO d,
           AMSPORT_R0_SPS d, AMSPORT_R0_NC d, AMSPORT_R0_ISG d, AMSPORT_R0_PCS d,
           AMSPORT_R0_PLC d, AMSPORT_R0_PLC_RTS1 d, AMSPORT_R0_PLC_RTS2 d,
           AMSPORT_R0_PLC_RTS3 d, AMSPORT_R0_PLC_RTS4 d, AMSPORT_R0_PLC_TC3 d]"

text \<open>
  The documented values: the error codes as \<open>errorMap\<close> describes them, the ports as the table of
  the reference manual and \<open>type.h\<close> list them, the index groups as the ADS specification.
\<close>

definition ads_def_documented :: ads_def where
  "ads_def_documented = \<lparr>
     ADSERR_DEVICE_ERROR = 1792, GLOBALERR_MISSING_ROUTE = 7,
     ADSERR_CLIENT_SYNCTIMEOUT = 1861, ADSERR_DEVICE_SYMBOLNOTFOUND = 1808,
     ADSIGRP_SYM_HNDBYNAME = 61443, ADSIGRP_SYM_VALBYHND = 61445,
     ADSIGRP_SYM_RELEASEHND = 61446, ADSIGRP_SUMUP_READ = 61568,
     AMSPORT_LOGGER = 100, AMSPORT_R0_RTIME = 200, AMSPORT_R0_TRACE = 290, AMSPORT_R0_IO = 300,
     AMSPORT_R0_SPS = 400, AMSPORT_R0_NC = 500, AMSPORT_R0_ISG = 550, AMSPORT_R0_PCS = 600,
     AMSPORT_R0_PLC = 801, AMSPORT_R0_PLC_RTS1 = 801, AMSPORT_R0_PLC_RTS2 = 811,
     AMSPORT_R0_PLC_RTS3 = 821, AMSPORT_R0_PLC_RTS4 = 831, AMSPORT_R0_PLC_TC3 = 851 \<rparr>"

lemma wf_ads_def_documented: "wf_ads_def ads_def_documented"
  by (simp add: wf_ads_def_def ads_def_documented_def)

section \<open>The functions of the library\<close>

type_synonym netid = "nat list" \<comment> \<open>the six bytes of an AMS net id\<close>
type_synonym ams_addr = "netid \<times> nat" \<comment> \<open>net id and ADS port of the remote device\<close>

text \<open>
  \<open>AdsSyncReadReqEx2\<close> and \<open>AdsSyncReadWriteReqEx2\<close> take the number of bytes they may store and
  answer with the bytes they store. \<open>AdsSyncReadStateReqEx\<close> answers with the ADS state and the
  device state that it stores, \<open>AdsSyncReadDeviceInfoReqEx\<close> with the characters of the name (at
  most 16) and the three numbers of the version that it stores.
\<close>

record 'e ads_lib =
  AdsSetLocalAddress :: "'e \<Rightarrow> netid \<Rightarrow> 'e"
  AdsAddRoute :: "'e \<Rightarrow> netid \<Rightarrow> string \<Rightarrow> int \<times> 'e"
  AdsDelRoute :: "'e \<Rightarrow> netid \<Rightarrow> 'e"
  AdsPortOpenEx :: "'e \<Rightarrow> int \<times> 'e"
  AdsPortCloseEx :: "'e \<Rightarrow> int \<Rightarrow> 'e"
  AdsSyncReadReqEx2 :: "'e \<Rightarrow> int \<Rightarrow> ams_addr \<Rightarrow> nat \<Rightarrow> nat \<Rightarrow> nat \<Rightarrow> int \<times> byte list \<times> 'e"
  AdsSyncWriteReqEx :: "'e \<Rightarrow> int \<Rightarrow> ams_addr \<Rightarrow> nat \<Rightarrow> nat \<Rightarrow> byte list \<Rightarrow> int \<times> 'e"
  AdsSyncReadWriteReqEx2 ::
    "'e \<Rightarrow> int \<Rightarrow> ams_addr \<Rightarrow> nat \<Rightarrow> nat \<Rightarrow> nat \<Rightarrow> byte list \<Rightarrow> int \<times> byte list \<times> 'e"
  AdsSyncReadDeviceInfoReqEx :: "'e \<Rightarrow> int \<Rightarrow> ams_addr \<Rightarrow> int \<times> (string \<times> nat list) \<times> 'e"
  AdsSyncReadStateReqEx :: "'e \<Rightarrow> int \<Rightarrow> ams_addr \<Rightarrow> int \<times> (nat option \<times> nat option) \<times> 'e"

end
