(* ===== verification/Err.thy ===== *)
theory Err
  imports Std_Map Ads_Def
begin

text \<open>
  \<open>err.h\<close> and \<open>err.cpp\<close>: the driver's own return codes, their descriptions, the descriptions
  of the ADS return codes and the translation of ADS return codes into the driver's.
\<close>

section \<open>EPICS ADS return codes\<close>

definition EPICSADS_BASE :: int where [simp]: "EPICSADS_BASE = 1000"
definition EPICSADS_OK :: int where [simp]: "EPICSADS_OK = 0"
definition EPICSADS_ERROR :: int where [simp]: "EPICSADS_ERROR = EPICSADS_BASE + 1"
definition EPICSADS_INV_PARAM :: int where [simp]: "EPICSADS_INV_PARAM = EPICSADS_BASE + 2"
definition EPICSADS_INV_CALL :: int where [simp]: "EPICSADS_INV_CALL = EPICSADS_BASE + 3"
definition EPICSADS_NOT_ALLOCATED :: int where [simp]: "EPICSADS_NOT_ALLOCATED = EPICSADS_BASE + 4"
definition EPICSADS_NOT_INITIALIZED :: int where [simp]: "EPICSADS_NOT_INITIALIZED = EPICSADS_BASE + 5"
definition EPICSADS_NOT_RESOLVED :: int where [simp]: "EPICSADS_NOT_RESOLVED = EPICSADS_BASE + 6"
definition EPICSADS_OUT_OF_RANGE :: int where [simp]: "EPICSADS_OUT_OF_RANGE = EPICSADS_BASE + 7"
definition EPICSADS_LIMIT :: int where [simp]: "EPICSADS_LIMIT = EPICSADS_BASE + 8"
definition EPICSADS_OVERFLOW :: int where [simp]: "EPICSADS_OVERFLOW = EPICSADS_BASE + 9"
definition EPICSADS_NO_DATA :: int where [simp]: "EPICSADS_NO_DATA = EPICSADS_BASE + 10"
definition EPICSADS_TIMEOUT :: int where [simp]: "EPICSADS_TIMEOUT = EPICSADS_BASE + 11"
definition EPICSADS_DISCONNECTED :: int where [simp]: "EPICSADS_DISCONNECTED = EPICSADS_BASE + 12"
definition EPICSADS_UNHANDLED_RC :: int where [simp]: "EPICSADS_UNHANDLED_RC = EPICSADS_BASE + 13"

text \<open>The descriptions, as the initialiser list of \<open>ads_errors\<close> has them.\<close>

definition ads_errors :: "(int, string) smap" where
  "ads_errors = sm_of_list
  [(-1, ''<unknown error>''),
   (EPICSADS_OK, ''OK''),
   (EPICSADS_ERROR, ''internal error''),
   (EPICSADS_INV_PARAM, ''one or more parameters is invalid''),
   (EPICSADS_INV_CALL, ''invalid function call''),
   (EPICSADS_NOT_ALLOCATED, ''buffer not allocated''),
   (EPICSADS_NOT_INITIALIZED, ''object not intialized''),
   (EPICSADS_NOT_RESOLVED, ''ADS variable name not resolved''),
   (EPICSADS_OUT_OF_RANGE, ''value is out of range''),
   (EPICSADS_LIMIT, ''limit/capacity reached''),
   (EPICSADS_OVERFLOW, ''reading/writing to buffer would overflow''),
   (EPICSADS_NO_DATA, ''data could not be read''),
   (EPICSADS_TIMEOUT, ''operation timed out''),
   (EPICSADS_DISCONNECTED, ''ADS device is not connected''),
   (EPICSADS_UNHANDLED_RC, ''unhandled ADS return code'')]"

section \<open>Translation of ADS return codes\<close>

text \<open>
  The keys are constants of the ADS library's header, which the repository only refers to: they
  come from the parameter \<open>d\<close>. Of two equal keys the first wins, as in the initialiser list.
\<close>

definition ads_rc_to_epicsads_error_map :: "ads_def \<Rightarrow> (int, int) smap" where
  "ads_rc_to_epicsads_error_map d = sm_of_list
  [(-1, -1),
   (0, EPICSADS_OK),
   (ADSERR_DEVICE_ERROR d, EPICSADS_ERROR),
   (GLOBALERR_MISSING_ROUTE d, EPICSADS_DISCONNECTED),
   (ADSERR_CLIENT_SYNCTIMEOUT d, EPICSADS_DISCONNECTED),
   (ADSERR_DEVICE_SYMBOLNOTFOUND d, EPICSADS_NOT_RESOLVED)]"

definition ads_rc_to_epicsads_error :: "ads_def \<Rightarrow> int \<Rightarrow> int" where
  "ads_rc_to_epicsads_error d ads_rc =
     (case sm_find (ads_rc_to_epicsads_error_map d) ads_rc of
        None \<Rightarrow> EPICSADS_UNHANDLED_RC
      | Some rc \<Rightarrow> rc)"

section \<open>Descriptions of ADS return codes\<close>

definition errorMap_entries :: "(int \<times> string) list" where
  "errorMap_entries =
  [(1, ''Internal error''),
   (2, ''No Rtime''),
   (3, ''Allocation locked memory error''),
   (4, ''Insert mailbox error''),
   (5, ''Wrong receive HMSG''),
   (6, ''target port not found''),
   (7, ''target machine not found''),
   (8, ''Unknown command ID''),
   (9, ''Bad task ID''),
   (10, ''No IO''),
   (11, ''Unknown ADS command''),
   (12, ''Win 32 error''),
   (13, ''Port not connected''),
   (14, ''Invalid ADS length''),
   (15, ''Invalid ADS Net ID''),
   (16, ''Low Installation level''),
   (17, ''No debug available''),
   (18, ''Port disabled''),
   (19, ''Port already connected''),
   (20, ''ADS Sync Win32 error''),
   (21, ''ADS Sync Timeout''),
   (22, ''ADS Sync AMS error''),
   (23, ''ADS Sync no index map''),
   (24, ''Invalid ADS port''),
   (25, ''No memory''),
   (26, ''TCP send error''),
   (27, ''Host unreachable''),
   (28, ''Invalid AMS fragment''),
   (1280, ''No locked memory can be allocated''),
   (1281, ''The size of the router memory could not be changed''),
   (1282, ''The mailbox has reached the maximum number of possible messages. The current sent message was rejected''),
   (1283, ''The mailbox has reached the maximum number of possible messages. The sent message will not be displayed in the debug monitor''),
   (1284, ''The port type is unknown''),
   (1285, ''Router is not initialised''),
   (1286, ''RThe desired port number is already assigned''),
   (1287, ''Port not registered''),
   (1288, ''The maximum number of Ports reached''),
   (1289, ''The port is invalid.''),
   (1290, ''TwinCAT Router not active''),
   (1291, ''ROUTERERR_FRAGMENTBOXFULL''),
   (1292, ''ROUTERERR_FRAGMENTTIMEOUT''),
   (1293, ''ROUTERERR_TOBEREMOVED''),
   (1792, ''error class <device error>''),
   (1793, ''Service is not supported by server''),
   (1794, ''invalid index group''),
   (1795, ''invalid index offset''),
   (1796, ''reading/writing not permitted''),
   (1797, ''parameter size not correct''),
   (1798, ''invalid parameter value(s)''),
   (1799, ''device is not in a ready state''),
   (1800, ''device is busy''),
   (1801, ''invalid context (must be in Windows)''),
   (1802, ''out of memory''),
   (1803, ''invalid parameter value(s)''),
   (1804, ''not found (files, ...)''),
   (1805, ''syntax error in command or file''),
   (1806, ''objects do not match''),
   (1807, ''object already exists''),
   (1808, ''symbol not found''),
   (1809, ''symbol version invalid''),
   (1810, ''server is in invalid state''),
   (1811, ''AdsTransMode not supported''),
   (1812, ''Notification handle is invalid''),
   (1813, ''Notification client not registered''),
   (1814, ''no more notification handles''),
   (1815, ''size for watch too big''),
   (1816, ''device not initialized''),
   (1817, ''device has a timeout''),
   (1818, ''query interface failed''),
   (1819, ''wrong interface required''),
   (1820, ''class ID is invalid''),
   (1821, ''object ID is invalid''),
   (1822, ''request is pending''),
   (1823, ''request is aborted''),
   (1824, ''signal warning''),
   (1825, ''invalid array index''),
   (1826, ''symbol not active''),
   (1827, ''access denied''),
   (1856, ''Error class <client error>''),
   (1857, ''invalid parameter at service''),
   (1858, ''polling list is empty''),
   (1859, ''var connection already in use''),
   (1860, ''invoke ID in use''),
   (1861, ''timeout elapsed''),
   (1862, ''error in win32 subsystem''),
   (1863, ''Invalid client timeout value''),
   (1864, ''ads-port not opened''),
   (1872, ''internal error in ads sync''),
   (1873, ''hash table overflow''),
   (1874, ''key not found in hash''),
   (1875, ''no more symbols in cache''),
   (1876, ''invalid response received''),
   (1877, ''sync port is locked''),
   (4096, ''Internal fatal error in the TwinCAT real-time system''),
   (4097, ''Timer value not vaild''),
   (4098, ''Task pointer has the invalid value ZERO''),
   (4099, ''Task stack pointer has the invalid value ZERO''),
   (4100, ''The demand task priority is already assigned''),
   (4101, ''No more free TCB (Task Control Block) available. Maximum number of TCBs is 64''),
   (4102, ''No more free semaphores available. Maximum number of semaphores is 64''),
   (4103, ''No more free queue available. Maximum number of queue is 64''),
   (4104, ''TwinCAT reserved.''),
   (4105, ''TwinCAT reserved.''),
   (4106, ''TwinCAT reserved.''),
   (4107, ''TwinCAT reserved.''),
   (4108, ''TwinCAT reserved.''),
   (4109, ''An external synchronisation interrupt is already applied''),
   (4110, ''No external synchronsiation interrupt applied''),
   (4111, ''The apply of the external synchronisation interrupt failed''),
   (4112, ''Call of a service function in the wrong context''),
   (4119, ''Intel VT-x extension is not supported.''),
   (4120, ''Intel VT-x extension is not enabled in BIOS.''),
   (4121, ''Missing feature in Intel VT-x extension.''),
   (4122, ''Enabling Intel VT-x fails.''),
   (10060, ''A socket operation was attempted to an unreachable host.''),
   (10061, ''A connection attempt failed because the connected party did not properly respond after a period of time, or established connection failed because connected host has failed to respond.''),
   (10065, ''No connection could be made because the target machine actively refused it'')]"

definition errorMap :: "(int, string) smap" where
  "errorMap = sm_of_list errorMap_entries"

section \<open>Lemmas\<close>

text \<open>
  The codes that a function of the driver can return: \<open>-1\<close>, success, and the driver's own.
\<close>

definition epicsads_codes :: "int set" where
  "epicsads_codes = insert (-1) (insert 0 {EPICSADS_ERROR .. EPICSADS_UNHANDLED_RC})"

lemma ads_rc_ok [simp]: "ads_rc_to_epicsads_error d 0 = 0"
  by (simp add: ads_rc_to_epicsads_error_def ads_rc_to_epicsads_error_map_def)

lemma ads_rc_nonzero:
  assumes "wf_ads_def d"
  shows "ads_rc_to_epicsads_error d rc = 0 \<longleftrightarrow> rc = 0"
  using assms
  by (auto simp: ads_rc_to_epicsads_error_def ads_rc_to_epicsads_error_map_def wf_ads_def_def
      split: if_splits)

lemma ads_rc_codes: "ads_rc_to_epicsads_error d rc \<in> epicsads_codes"
  by (auto simp: ads_rc_to_epicsads_error_def ads_rc_to_epicsads_error_map_def epicsads_codes_def)

lemma ads_rc_unhandled:
  "rc \<notin> {-1, 0, ADSERR_DEVICE_ERROR d, GLOBALERR_MISSING_ROUTE d, ADSERR_CLIENT_SYNCTIMEOUT d,
     ADSERR_DEVICE_SYMBOLNOTFOUND d} \<Longrightarrow> ads_rc_to_epicsads_error d rc = EPICSADS_UNHANDLED_RC"
  by (auto simp: ads_rc_to_epicsads_error_def ads_rc_to_epicsads_error_map_def)

text \<open>
  Translating an ADS return code keeps success apart from failure: the result is 0 exactly
  when the ADS call succeeded, for every return code of the ADS library, known to the table or
  not; and the result is always a code that has a non-empty description in \<open>ads_errors\<close>, so
  that the log messages never read an absent entry of that table.
\<close>

theorem ads_rc_translation:
  assumes "wf_ads_def d"
  shows "(ads_rc_to_epicsads_error d rc = 0 \<longleftrightarrow> rc = 0)
    \<and> (\<exists>text. sm_find ads_errors (ads_rc_to_epicsads_error d rc) = Some text \<and> text \<noteq> [])"
proof
  show "ads_rc_to_epicsads_error d rc = 0 \<longleftrightarrow> rc = 0" by (rule ads_rc_nonzero [OF assms])
  have "ads_rc_to_epicsads_error d rc \<in> {-1, 0, 1001, 1006, 1012, 1013}"
    by (auto simp: ads_rc_to_epicsads_error_def ads_rc_to_epicsads_error_map_def)
  then show "\<exists>text. sm_find ads_errors (ads_rc_to_epicsads_error d rc) = Some text \<and> text \<noteq> []"
    by (auto simp: ads_errors_def)
qed

theorem ads_rc_translation_witness:
  "(ads_rc_to_epicsads_error ads_def_documented 1808 = 0 \<longleftrightarrow> (1808::int) = 0)
    \<and> (\<exists>text. sm_find ads_errors (ads_rc_to_epicsads_error ads_def_documented 1808) = Some text
         \<and> text \<noteq> [])"
  by (rule ads_rc_translation [OF wf_ads_def_documented])

end
