(* ===== verification/Ads_Types.thy ===== *)
theory Ads_Types
  imports Std_Map Ads_Def
begin

text \<open>
  \<open>Types.h\<close>, \<open>Types.cpp\<close> and \<open>type.h\<close>: the enumerations and the tables keyed by them. The
  enumerators of \<open>ADSDataType\<close> have the prefix \<open>T_\<close> and those of \<open>ADSState\<close> the prefix \<open>St_\<close>
  (\<open>INT\<close> is syntax of HOL). \<open>ADSDataType\<close> is an instance of \<open>linorder\<close>, by the enumerators'
  values, because it is the key type of two \<open>std::map\<close>s.
\<close>

datatype operation = Read | Write

datatype ADSDataType =
    T_UNKNOWN | T_BOOL | T_SINT | T_BYTE | T_USINT | T_INT | T_WORD | T_DWORD | T_UINT
  | T_DINT | T_UDINT | T_LINT | T_REAL | T_LREAL | T_STRING

fun data_type_code :: "ADSDataType \<Rightarrow> nat" where
  "data_type_code T_UNKNOWN = 0"
| "data_type_code T_BOOL = 1"
| "data_type_code T_SINT = 2"
| "data_type_code T_BYTE = 3"
| "data_type_code T_USINT = 4"
| "data_type_code T_INT = 5"
| "data_type_code T_WORD = 6"
| "data_type_code T_DWORD = 7"
| "data_type_code T_UINT = 8"
| "data_type_code T_DINT = 9"
| "data_type_code T_UDINT = 10"
| "data_type_code T_LINT = 11"
| "data_type_code T_REAL = 12"
| "data_type_code T_LREAL = 13"
| "data_type_code T_STRING = 14"

lemma data_type_code_inject: "data_type_code a = data_type_code b \<Longrightarrow> a = b"
  by (cases a; cases b; simp)

instantiation ADSDataType :: linorder
begin

definition less_eq_ADSDataType :: "ADSDataType \<Rightarrow> ADSDataType \<Rightarrow> bool" where
  "less_eq_ADSDataType a b \<longleftrightarrow> data_type_code a \<le> data_type_code b"

definition less_ADSDataType :: "ADSDataType \<Rightarrow> ADSDataType \<Rightarrow> bool" where
  "less_ADSDataType a b \<longleftrightarrow> data_type_code a < data_type_code b"

instance
  by standard (auto simp: less_eq_ADSDataType_def less_ADSDataType_def data_type_code_inject)

end

datatype ADSState =
    St_Invalid | St_Idle | St_Reset | St_Init | St_Start | St_Run | St_Stop | St_Savecfg
  | St_Loadcfg | St_Powerfailure | St_Powergood | St_Error | St_Shutdown | St_Suspend
  | St_Resume | St_Config | St_Reconfig | St_Maxstates

fun ads_state_code :: "ADSState \<Rightarrow> int" where
  "ads_state_code St_Invalid = 0"
| "ads_state_code St_Idle = 1"
| "ads_state_code St_Reset = 2"
| "ads_state_code St_Init = 3"
| "ads_state_code St_Start = 4"
| "ads_state_code St_Run = 5"
| "ads_state_code St_Stop = 6"
| "ads_state_code St_Savecfg = 7"
| "ads_state_code St_Loadcfg = 8"
| "ads_state_code St_Powerfailure = 9"
| "ads_state_code St_Powergood = 10"
| "ads_state_code St_Error = 11"
| "ads_state_code St_Shutdown = 12"
| "ads_state_code St_Suspend = 13"
| "ads_state_code St_Resume = 14"
| "ads_state_code St_Config = 15"
| "ads_state_code St_Reconfig = 16"
| "ads_state_code St_Maxstates = 17"

section \<open>The tables\<close>

definition ads_datatype_sizes :: "(ADSDataType, nat) smap" where
  "ads_datatype_sizes = sm_of_list
    [(T_BOOL, 1), (T_SINT, 1), (T_BYTE, 1), (T_USINT, 1), (T_INT, 2), (T_WORD, 2),
     (T_DWORD, 4), (T_UINT, 2), (T_DINT, 4), (T_UDINT, 4), (T_REAL, 4), (T_LREAL, 8),
     (T_LINT, 8), (T_STRING, 1)]"

definition ads_datatypes_str :: "(ADSDataType, string) smap" where
  "ads_datatypes_str = sm_of_list
    [(T_BOOL, ''BOOL''), (T_SINT, ''SINT''), (T_BYTE, ''BYTE''), (T_USINT, ''USINT''),
     (T_INT, ''INT''), (T_WORD, ''WORD''), (T_DWORD, ''DWORD''), (T_UINT, ''UINT''),
     (T_DINT, ''DINT''), (T_UDINT, ''UDINT''), (T_REAL, ''REAL''), (T_LREAL, ''LREAL''),
     (T_LINT, ''LINT''), (T_STRING, ''STRING'')]"

definition ads_datatypes :: "(string, ADSDataType) smap" where
  "ads_datatypes = sm_of_list
    [(''BOOL'', T_BOOL), (''SINT'', T_SINT), (''BYTE'', T_BYTE), (''USINT'', T_USINT),
     (''INT'', T_INT), (''WORD'', T_WORD), (''DWORD'', T_DWORD), (''UINT'', T_UINT),
     (''DINT'', T_DINT), (''UDINT'', T_UDINT), (''REAL'', T_REAL), (''LREAL'', T_LREAL),
     (''LINT'', T_LINT), (''STRING'', T_STRING)]"

text \<open>The port numbers are constants of the ADS library's header (parameter \<open>d\<close>).\<close>

definition ads_port_map :: "ads_def \<Rightarrow> (string, nat) smap" where
  "ads_port_map d = sm_of_list
    [(''LOGGER'', AMSPORT_LOGGER d), (''RTIME'', AMSPORT_R0_RTIME d),
     (''TRACE'', AMSPORT_R0_TRACE d), (''IO'', AMSPORT_R0_IO d), (''SPS'', AMSPORT_R0_SPS d),
     (''NC'', AMSPORT_R0_NC d), (''ISG'', AMSPORT_R0_ISG d), (''PCS'', AMSPORT_R0_PCS d),
     (''PLC'', AMSPORT_R0_PLC d), (''PLC_RTS1'', AMSPORT_R0_PLC_RTS1 d),
     (''PLC_RTS2'', AMSPORT_R0_PLC_RTS2 d), (''PLC_RTS3'', AMSPORT_R0_PLC_RTS3 d),
     (''PLC_RTS4'', AMSPORT_R0_PLC_RTS4 d), (''PLC_TC3'', AMSPORT_R0_PLC_TC3 d)]"

text \<open>\<open>type.h\<close> repeats the port names with literal numbers.\<close>

definition portMap :: "(string, nat) smap" where
  "portMap = sm_of_list
    [(''LOGGER'', 100), (''RTIME'', 200), (''TRACE'', 290), (''IO'', 300), (''SPS'', 400),
     (''NC'', 500), (''ISG'', 550), (''PCS'', 600), (''PLC'', 801), (''PLC_RTS1'', 801),
     (''PLC_RTS2'', 811), (''PLC_RTS3'', 821), (''PLC_RTS4'', 831), (''PLC_TC3'', 851)]"

definition ads_states :: "(int, string) smap" where
  "ads_states = sm_of_list
    [(ads_state_code St_Invalid, ''invalid state''), (ads_state_code St_Idle, ''idle state''),
     (ads_state_code St_Reset, ''reset state''), (ads_state_code St_Init, ''initialized''),
     (ads_state_code St_Start, ''started''), (ads_state_code St_Run, ''running''),
     (ads_state_code St_Stop, ''stopped''),
     (ads_state_code St_Savecfg, ''saved configuration''),
     (ads_state_code St_Loadcfg, ''load configuration''),
     (ads_state_code St_Powerfailure, ''power failure''),
     (ads_state_code St_Powergood, ''power good''), (ads_state_code St_Error, ''error state''),
     (ads_state_code St_Shutdown, ''shutting down''), (ads_state_code St_Suspend, ''suspended''),
     (ads_state_code St_Resume, ''resumed''),
     (ads_state_code St_Config, ''system in config mode''),
     (ads_state_code St_Reconfig, ''system should restart in config mode''),
     (ads_state_code St_Maxstates, ''max states'')]"

section \<open>Lemmas\<close>

text \<open>\<open>ads_datatypes[s]\<close> and \<open>ads_datatype_sizes[t]\<close>, with the default for an absent key.\<close>

definition data_type_of_name :: "string \<Rightarrow> ADSDataType" where
  "data_type_of_name s = sm_get T_UNKNOWN ads_datatypes s"

lemmas type_tables = ads_datatype_sizes_def ads_datatypes_str_def ads_datatypes_def

lemma data_type_of_name_known [simp]:
  "data_type_of_name ''BOOL'' = T_BOOL" "data_type_of_name ''SINT'' = T_SINT"
  "data_type_of_name ''BYTE'' = T_BYTE" "data_type_of_name ''USINT'' = T_USINT"
  "data_type_of_name ''INT'' = T_INT" "data_type_of_name ''WORD'' = T_WORD"
  "data_type_of_name ''DWORD'' = T_DWORD" "data_type_of_name ''UINT'' = T_UINT"
  "data_type_of_name ''DINT'' = T_DINT" "data_type_of_name ''UDINT'' = T_UDINT"
  "data_type_of_name ''REAL'' = T_REAL" "data_type_of_name ''LREAL'' = T_LREAL"
  "data_type_of_name ''LINT'' = T_LINT" "data_type_of_name ''STRING'' = T_STRING"
  by (simp_all add: data_type_of_name_def sm_get_def ads_datatypes_def)

lemma datatypes_roundtrip:
  "sm_find ads_datatypes s = Some t \<longleftrightarrow> sm_find ads_datatypes_str t = Some s"
  by (cases t) (auto simp: type_tables)

lemma datatype_sizes_bounds:
  assumes "sm_find ads_datatype_sizes t = Some n"
  shows "0 < n \<and> n \<le> 8 \<and> t \<noteq> T_UNKNOWN"
  using assms by (cases t) (auto simp: type_tables)

lemma datatype_sizes_known: "t \<noteq> T_UNKNOWN \<Longrightarrow> \<exists>n. sm_find ads_datatype_sizes t = Some n"
  by (cases t) (auto simp: type_tables)

lemma datatype_str_known: "t \<noteq> T_UNKNOWN \<Longrightarrow> \<exists>s. sm_find ads_datatypes_str t = Some s"
  by (cases t) (auto simp: type_tables)

text \<open>
  The tables agree: with the documented constants of the ADS library the port names of \<open>type.h\<close> and
  of \<open>Types.cpp\<close> are the same map; the table of type names and the table of the types' names are
  inverse to each other; each data type but the unknown one has a name and a size; and every state
  that an ADS device can report has a description.
\<close>

theorem tables_agree:
  "portMap = ads_port_map ads_def_documented
   \<and> (\<forall>s t. sm_find ads_datatypes s = Some t \<longleftrightarrow> sm_find ads_datatypes_str t = Some s)
   \<and> (\<forall>t. (sm_find ads_datatypes_str t = None) = (t = T_UNKNOWN) \<and> (sm_find ads_datatype_sizes t = None) = (t = T_UNKNOWN))
   \<and> (\<forall>st. sm_find ads_states (ads_state_code st) \<noteq> None)"
proof (intro conjI allI)
  show "portMap = ads_port_map ads_def_documented"
    unfolding portMap_def ads_port_map_def
    by (rule arg_cong [where f = sm_of_list]) (simp add: ads_def_documented_def)
  show "sm_find ads_datatypes s = Some t \<longleftrightarrow> sm_find ads_datatypes_str t = Some s" for s t
    by (rule datatypes_roundtrip)
  show "(sm_find ads_datatypes_str t = None) = (t = T_UNKNOWN)" "(sm_find ads_datatype_sizes t = None) = (t = T_UNKNOWN)" for t
    by (cases t; simp add: type_tables)+
  show "sm_find ads_states (ads_state_code st) \<noteq> None" for st
    unfolding ads_states_def sm_find_of_list map_of_eq_None_iff list.set image_insert fst_conv
    by (cases st; simp only: insert_iff simp_thms)
qed

end
