(* ===== verification/Numerals.thy ===== *)
theory Numerals
  imports Prelude
begin

text \<open>
  Reading and writing numbers with the C++ standard library: \<open>std::stol\<close> (that is \<open>strtol\<close>) for a
  64-bit \<open>long\<close> in base 10 and 16, \<open>strtol\<close> without its error reporting (as the IOC shell command
  uses it), and output streams in \<open>std::dec\<close> and \<open>std::hex\<close>.
\<close>

section \<open>Reading\<close>

definition is_space :: "char \<Rightarrow> bool" where
  "is_space c \<longleftrightarrow> c \<in> set [CHR '' '', CHR 0x09, CHR 0x0A, CHR 0x0B, CHR 0x0C, CHR 0x0D]"

definition digit_val :: "char \<Rightarrow> nat" where
  "digit_val c = (let n = of_char c :: nat in
     if 48 \<le> n \<and> n \<le> 57 then n - 48
     else if 97 \<le> n \<and> n \<le> 122 then n - 87
     else if 65 \<le> n \<and> n \<le> 90 then n - 55
     else 36)"

definition is_digit :: "nat \<Rightarrow> char \<Rightarrow> bool" where
  "is_digit base c \<longleftrightarrow> digit_val c < base"

definition digits_value :: "nat \<Rightarrow> string \<Rightarrow> nat" where
  "digits_value base ds = foldl (\<lambda>acc c. acc * base + digit_val c) 0 ds"

text \<open>In base 16 \<open>strtol\<close> skips \<open>0x\<close>, if a hexadecimal digit follows.\<close>

definition skip_0x :: "nat \<Rightarrow> string \<Rightarrow> string" where
  "skip_0x base s =
     (case s of z # x # c # t \<Rightarrow>
        (if base = 16 \<and> z = CHR ''0'' \<and> (x = CHR ''x'' \<or> x = CHR ''X'') \<and> is_digit base c
         then c # t else s)
      | _ \<Rightarrow> s)"

definition split_sign :: "string \<Rightarrow> bool \<times> string" where
  "split_sign s = (case s of [] \<Rightarrow> (False, [])
     | c # t \<Rightarrow> if c = CHR ''-'' then (True, t) else if c = CHR ''+'' then (False, t) else (False, s))"

text \<open>\<open>None\<close>: no digits, so that \<open>strtol\<close> performs no conversion. The value is not yet clamped.\<close>

definition scan_long :: "nat \<Rightarrow> string \<Rightarrow> int option" where
  "scan_long base s =
     (let (neg, t) = split_sign (dropWhile is_space s);
          ds = takeWhile (is_digit base) (skip_0x base t);
          n = int (digits_value base ds)
      in if ds = [] then None else Some (if neg then - n else n))"

definition LONG_MAX :: int where "LONG_MAX = 2 ^ 63 - 1"
definition LONG_MIN :: int where "LONG_MIN = - (2 ^ 63)"

definition stol :: "nat \<Rightarrow> string \<Rightarrow> exn + int" where
  "stol base s = (case scan_long base s of
       None \<Rightarrow> Inl (Invalid_argument ''stol'')
     | Some v \<Rightarrow> if v < LONG_MIN \<or> v > LONG_MAX then Inl (Out_of_range ''stol'') else Inr v)"

text \<open>\<open>strtol(s, nullptr, base)\<close>: 0 without digits, clamped to the range of \<open>long\<close>.\<close>

definition strtol :: "nat \<Rightarrow> string \<Rightarrow> int" where
  "strtol base s = (case scan_long base s of
       None \<Rightarrow> 0
     | Some v \<Rightarrow> max LONG_MIN (min LONG_MAX v))"

section \<open>Writing\<close>

definition digit_char :: "nat \<Rightarrow> char" where
  "digit_char n = char_of (if n < 10 then n + 48 else n + 87)"

function show_base :: "nat \<Rightarrow> nat \<Rightarrow> string" where
  "show_base base n =
     (if base < 2 \<or> n < base then [digit_char n]
      else show_base base (n div base) @ [digit_char (n mod base)])"
  by pat_completeness auto
termination
  by (relation "measure snd") auto

declare show_base.simps [simp del]

definition dec_str :: "nat \<Rightarrow> string" where "dec_str n = show_base 10 n"
definition hex_str :: "nat \<Rightarrow> string" where "hex_str n = show_base 16 n"

section \<open>Reading what was written\<close>

lemma digit_val_char [simp]: "n < 16 \<Longrightarrow> digit_val (digit_char n) = n"
  by (auto simp: digit_val_def digit_char_def Let_def)

lemma show_base_digits:
  assumes "2 \<le> base" and "base \<le> 16"
  shows "show_base base n \<noteq> []" and "\<forall>c \<in> set (show_base base n). is_digit base c"
    and "digits_value base (show_base base n) = n"
proof -
  have "show_base base n \<noteq> [] \<and> (\<forall>c \<in> set (show_base base n). is_digit base c)
    \<and> digits_value base (show_base base n) = n"
    using assms
  proof (induction base n rule: show_base.induct)
    case (1 base n)
    show ?case
    proof (cases "n < base")
      case True
      with 1 show ?thesis
        by (simp add: show_base.simps [of base n] is_digit_def digits_value_def)
    next
      case False
      have m: "n mod base < base" using 1 by simp
      with 1 have m16: "n mod base < 16" by linarith
      show ?thesis using 1 False m m16
        by (auto simp: show_base.simps [of base n] is_digit_def digits_value_def)
    qed
  qed
  then show "show_base base n \<noteq> []" and "\<forall>c \<in> set (show_base base n). is_digit base c"
    and "digits_value base (show_base base n) = n" by auto
qed

lemma digit_not_special:
  assumes "is_digit base c" and "base \<le> 16"
  shows "\<not> is_space c" and "c \<noteq> CHR ''-''" and "c \<noteq> CHR ''+''" and "c \<noteq> CHR ''x''"
    and "c \<noteq> CHR ''X''" and "c \<noteq> CHR ''=''" and "c \<noteq> CHR '' ''"
  using assms
  by (auto simp: is_digit_def digit_val_def is_space_def Let_def)

lemma takeWhile_all [simp]: "\<forall>x \<in> set xs. P x \<Longrightarrow> takeWhile P xs = xs"
  by (induction xs) auto

lemma skip_0x_digits:
  assumes "\<forall>c \<in> set s. is_digit base c" and "base \<le> 16"
  shows "skip_0x base s = s"
proof -
  have "x \<noteq> CHR ''x'' \<and> x \<noteq> CHR ''X''" if "s = z # x # t" for z x t
    using assms that digit_not_special [of base x] by auto
  then show ?thesis by (auto simp: skip_0x_def split: list.splits)
qed

lemma scan_long_digits:
  assumes s: "s \<noteq> []" "\<forall>c \<in> set s. is_digit base c" and base: "base \<le> 16"
  shows "scan_long base s = Some (int (digits_value base s))"
proof -
  obtain c t where ct: "s = c # t" using s(1) by (cases s) auto
  with s base have c: "\<not> is_space c" "c \<noteq> CHR ''-''" "c \<noteq> CHR ''+''"
    using digit_not_special [of base c] by auto
  have "split_sign (dropWhile is_space s) = (False, s)"
    using c ct by (simp add: split_sign_def)
  then show ?thesis
    using s skip_0x_digits [OF s(2) base] by (simp add: scan_long_def Let_def)
qed

lemma scan_long_0x:
  assumes s: "s \<noteq> []" "\<forall>c \<in> set s. is_digit 16 c"
  shows "scan_long 16 (''0x'' @ s) = Some (int (digits_value 16 s))"
proof -
  obtain c t where ct: "s = c # t" using s(1) by (cases s) auto
  have "skip_0x 16 (''0x'' @ s) = s" using ct s(2) by (simp add: skip_0x_def)
  then show ?thesis
    using s by (simp add: scan_long_def split_sign_def is_space_def Let_def)
qed

lemma stol_dec [simp]: "int n \<le> LONG_MAX \<Longrightarrow> stol 10 (dec_str n) = Inr (int n)"
  using show_base_digits [of 10 n]
  by (auto simp: stol_def dec_str_def scan_long_digits LONG_MIN_def)

lemma stol_hex [simp]: "int n \<le> LONG_MAX \<Longrightarrow> stol 16 (''0x'' @ hex_str n) = Inr (int n)"
  using show_base_digits [of 16 n] scan_long_0x [of "show_base 16 n"]
  by (auto simp: stol_def hex_str_def LONG_MIN_def)

lemma stol_range: "stol base s = Inr v \<Longrightarrow> LONG_MIN \<le> v \<and> v \<le> LONG_MAX"
  by (auto simp: stol_def split: option.splits if_splits)

lemma strtol_range: "LONG_MIN \<le> strtol base s \<and> strtol base s \<le> LONG_MAX"
  by (auto simp: strtol_def LONG_MIN_def LONG_MAX_def split: option.splits)

lemma dec_str_chars:
  "dec_str n \<noteq> []" "c \<in> set (dec_str n) \<Longrightarrow> is_digit 10 c"
  using show_base_digits [of 10 n] by (auto simp: dec_str_def)

lemma hex_str_chars:
  "hex_str n \<noteq> []" "c \<in> set (hex_str n) \<Longrightarrow> is_digit 16 c"
  using show_base_digits [of 16 n] by (auto simp: hex_str_def)

lemma length_show_base:
  assumes "n < base ^ k" and "0 < k" and "2 \<le> base"
  shows "length (show_base base n) \<le> k"
  using assms
proof (induction k arbitrary: n)
  case 0
  then show ?case by simp
next
  case (Suc k)
  show ?case
  proof (cases "n < base")
    case True
    then show ?thesis by (simp add: show_base.simps [of base n])
  next
    case False
    have "n div base < base ^ k" using Suc.prems by (simp add: less_mult_imp_div_less mult.commute)
    moreover have "0 < k" using False Suc.prems(1) by (cases k) auto
    ultimately show ?thesis
      using False Suc.IH [of "n div base"] Suc.prems(3) by (simp add: show_base.simps [of base n])
  qed
qed

lemma length_dec_str: "n < 2 ^ 32 \<Longrightarrow> length (dec_str n) \<le> 10"
  unfolding dec_str_def by (rule length_show_base) simp_all

end
