(* ===== verification/Ads_Address.thy ===== *)
theory Ads_Address
  imports Err Ads_Types Numerals
begin

text \<open>
  \<open>ADSAddress.h\<close> and \<open>ADSAddress.cpp\<close>: the address of an ADS variable, its two constructors
  (from one address specifier, and from the function name and arguments that autoparam splits off
  a record's link), the parsers they use, resolving and unresolving a symbolic name, and the
  printed form. Exceptions are values of \<open>exn\<close>; an index past the end of the argument vector is
  the value \<open>Undefined\<close>. The tokenizer of the first constructor is Boost's: a parameter.
\<close>

record ads_address =
  addr_data_type :: ADSDataType
  addr_operation :: operation
  addr_variable_name :: string
  addr_ads_port :: nat             \<comment> \<open>\<open>uint16_t\<close>\<close>
  addr_index_group :: nat          \<comment> \<open>\<open>uint32_t\<close>\<close>
  addr_index_offset :: nat         \<comment> \<open>\<open>uint32_t\<close>\<close>
  addr_notification_delay :: nat   \<comment> \<open>\<open>uint32_t\<close>\<close>
  addr_nelem :: nat                \<comment> \<open>\<open>uint32_t\<close>\<close>
  addr_name_is_resolved :: bool

section \<open>Parsers\<close>

definition parse_param_value :: "string \<Rightarrow> exn + string" where
  "parse_param_value s =
     (if str_find s ''='' = npos then Inr []
      else substr s (u64 (str_find s ''='' + 1)) npos)"

definition parse_dec_or_hex_int :: "string \<Rightarrow> exn + nat" where
  "parse_dec_or_hex_int s =
     exn_bind (substr s 0 2) (\<lambda>pre.
       if pre = ''0x'' then exn_bind (stol 16 s) (\<lambda>v. Inr (long_to_u32 v))
       else exn_bind (stol 10 s) (\<lambda>v. Inr (long_to_u32 v)))"

definition parse_data_type_autoparam :: "string \<Rightarrow> exn + ADSDataType" where
  "parse_data_type_autoparam s =
     exn_bind
       (if str_find s ''[]'' \<noteq> npos then
          exn_bind (substr s 0 (str_find s ''[]'')) (\<lambda>n. Inr (data_type_of_name n))
        else if str_find s ''_digi'' \<noteq> npos then
          exn_bind (substr s 0 (str_find s ''_digi'')) (\<lambda>n. Inr (data_type_of_name n))
        else Inr (data_type_of_name s))
       (\<lambda>t. if t = T_UNKNOWN then Inl (Invalid_argument (quoted ''Invalid datatype '' s))
            else Inr t)"

definition parse_data_type :: "string \<Rightarrow> exn + ADSDataType" where
  "parse_data_type s =
     exn_bind
       (if str_find s ''['' \<noteq> npos then
          exn_bind (substr s 0 (str_find s ''['')) (\<lambda>n. Inr (data_type_of_name n))
        else Inr (data_type_of_name s))
       (\<lambda>t. if t = T_UNKNOWN then Inl (Invalid_argument (quoted ''Invalid datatype '' s))
            else Inr t)"

definition parse_operation :: "string \<Rightarrow> exn + operation" where
  "parse_operation s =
     (if s = ''R'' then Inr Read
      else if s = ''W'' then Inr Write
      else Inl (Invalid_argument (quoted ''Invalid operation '' s)))"

text \<open>
  The range check that both \<open>parse_nelem\<close> functions end with: \<open>stol\<close> is outside the \<open>try\<close> block,
  so its exceptions propagate.
\<close>

definition nelem_value :: "string \<Rightarrow> exn + nat" where
  "nelem_value value =
     exn_bind (stol 10 value) (\<lambda>nelem.
       if nelem < 1 \<or> nelem > 2 ^ 32 - 1
       then Inl (Invalid_argument (''Invalid number of elements: '' @ value))
       else Inr (long_to_u32 nelem))"

definition parse_nelem_autoparam :: "string \<Rightarrow> exn + nat" where
  "parse_nelem_autoparam s =
     (case substr s (u64 (str_find s ''N='' + 2)) npos of
        Inl (Out_of_range _) \<Rightarrow> Inr 0
      | Inl e \<Rightarrow> Inl e
      | Inr value \<Rightarrow> if value = [] then Inr 0 else nelem_value value)"

definition parse_nelem :: "string \<Rightarrow> exn + nat" where
  "parse_nelem s =
     (case substr s (str_find s ''N='') npos of
        Inl (Out_of_range _) \<Rightarrow> Inr 0
      | Inl e \<Rightarrow> Inl e
      | Inr value \<Rightarrow>
          if value = [] then Inr 0
          else exn_bind (substr value 2 npos) nelem_value)"

definition parse_ads_port :: "ads_def \<Rightarrow> string \<Rightarrow> exn + nat" where
  "parse_ads_port d s =
     exn_bind (parse_param_value s) (\<lambda>value.
       let as_int = sm_get 0 (ads_port_map d) value in
       if as_int \<noteq> 0 then Inr as_int
       else catch_all (exn_bind (parse_dec_or_hex_int value) (\<lambda>v. Inr (u16 v)))
              (quoted ''Invalid ADS port '' s))"

definition parse_index_group :: "string \<Rightarrow> exn + nat" where
  "parse_index_group s =
     exn_bind (parse_param_value s) (\<lambda>value.
       catch_all (parse_dec_or_hex_int value) (quoted ''Invalid ADS index group '' s))"

definition parse_index_offset :: "string \<Rightarrow> exn + nat" where
  "parse_index_offset s =
     exn_bind (parse_param_value s) (\<lambda>value.
       catch_all (parse_dec_or_hex_int value) (quoted ''Invalid ADS index offset '' s))"

definition parse_variable_name :: "string \<Rightarrow> exn + string" where
  "parse_variable_name s =
     exn_bind (parse_param_value s) (\<lambda>value.
       if value = [] then Inl (Invalid_argument ''Variable name not specified'') else Inr value)"

definition parse_notification_delay :: "string \<Rightarrow> exn + nat" where
  "parse_notification_delay s =
     exn_bind (parse_param_value s) (\<lambda>value.
       if value = [] then Inl (Invalid_argument ''Notification delay not specified'')
       else exn_bind (stol 10 value) (\<lambda>v. Inr (long_to_u32 v)))"

section \<open>The constructor from an address specifier\<close>

text \<open>The members' initialisers; data type and operation are assigned before they are read.\<close>

definition blank_address :: "ADSDataType \<Rightarrow> operation \<Rightarrow> ads_address" where
  "blank_address t opn = \<lparr> addr_data_type = t, addr_operation = opn, addr_variable_name = [],
     addr_ads_port = 0, addr_index_group = 0, addr_index_offset = 0, addr_notification_delay = 0,
     addr_nelem = 0, addr_name_is_resolved = False \<rparr>"

definition parse_register_specifier :: "ads_address \<Rightarrow> string list \<Rightarrow> exn + ads_address" where
  "parse_register_specifier a tokens =
     (if length tokens < 4 then Inl (Invalid_argument ''Missing index group specifier'')
      else exn_bind (parse_index_group (tokens ! 3)) (\<lambda>g.
        if length tokens < 5 then Inl (Invalid_argument ''Missing index offset specifier'')
        else exn_bind (parse_index_offset (tokens ! 4)) (\<lambda>off.
          let a' = a\<lparr>addr_index_group := g, addr_index_offset := off\<rparr> in
          if length tokens \<ge> 6
          then exn_bind (parse_notification_delay (tokens ! 5))
                 (\<lambda>del. Inr (a'\<lparr>addr_notification_delay := del\<rparr>))
          else Inr a')))"

definition parse_variable_specifier :: "ads_address \<Rightarrow> string list \<Rightarrow> exn + ads_address" where
  "parse_variable_specifier a tokens =
     (if length tokens < 4 then Inl (Invalid_argument ''Missing variable name specifier'')
      else exn_bind (parse_variable_name (tokens ! 3)) (\<lambda>name.
        let a' = a\<lparr>addr_variable_name := name\<rparr> in
        if length tokens \<ge> 5
        then exn_bind (parse_notification_delay (tokens ! 4))
               (\<lambda>del. Inr (a'\<lparr>addr_notification_delay := del\<rparr>))
        else Inr a'))"

text \<open>The checks that both constructors make on the number of elements.\<close>

definition finish_nelem :: "ads_address \<Rightarrow> exn + ads_address" where
  "finish_nelem a =
     (if addr_data_type a = T_STRING \<and> addr_nelem a = 0
      then Inl (Invalid_argument ''Missing NELEM specifier for STRING datatype'')
      else Inr (if addr_nelem a = 0 then a\<lparr>addr_nelem := 1\<rparr> else a))"

definition ADSAddress_specifier ::
  "(string \<Rightarrow> string list) \<Rightarrow> ads_def \<Rightarrow> string \<Rightarrow> exn + ads_address" where
  "ADSAddress_specifier tokenize d address =
     (let tokens = tokenize address in
      if length tokens < 4
      then Inl (Invalid_argument (quoted ''Invalid address specifier: '' address))
      else
        exn_bind (parse_data_type (tokens ! 0)) (\<lambda>t.
        exn_bind (parse_nelem (tokens ! 0)) (\<lambda>n.
        exn_bind (parse_operation (tokens ! 1)) (\<lambda>opn.
        exn_bind (parse_ads_port d (tokens ! 2)) (\<lambda>port.
        let a = (blank_address t opn)\<lparr>addr_nelem := n, addr_ads_port := port\<rparr> in
        exn_bind
          (if prefix ''G'' (tokens ! 3) then parse_register_specifier a tokens
           else parse_variable_specifier a tokens) (\<lambda>a1.
        exn_bind (finish_nelem a1) (\<lambda>a2.
        Inr (a2\<lparr>addr_name_is_resolved :=
               (addr_index_group a2 \<noteq> 0 \<or> addr_index_offset a2 \<noteq> 0)\<rparr>))))))))"

section \<open>The constructor for autoparam\<close>

definition ADSAddress_autoparam ::
  "ads_def \<Rightarrow> string \<Rightarrow> string list \<Rightarrow> exn + ads_address" where
  "ADSAddress_autoparam d func arguments =
     exn_bind (parse_data_type_autoparam func) (\<lambda>t.
     exn_bind
       (if contains func ''[]'' \<or> contains func ''STRING'' then
          exn_bind (exn_bind (vec_at arguments 0) parse_nelem_autoparam) (\<lambda>n.
          exn_bind (exn_bind (vec_at arguments 1) parse_operation) (\<lambda>opn.
          exn_bind (exn_bind (vec_at arguments 2) (parse_ads_port d)) (\<lambda>port.
          exn_bind (exn_bind (vec_at arguments 3) parse_variable_name) (\<lambda>name.
          Inr ((blank_address t opn)\<lparr>addr_nelem := n, addr_ads_port := port,
                 addr_variable_name := name\<rparr>)))))
        else if contains func ''_digi'' then
          exn_bind (exn_bind (vec_at arguments 0) parse_operation) (\<lambda>opn.
          exn_bind (exn_bind (vec_at arguments 1) (parse_ads_port d)) (\<lambda>port.
          exn_bind (exn_bind (vec_at arguments 2) parse_variable_name) (\<lambda>name.
          Inr ((blank_address t opn)\<lparr>addr_nelem := 0, addr_ads_port := port,
                 addr_variable_name := name\<rparr>))))
        else
          exn_bind (exn_bind (vec_at arguments 0) parse_operation) (\<lambda>opn.
          exn_bind (exn_bind (vec_at arguments 1) (parse_ads_port d)) (\<lambda>port.
          exn_bind (exn_bind (vec_at arguments 2) parse_variable_name) (\<lambda>name.
          Inr ((blank_address t opn)\<lparr>addr_nelem := 0, addr_ads_port := port,
                 addr_variable_name := name\<rparr>))))) (\<lambda>a.
     exn_bind (finish_nelem a) (\<lambda>a2.
     Inr (a2\<lparr>addr_name_is_resolved := False\<rparr>))))"

section \<open>Resolving\<close>

definition resolve :: "nat \<Rightarrow> nat \<Rightarrow> ads_address \<Rightarrow> int \<times> ads_address" where
  "resolve ads_index_group ads_index_offset a =
     (if addr_name_is_resolved a then (EPICSADS_INV_CALL, a)
      else (0, a\<lparr>addr_index_group := ads_index_group, addr_index_offset := ads_index_offset,
                 addr_name_is_resolved := True\<rparr>))"

definition unresolve :: "ads_address \<Rightarrow> int \<times> ads_address" where
  "unresolve a =
     (if addr_variable_name a = [] then (EPICSADS_INV_CALL, a)
      else (0, a\<lparr>addr_index_group := 0, addr_index_offset := 0,
                 addr_name_is_resolved := False\<rparr>))"

section \<open>Printing\<close>

definition info :: "ads_address \<Rightarrow> string" where
  "info a =
     sm_get [] ads_datatypes_str (addr_data_type a) @ ''['' @ dec_str (addr_nelem a) @ '' elem/''
     @ dec_str (u64 (addr_nelem a * sm_get 0 ads_datatype_sizes (addr_data_type a))) @ '' bytes] ''
     @ ''P='' @ dec_str (addr_ads_port a) @ '' ''
     @ (if addr_variable_name a \<noteq> [] then
          ''V='' @ addr_variable_name a @ '' (handle G=0x'' @ hex_str (addr_index_group a)
          @ '' O=0x'' @ hex_str (addr_index_offset a) @ '')''
        else
          ''G=0x'' @ hex_str (addr_index_group a) @ '' O=0x'' @ hex_str (addr_index_offset a))"

end
