(* ===== verification/Address_Props.thy ===== *)
theory Address_Props
  imports Ads_Address
begin

text \<open>
  What \<open>ADSAddress\<close> guarantees: addresses written in the documented link format are read back
  exactly, every address a constructor returns is well formed, errors are exceptions of known
  kinds, and resolving follows the calls made.
\<close>

section \<open>Lemmas on the parsers\<close>

lemma npos_value: "npos = 18446744073709551615"
  by (simp add: npos_def)

lemma npos_big [simp]: "Suc 0 \<noteq> npos" "0 \<noteq> npos" "2 \<noteq> npos" "npos \<noteq> Suc 0" "npos \<noteq> 0" "npos \<noteq> 2"
  by (simp_all add: npos_value)

lemma parse_param_value_key [simp]:
  assumes "k \<noteq> CHR ''=''"
  shows "parse_param_value (k # CHR ''='' # v) = Inr v"
proof -
  have "\<not> prefix ''='' (k # CHR ''='' # v)" using assms by simp
  then have "str_find (k # CHR ''='' # v) ''='' = 1" by (simp add: str_find_def)
  then show ?thesis by (simp add: parse_param_value_def)
qed

lemma dec_str_no_0x: "take 2 (dec_str n) \<noteq> ''0x''"
proof
  assume "take 2 (dec_str n) = ''0x''"
  then have "CHR ''x'' \<in> set (take 2 (dec_str n))" by simp
  then have "CHR ''x'' \<in> set (dec_str n)" by (rule in_set_takeD)
  then have "is_digit 10 (CHR ''x'')" by (rule dec_str_chars)
  then show False by (simp add: is_digit_def digit_val_def Let_def)
qed

lemma parse_dec [simp]: "n < 2 ^ 32 \<Longrightarrow> parse_dec_or_hex_int (dec_str n) = Inr n"
  using dec_str_no_0x [of n] by (simp add: parse_dec_or_hex_int_def LONG_MAX_def)

lemma parse_hex [simplified, simp]: "n < 2 ^ 32 \<Longrightarrow> parse_dec_or_hex_int (''0x'' @ hex_str n) = Inr n"
  using stol_hex [of n] by (simp add: parse_dec_or_hex_int_def LONG_MAX_def)

text \<open>No port name starts with a digit, so a number is never taken for a name.\<close>

lemma port_names_no_digit:
  assumes "is_digit 10 (hd s)"
  shows "sm_get 0 (ads_port_map d) s = 0"
proof -
  let ?names = "[''LOGGER'', ''RTIME'', ''TRACE'', ''IO'', ''SPS'', ''NC'', ''ISG'', ''PCS'', ''PLC'',
      ''PLC_RTS1'', ''PLC_RTS2'', ''PLC_RTS3'', ''PLC_RTS4'', ''PLC_TC3'']"
  have "list_all (\<lambda>x. \<not> is_digit 10 (hd x)) ?names"
    by (simp add: is_digit_def digit_val_def)
  with assms have "s \<notin> set ?names" unfolding list_all_iff by blast
  then have "sm_find (ads_port_map d) s = None" by (simp add: ads_port_map_def)
  then show ?thesis by (simp add: sm_get_def)
qed

lemma ads_port_map_u16: "wf_ads_def d \<Longrightarrow> sm_get 0 (ads_port_map d) s < 2 ^ 16"
  by (auto simp: sm_get_def ads_port_map_def wf_ads_def_def)

lemma parse_ads_port_dec [simplified, simp]:
  assumes "p < 2 ^ 16"
  shows "parse_ads_port d (''P='' @ dec_str p) = Inr p"
proof -
  have "sm_get 0 (ads_port_map d) (dec_str p) = 0"
    by (intro port_names_no_digit dec_str_chars(2) [OF hd_in_set [OF dec_str_chars(1)]])
  with assms show ?thesis by (simp add: parse_ads_port_def)
qed

lemma parse_ads_port_bound:
  "wf_ads_def d \<Longrightarrow> parse_ads_port d s = Inr p \<Longrightarrow> p < 2 ^ 16"
  using ads_port_map_u16 [of d]
  by (auto simp: parse_ads_port_def exn_bind_eq_Inr Let_def split: if_splits)

lemma nelem_value_dec [simp]:
  "1 \<le> n \<Longrightarrow> n < 2 ^ 32 \<Longrightarrow> nelem_value (dec_str n) = Inr n"
  by (simp add: nelem_value_def LONG_MAX_def)

lemma nelem_value_bound: "nelem_value s = Inr n \<Longrightarrow> 1 \<le> n \<and> n < 2 ^ 32"
  by (auto simp: nelem_value_def exn_bind_eq_Inr split: if_splits)

lemma parse_nelem_autoparam_key [simplified, simp]:
  "v \<noteq> [] \<Longrightarrow> parse_nelem_autoparam (''N='' @ v) = nelem_value v"
  by (simp add: parse_nelem_autoparam_def str_find_def)

lemma parse_nelem_autoparam_bound: "parse_nelem_autoparam s = Inr n \<Longrightarrow> n < 2 ^ 32"
  by (auto simp: parse_nelem_autoparam_def dest: nelem_value_bound
      split: sum.splits exn.splits if_splits)

lemma parse_nelem_bound: "parse_nelem s = Inr n \<Longrightarrow> n < 2 ^ 32"
  by (auto simp: parse_nelem_def exn_bind_eq_Inr dest: nelem_value_bound
      split: sum.splits exn.splits if_splits)

lemma parse_operation_text [simp]:
  "parse_operation ''R'' = Inr Read" "parse_operation ''W'' = Inr Write"
  by (simp_all add: parse_operation_def)

lemma parse_variable_name_key [simplified, simp]: "v \<noteq> [] \<Longrightarrow> parse_variable_name (''V='' @ v) = Inr v"
  by (simp add: parse_variable_name_def)

lemma parse_variable_name_nonempty: "parse_variable_name s = Inr v \<Longrightarrow> v \<noteq> []"
  by (auto simp: parse_variable_name_def exn_bind_eq_Inr split: if_splits)

lemma parse_dec_or_hex_bound: "parse_dec_or_hex_int s = Inr v \<Longrightarrow> v < 2 ^ 32"
  by (auto simp: parse_dec_or_hex_int_def exn_bind_eq_Inr split: if_splits)

lemma parse_index_bounds:
  "parse_index_group s = Inr v \<Longrightarrow> v < 2 ^ 32" "parse_index_offset s = Inr v \<Longrightarrow> v < 2 ^ 32"
  "parse_notification_delay s = Inr v \<Longrightarrow> v < 2 ^ 32"
  by (auto simp: parse_index_group_def parse_index_offset_def parse_notification_delay_def
      exn_bind_eq_Inr dest: parse_dec_or_hex_bound split: if_splits)

lemma parse_data_type_known:
  "parse_data_type s = Inr t \<Longrightarrow> t \<noteq> T_UNKNOWN"
  "parse_data_type_autoparam s = Inr t \<Longrightarrow> t \<noteq> T_UNKNOWN"
  by (auto simp: parse_data_type_def parse_data_type_autoparam_def exn_bind_eq_Inr split: if_splits)

section \<open>The documented link format\<close>

text \<open>
  The reference manual: \<open><DATA_TYPE> <OPERATION> P=<PORT> V=<VARIABLE>\<close> for scalars,
  \<open><DATA_TYPE>[] N=<NELEM> <OPERATION> P=<PORT> V=<VARIABLE>\<close> for arrays, \<open>STRING\<close> with \<open>N=\<close>
  but without brackets; digital access has the suffix \<open>_digi\<close>. The first word is autoparam's
  function name, the others are its arguments.
\<close>

datatype link_kind = Link_scalar | Link_digital | Link_array

definition link_function :: "link_kind \<Rightarrow> ADSDataType \<Rightarrow> string" where
  "link_function k t = sm_get [] ads_datatypes_str t
     @ (case k of Link_scalar \<Rightarrow> [] | Link_digital \<Rightarrow> ''_digi''
        | Link_array \<Rightarrow> if t = T_STRING then [] else ''[]'')"

definition link_operation :: "operation \<Rightarrow> string" where
  "link_operation opn = (case opn of Read \<Rightarrow> ''R'' | Write \<Rightarrow> ''W'')"

text \<open>
  The port is a number or one of the names in the manual's table of supported port names, which stand for the
  numbers beside them if the constants of the ADS library have their documented values.
\<close>

definition manual_ports :: "(string \<times> nat) list" where
  "manual_ports = [(''LOGGER'', 100), (''RTIME'', 200), (''TRACE'', 290), (''IO'', 300), (''SPS'', 400), (''NC'', 500),
     (''ISG'', 550), (''PCS'', 600), (''PLC'', 801), (''PLC_RTS1'', 801), (''PLC_RTS2'', 811), (''PLC_RTS3'', 821),
     (''PLC_RTS4'', 831), (''PLC_TC3'', 851)]"

definition ports_documented :: "ads_def \<Rightarrow> bool" where
  "ports_documented d \<longleftrightarrow> AMSPORT_LOGGER d = 100 \<and> AMSPORT_R0_RTIME d = 200 \<and> AMSPORT_R0_TRACE d = 290
     \<and> AMSPORT_R0_IO d = 300 \<and> AMSPORT_R0_SPS d = 400 \<and> AMSPORT_R0_NC d = 500 \<and> AMSPORT_R0_ISG d = 550
     \<and> AMSPORT_R0_PCS d = 600 \<and> AMSPORT_R0_PLC d = 801 \<and> AMSPORT_R0_PLC_RTS1 d = 801
     \<and> AMSPORT_R0_PLC_RTS2 d = 811 \<and> AMSPORT_R0_PLC_RTS3 d = 821 \<and> AMSPORT_R0_PLC_RTS4 d = 831
     \<and> AMSPORT_R0_PLC_TC3 d = 851"

definition link_port :: "ads_def \<Rightarrow> string \<Rightarrow> nat \<Rightarrow> bool" where
  "link_port d s p \<longleftrightarrow> s = dec_str p \<or> (s, p) \<in> set manual_ports \<and> ports_documented d"

lemma link_port_dec [simp]: "link_port d (dec_str p) p"
  by (simp add: link_port_def)

lemma ports_documented_documented [simp]: "ports_documented ads_def_documented"
  by (simp add: ports_documented_def ads_def_documented_def)

lemma ads_port_map_manual:
  assumes "ports_documented d"
  shows "ads_port_map d = sm_of_list manual_ports"
  unfolding ads_port_map_def manual_ports_def
  by (rule arg_cong [where f = sm_of_list]) (use assms in \<open>simp add: ports_documented_def\<close>)

lemma manual_ports_get:
  assumes "(s, p) \<in> set manual_ports"
  shows "sm_get 0 (sm_of_list manual_ports) s = p" and "p \<noteq> 0"
proof -
  have "distinct (map fst manual_ports)" by (simp add: manual_ports_def)
  with assms have "sm_find (sm_of_list manual_ports) s = Some p" by (simp add: sm_find_of_list)
  then show "sm_get 0 (sm_of_list manual_ports) s = p" by (simp add: sm_get_def)
  have "\<forall>q \<in> set manual_ports. snd q \<noteq> 0" by (simp add: manual_ports_def)
  with assms show "p \<noteq> 0" by auto
qed

lemma parse_ads_port_link:
  assumes "link_port d s p" and "p < 2 ^ 16"
  shows "parse_ads_port d (''P='' @ s) = Inr p"
proof (cases "s = dec_str p")
  case True
  with parse_ads_port_dec [of p d] assms(2) show ?thesis by simp
next
  case False
  then have "(s, p) \<in> set manual_ports" "ports_documented d" using assms(1) by (simp_all add: link_port_def)
  then have "sm_get 0 (ads_port_map d) s = p" "p \<noteq> 0"
    by (simp_all add: ads_port_map_manual manual_ports_get)
  then show ?thesis by (simp add: parse_ads_port_def)
qed

definition link_args_at :: "string \<Rightarrow> link_kind \<Rightarrow> ads_address \<Rightarrow> string list" where
  "link_args_at port k a = (if k = Link_array then [''N='' @ dec_str (addr_nelem a)] else [])
     @ [link_operation (addr_operation a), ''P='' @ port, ''V='' @ addr_variable_name a]"

definition link_args :: "link_kind \<Rightarrow> ads_address \<Rightarrow> string list" where
  "link_args k a = link_args_at (dec_str (addr_ads_port a)) k a"

text \<open>The addresses that can be written in this format.\<close>

definition link_ok :: "link_kind \<Rightarrow> ads_address \<Rightarrow> bool" where
  "link_ok k a \<longleftrightarrow> addr_data_type a \<noteq> T_UNKNOWN \<and> addr_variable_name a \<noteq> []
     \<and> addr_ads_port a < 2 ^ 16 \<and> addr_index_group a = 0 \<and> addr_index_offset a = 0
     \<and> addr_notification_delay a = 0 \<and> \<not> addr_name_is_resolved a
     \<and> (addr_data_type a = T_STRING \<longrightarrow> k = Link_array)
     \<and> (if k = Link_array then 1 \<le> addr_nelem a \<and> addr_nelem a < 2 ^ 32 else addr_nelem a = 1)"

lemma parse_operation_link [simp]: "parse_operation (link_operation opn) = Inr opn"
  by (cases opn) (simp_all add: link_operation_def)

lemma parse_link_function:
  assumes "t \<noteq> T_UNKNOWN" and "t = T_STRING \<longrightarrow> k = Link_array"
  shows "parse_data_type_autoparam (link_function k t) = Inr t"
    and "contains (link_function k t) ''[]'' \<or> contains (link_function k t) ''STRING'' \<longleftrightarrow> k = Link_array"
    and "contains (link_function k t) ''_digi'' \<longleftrightarrow> k = Link_digital"
proof -
  have "parse_data_type_autoparam (link_function k t) = Inr t
    \<and> (contains (link_function k t) ''[]'' \<or> contains (link_function k t) ''STRING'' \<longleftrightarrow> k = Link_array)
    \<and> (contains (link_function k t) ''_digi'' \<longleftrightarrow> k = Link_digital)"
    using assms
    by (cases t; cases k)
      (simp_all add: link_function_def parse_data_type_autoparam_def contains_def str_find_def
        sm_get_def ads_datatypes_str_def npos_value)
  then show "parse_data_type_autoparam (link_function k t) = Inr t"
    and "contains (link_function k t) ''[]'' \<or> contains (link_function k t) ''STRING'' \<longleftrightarrow> k = Link_array"
    and "contains (link_function k t) ''_digi'' \<longleftrightarrow> k = Link_digital" by auto
qed

lemma autoparam_link_at:
  assumes "link_ok k a" and "link_port d s (addr_ads_port a)"
  shows "ADSAddress_autoparam d (link_function k (addr_data_type a)) (link_args_at s k a) = Inr a"
proof -
  note ok = assms(1) [unfolded link_ok_def]
  note f = parse_link_function [of "addr_data_type a" k]
  have port [simplified, simp]: "parse_ads_port d (''P='' @ s) = Inr (addr_ads_port a)"
    using ok by (intro parse_ads_port_link [OF assms(2)]) simp
  show ?thesis
  proof (cases k)
    case Link_array
    then show ?thesis using ok f dec_str_chars(1) [of "addr_nelem a"]
      by (simp add: ADSAddress_autoparam_def link_args_at_def finish_nelem_def blank_address_def)
  next
    case Link_scalar
    then show ?thesis using ok f
      by (simp add: ADSAddress_autoparam_def link_args_at_def finish_nelem_def blank_address_def)
  next
    case Link_digital
    then show ?thesis using ok f
      by (simp add: ADSAddress_autoparam_def link_args_at_def finish_nelem_def blank_address_def)
  qed
qed

lemma autoparam_link:
  assumes "link_ok k a"
  shows "ADSAddress_autoparam d (link_function k (addr_data_type a)) (link_args k a) = Inr a"
  unfolding link_args_def by (rule autoparam_link_at [OF assms link_port_dec])

text \<open>
  C36. Round trip of the documented link format: for every data type, access kind, operation, number of
  elements below 2^32, non-empty variable name and port, be it a number below 65536 or any name of the
  manual's table of port names, constructing an address from its own function name and arguments gives
  back that address, field by field: a name stands for the port that the table gives it. (For names the
  constants of the ADS library have their documented values.)
\<close>

theorem autoparam_roundtrip:
  assumes "link_ok k a" and "link_port d s (addr_ads_port a)"
  shows "ADSAddress_autoparam d (link_function k (addr_data_type a)) (link_args_at s k a) = Inr a"
  by (rule autoparam_link_at [OF assms])

definition example_address :: ads_address where
  "example_address = \<lparr> addr_data_type = T_UINT, addr_operation = Write,
     addr_variable_name = ''Main.Waveform'', addr_ads_port = 851, addr_index_group = 0,
     addr_index_offset = 0, addr_notification_delay = 0, addr_nelem = 5,
     addr_name_is_resolved = False \<rparr>"

theorem autoparam_roundtrip_witness:
  "ADSAddress_autoparam ads_def_documented ''UINT[]'' [''N=5'', ''W'', ''P=PLC_TC3'', ''V=Main.Waveform''] = Inr example_address
   \<and> ADSAddress_autoparam ads_def_documented ''UINT[]'' [''N=5'', ''W'', ''P=851'', ''V=Main.Waveform''] = Inr example_address"
proof -
  have ok: "link_ok Link_array example_address" by (simp add: link_ok_def example_address_def)
  have port: "link_port ads_def_documented ''PLC_TC3'' (addr_ads_port example_address)"
    "link_port ads_def_documented (dec_str 851) (addr_ads_port example_address)"
    by (simp_all add: link_port_def manual_ports_def example_address_def)
  have f: "link_function Link_array (addr_data_type example_address) = ''UINT[]''"
    by (simp add: link_function_def example_address_def sm_get_def ads_datatypes_str_def)
  have "link_args_at s Link_array example_address = [''N=5'', ''W'', ''P='' @ s, ''V=Main.Waveform'']" for s
    by (simp add: link_args_at_def example_address_def dec_str_def show_base.simps digit_char_def
        link_operation_def char_of_eq_iff)
  moreover have "dec_str 851 = ''851''" by (simp add: dec_str_def show_base.simps digit_char_def char_of_eq_iff)
  ultimately show ?thesis
    using autoparam_roundtrip [OF ok port(1)] autoparam_roundtrip [OF ok port(2)] f by simp
qed

section \<open>Every address is well formed\<close>

definition wf_address :: "ads_address \<Rightarrow> bool" where
  "wf_address a \<longleftrightarrow> addr_data_type a \<noteq> T_UNKNOWN \<and> 1 \<le> addr_nelem a \<and> addr_nelem a < 2 ^ 32
     \<and> addr_ads_port a < 2 ^ 16 \<and> addr_index_group a < 2 ^ 32 \<and> addr_index_offset a < 2 ^ 32
     \<and> addr_notification_delay a < 2 ^ 32"

lemma finish_nelem_wf:
  "finish_nelem a = Inr b \<Longrightarrow>
     b = a\<lparr>addr_nelem := (if addr_nelem a = 0 then 1 else addr_nelem a)\<rparr>
     \<and> (addr_data_type a = T_STRING \<longrightarrow> addr_nelem a \<noteq> 0)"
  by (auto simp: finish_nelem_def split: if_splits)

lemma autoparam_inv:
  assumes "ADSAddress_autoparam d func arguments = Inr a"
  obtains t opn port name n p q where "parse_data_type_autoparam func = Inr t"
    and "parse_ads_port d p = Inr port" and "parse_variable_name q = Inr name" and "n < 2 ^ 32"
    and "a = (blank_address t opn)\<lparr>addr_nelem := (if n = 0 then 1 else n), addr_ads_port := port,
           addr_variable_name := name\<rparr>"
proof -
  obtain t a1 a2 where t: "parse_data_type_autoparam func = Inr t"
    and a2: "finish_nelem a1 = Inr a2" "a = a2\<lparr>addr_name_is_resolved := False\<rparr>"
    and body: "\<exists>n opn port name p q. n < 2 ^ 32 \<and> parse_ads_port d p = Inr port
      \<and> parse_variable_name q = Inr name
      \<and> a1 = (blank_address t opn)\<lparr>addr_nelem := n, addr_ads_port := port, addr_variable_name := name\<rparr>"
    using assms unfolding ADSAddress_autoparam_def exn_bind_eq_Inr
    by (fastforce simp: exn_bind_eq_Inr dest: parse_nelem_autoparam_bound split: if_splits)
  from body obtain n opn port name p q where "n < 2 ^ 32" "parse_ads_port d p = Inr port"
      "parse_variable_name q = Inr name"
      "a1 = (blank_address t opn)\<lparr>addr_nelem := n, addr_ads_port := port, addr_variable_name := name\<rparr>"
    by blast
  with t a2 show ?thesis
    by (intro that [of t p port q name n opn]) (auto dest!: finish_nelem_wf simp: blank_address_def)
qed

text \<open>
  C37. An address that the autoparam constructor returns is well formed: the data type is known
  (so that its element size is in the table), the number of elements is between 1 and 2^32 - 1, the
  port fits 16 bits, the variable is named and not yet resolved. The theorem holds for every
  function name and argument vector.
\<close>

theorem autoparam_wf:
  assumes "wf_ads_def d" and "ADSAddress_autoparam d func arguments = Inr a"
  shows "wf_address a \<and> addr_variable_name a \<noteq> [] \<and> \<not> addr_name_is_resolved a
    \<and> (\<exists>n. sm_find ads_datatype_sizes (addr_data_type a) = Some n)"
proof -
  obtain t opn port name n p q where "parse_data_type_autoparam func = Inr t"
      "parse_ads_port d p = Inr port" "parse_variable_name q = Inr name" "n < 2 ^ 32"
      "a = (blank_address t opn)\<lparr>addr_nelem := (if n = 0 then 1 else n), addr_ads_port := port,
           addr_variable_name := name\<rparr>"
    using assms(2) by (rule autoparam_inv)
  then have "wf_address a \<and> addr_variable_name a \<noteq> [] \<and> \<not> addr_name_is_resolved a"
    using parse_data_type_known(2) [of func t] parse_ads_port_bound [OF assms(1), of p port]
      parse_variable_name_nonempty [of q name]
    by (simp add: wf_address_def blank_address_def)
  then show ?thesis using datatype_sizes_known [of "addr_data_type a"]
    by (auto simp: wf_address_def)
qed

theorem autoparam_wf_witness:
  "ADSAddress_autoparam ads_def_documented (link_function Link_array T_UINT)
     (link_args Link_array example_address) = Inr example_address
   \<and> wf_address example_address"
proof -
  have "link_ok Link_array example_address" by (simp add: link_ok_def example_address_def)
  then have "ADSAddress_autoparam ads_def_documented (link_function Link_array T_UINT)
      (link_args Link_array example_address) = Inr example_address"
    using autoparam_link [of Link_array example_address] by (simp add: example_address_def)
  then show ?thesis using autoparam_wf [OF wf_ads_def_documented] by blast
qed

text \<open>
  An address that the specifier constructor returns, whatever the tokenizer answers: well
  formed, and marked as resolved exactly when it has an index group or an index offset; so an
  address given by index is resolved from the start and one given by name is not.
\<close>

theorem specifier_wf:
  assumes "wf_ads_def d" and "ADSAddress_specifier tokenize d s = Inr a"
  shows "wf_address a
    \<and> (addr_name_is_resolved a \<longleftrightarrow> addr_index_group a \<noteq> 0 \<or> addr_index_offset a \<noteq> 0)
    \<and> (addr_variable_name a \<noteq> [] \<longrightarrow> \<not> addr_name_is_resolved a)"
proof -
  let ?tokens = "tokenize s"
  obtain t n opn port a1 a2 where t: "parse_data_type (?tokens ! 0) = Inr t"
    and n: "parse_nelem (?tokens ! 0) = Inr n" and port: "parse_ads_port d (?tokens ! 2) = Inr port"
    and a1: "parse_register_specifier
        ((blank_address t opn)\<lparr>addr_nelem := n, addr_ads_port := port\<rparr>) ?tokens = Inr a1
      \<or> parse_variable_specifier
        ((blank_address t opn)\<lparr>addr_nelem := n, addr_ads_port := port\<rparr>) ?tokens = Inr a1"
    and a2: "finish_nelem a1 = Inr a2"
    and a: "a = a2\<lparr>addr_name_is_resolved :=
        (addr_index_group a2 \<noteq> 0 \<or> addr_index_offset a2 \<noteq> 0)\<rparr>"
    using assms(2)
    by (fastforce simp: ADSAddress_specifier_def exn_bind_eq_Inr Let_def split: if_splits)
  have "t \<noteq> T_UNKNOWN" "n < 2 ^ 32" "port < 2 ^ 16"
    using parse_data_type_known(1) [OF t] parse_nelem_bound [OF n]
      parse_ads_port_bound [OF assms(1) port] by auto
  moreover have "addr_index_group a1 < 2 ^ 32 \<and> addr_index_offset a1 < 2 ^ 32
      \<and> addr_notification_delay a1 < 2 ^ 32 \<and> addr_data_type a1 = t \<and> addr_nelem a1 = n
      \<and> addr_ads_port a1 = port
      \<and> (addr_variable_name a1 \<noteq> [] \<longrightarrow> addr_index_group a1 = 0 \<and> addr_index_offset a1 = 0)"
    using a1
    by (auto simp: parse_register_specifier_def parse_variable_specifier_def exn_bind_eq_Inr Let_def
        blank_address_def dest: parse_index_bounds split: if_splits)
  ultimately show ?thesis
    using finish_nelem_wf [OF a2] a by (auto simp: wf_address_def)
qed

theorem specifier_wf_witness:
  "ADSAddress_specifier (\<lambda>_. [''LREAL'', ''R'', ''P='' @ dec_str 851, ''V=x'']) ads_def_documented []
     = Inr ((blank_address T_LREAL Read)\<lparr>addr_nelem := 1, addr_ads_port := 851,
         addr_variable_name := ''x''\<rparr>)
   \<and> wf_address ((blank_address T_LREAL Read)\<lparr>addr_nelem := 1, addr_ads_port := 851,
         addr_variable_name := ''x''\<rparr>)"
proof -
  have "ADSAddress_specifier (\<lambda>_. [''LREAL'', ''R'', ''P='' @ dec_str 851, ''V=x'']) ads_def_documented []
     = Inr ((blank_address T_LREAL Read)\<lparr>addr_nelem := 1, addr_ads_port := 851,
         addr_variable_name := ''x''\<rparr>)"
    by (simp add: ADSAddress_specifier_def parse_data_type_def parse_nelem_def str_find_def
        parse_variable_specifier_def finish_nelem_def blank_address_def npos_value)
  then show ?thesis using specifier_wf [OF wf_ads_def_documented] by blast
qed

section \<open>The number of elements in an address specifier\<close>

lemma find_from_char_in:
  assumes "c \<in> set p" and "c \<notin> set s"
  shows "find_from i s p = npos"
  using assms(2)
proof (induction s arbitrary: i)
  case Nil
  then show ?case using assms(1) by (cases p) auto
next
  case (Cons x s)
  have "\<not> prefix p (x # s)" using assms(1) Cons.prems set_mono_prefix by fastforce
  with Cons show ?case by simp
qed

lemma dec_str_excludes:
  "CHR ''='' \<notin> set (dec_str n)" "CHR ''['' \<notin> set (dec_str n)" "CHR '']'' \<notin> set (dec_str n)"
  using dec_str_chars(2) by (force simp: is_digit_def digit_val_def)+

lemma type_name_chars:
  "CHR ''='' \<notin> set (sm_get [] ads_datatypes_str t)" "CHR ''['' \<notin> set (sm_get [] ads_datatypes_str t)"
  "t \<noteq> T_UNKNOWN \<Longrightarrow> data_type_of_name (sm_get [] ads_datatypes_str t) = t"
  by (cases t; simp add: sm_get_def ads_datatypes_str_def)+

text \<open>
  The number of elements in brackets is not read: for a specifier whose first word is a data
  type followed by a number in brackets, as the comments document it (\<open>LREAL[13]\<close>), the
  constructor returns an address of one element, for every number; and for \<open>STRING\<close> it refuses
  the specifier because the number of elements were missing.
\<close>

theorem specifier_brackets_ignored:
  assumes "t \<noteq> T_UNKNOWN" and "port < 2 ^ 16" and "name \<noteq> []"
    and "tokenize s = [sm_get [] ads_datatypes_str t @ ''['' @ dec_str n @ '']'',
           link_operation opn, ''P='' @ dec_str port, ''V='' @ name]"
    and "n < 2 ^ 32"
  shows "ADSAddress_specifier tokenize d s =
    (if t = T_STRING then Inl (Invalid_argument ''Missing NELEM specifier for STRING datatype'')
     else Inr ((blank_address t opn)\<lparr>addr_nelem := 1, addr_ads_port := port,
            addr_variable_name := name\<rparr>))"
proof -
  let ?tn = "sm_get [] ads_datatypes_str t"
  let ?w = "?tn @ ''['' @ dec_str n @ '']''"
  have find: "str_find ?w ''['' = length ?tn"
    using str_find_char [OF type_name_chars(2)] by simp
  have len: "length ?tn \<noteq> npos"
    by (cases t) (simp_all add: sm_get_def ads_datatypes_str_def npos_value)
  have "CHR ''='' \<notin> set ?w" using type_name_chars(1) dec_str_excludes by simp
  then have "str_find ?w ''N='' = npos"
    unfolding str_find_def by (intro find_from_char_in [of "CHR ''=''"]) auto
  moreover have "length ?w < npos"
    using length_dec_str [OF assms(5)]
    by (cases t) (simp_all add: sm_get_def ads_datatypes_str_def npos_value)
  ultimately have n: "parse_nelem ?w = Inr 0" unfolding parse_nelem_def by simp
  have t: "parse_data_type ?w = Inr t"
    using find len assms(1) type_name_chars(3) [of t] unfolding parse_data_type_def by simp
  show ?thesis
    using assms n t
    by (auto simp: ADSAddress_specifier_def parse_variable_specifier_def finish_nelem_def
        blank_address_def)
qed

theorem specifier_brackets_ignored_witness:
  "ADSAddress_specifier (\<lambda>_. [''LREAL'' @ ''['' @ dec_str 13 @ '']'', ''R'', ''P='' @ dec_str 851, ''V=x''])
     ads_def_documented [] = Inr ((blank_address T_LREAL Read)\<lparr>addr_nelem := 1, addr_ads_port := 851,
            addr_variable_name := ''x''\<rparr>)"
  using specifier_brackets_ignored [of T_LREAL 851 "''x''"
      "\<lambda>_. [''LREAL'' @ ''['' @ dec_str 13 @ '']'', ''R'', ''P='' @ dec_str 851, ''V=x'']"
      "[]" 13 Read ads_def_documented]
  by (simp add: sm_get_def ads_datatypes_str_def link_operation_def)

section \<open>Resolving: the contract the connection relies on\<close>

text \<open>
  Seen from outside an address holds either nothing or the handle under which it was resolved.
  \<open>res\<close> stores a handle if there is none and refuses otherwise; \<open>unres\<close> drops the handle of a
  named address and refuses for an address given by index.
\<close>

datatype resolve_call = Call_resolve nat nat | Call_unresolve

fun handle_step :: "(nat \<times> nat) option \<Rightarrow> resolve_call \<Rightarrow> (nat \<times> nat) option" where
  "handle_step None (Call_resolve g off) = Some (g, off)"
| "handle_step (Some h) (Call_resolve g off) = Some h"
| "handle_step h Call_unresolve = None"

fun apply_call ::
  "(nat \<Rightarrow> nat \<Rightarrow> 'a \<Rightarrow> int \<times> 'a) \<Rightarrow> ('a \<Rightarrow> int \<times> 'a) \<Rightarrow> 'a \<Rightarrow> resolve_call \<Rightarrow> 'a" where
  "apply_call res unres a (Call_resolve g off) = snd (res g off a)"
| "apply_call res unres a Call_unresolve = snd (unres a)"

locale resolvable =
  fixes handle :: "'a \<Rightarrow> (nat \<times> nat) option"
    and named :: "'a \<Rightarrow> bool"
    and res :: "nat \<Rightarrow> nat \<Rightarrow> 'a \<Rightarrow> int \<times> 'a"
    and unres :: "'a \<Rightarrow> int \<times> 'a"
    and refused :: int
  assumes res_handle: "handle (snd (res g off a)) = (case handle a of None \<Rightarrow> Some (g, off) | Some h \<Rightarrow> Some h)"
    and res_code: "fst (res g off a) = (if handle a = None then 0 else refused)"
    and unres_named: "named a \<Longrightarrow> fst (unres a) = 0 \<and> handle (snd (unres a)) = None"
    and unres_unnamed: "\<not> named a \<Longrightarrow> unres a = (refused, a)"
    and named_res: "named (snd (res g off a)) = named a"
    and named_unres: "named (snd (unres a)) = named a"
begin

lemma resolved_after: "handle (snd (res g off a)) \<noteq> None"
  by (simp add: res_handle split: option.split)

lemma unresolve_resolve:
  "named a \<Longrightarrow> res g off (snd (unres a)) = (0, b) \<Longrightarrow> handle b = Some (g, off)"
  using res_handle [of g off "snd (unres a)"] unres_named [of a] by simp

lemma apply_call_handle:
  assumes "named a"
  shows "handle (apply_call res unres a c) = handle_step (handle a) c"
    and "named (apply_call res unres a c)"
  using assms unres_named [OF assms]
  by (cases c; cases "handle a"; simp add: res_handle named_res named_unres)+

lemma run_calls:
  assumes "named a"
  shows "handle (foldl (apply_call res unres) a cs) = foldl handle_step (handle a) cs"
  using assms
proof (induction cs arbitrary: a)
  case Nil
  then show ?case by simp
next
  case (Cons c cs)
  then show ?case by (simp add: apply_call_handle)
qed

end

definition addr_handle :: "ads_address \<Rightarrow> (nat \<times> nat) option" where
  "addr_handle a = (if addr_name_is_resolved a
     then Some (addr_index_group a, addr_index_offset a) else None)"

interpretation ar: resolvable addr_handle "\<lambda>a. addr_variable_name a \<noteq> []" resolve unresolve
    EPICSADS_INV_CALL
  by unfold_locales (auto simp: addr_handle_def resolve_def unresolve_def)

text \<open>
  \<open>resolve\<close> and \<open>unresolve\<close> implement a one-place handle store: after any sequence of calls
  on an address with a variable name, the address is resolved to the handle of the first
  \<open>resolve\<close> since the last \<open>unresolve\<close> (later ones are refused), and unresolved if there was none.
\<close>

theorem address_resolve_refines:
  assumes "addr_variable_name a \<noteq> []"
  shows "addr_handle (foldl (apply_call resolve unresolve) a cs) = foldl handle_step (addr_handle a) cs"
  using assms by (rule ar.run_calls)

theorem address_resolve_refines_witness:
  "addr_handle (foldl (apply_call resolve unresolve) example_address
     [Call_resolve 1 2, Call_unresolve, Call_resolve 3 4, Call_resolve 5 6]) = Some (3, 4)"
proof -
  have "addr_variable_name example_address \<noteq> []" by (simp add: example_address_def)
  from address_resolve_refines [OF this,
      of "[Call_resolve 1 2, Call_unresolve, Call_resolve 3 4, Call_resolve 5 6]"]
  show ?thesis by (simp add: addr_handle_def example_address_def)
qed

end
