(* ===== verification/Ads_Variable.thy ===== *)
theory Ads_Variable
  imports Address_Props
begin

text \<open>
  \<open>Variable.h\<close>, \<open>BufferDataPosition.h\<close> and the part of \<open>Variable.cpp\<close> that needs neither the
  connection nor the buffers: the state of an ADS variable and its simple methods. Buffers are
  named by numbers (\<open>None\<close> is the null pointer); the driver has one connection object, so the
  pointer to it is a flag. The member \<open>value\<close>, which no code uses, is left out.
\<close>

record buffer_position =
  pos_buffer :: "nat option"
  pos_off_result :: nat
  pos_off_data :: nat

definition EMPTY_BUFFER_DATA_POSITION :: buffer_position where
  "EMPTY_BUFFER_DATA_POSITION = \<lparr> pos_buffer = None, pos_off_result = 0, pos_off_data = 0 \<rparr>"

record ads_variable =
  var_addr :: ads_address
  var_conn :: bool                  \<comment> \<open>\<open>conn != nullptr\<close>\<close>
  var_buffer_reader :: buffer_position
  var_elem_size :: nat              \<comment> \<open>\<open>uint32_t\<close>\<close>
  var_array_data_hash :: int
  var_write_readback :: bool
  var_last_written :: "byte list"

text \<open>
  The constructor: \<open>ads_datatype_sizes.at()\<close> raises for an unknown data type. The member
  \<open>array_data_hash\<close> has no initialiser, so its first value is a parameter.
\<close>

definition ADSVariable :: "int \<Rightarrow> ads_address \<Rightarrow> exn + ads_variable" where
  "ADSVariable garbage_hash address =
     exn_bind (sm_at ads_datatype_sizes (addr_data_type address)) (\<lambda>n.
       Inr \<lparr> var_addr = address, var_conn = False,
             var_buffer_reader = EMPTY_BUFFER_DATA_POSITION, var_elem_size = n,
             var_array_data_hash = garbage_hash, var_write_readback = False,
             var_last_written = [] \<rparr>)"

text \<open>\<open>elem_size * nelem\<close> on \<open>uint32_t\<close>.\<close>

definition var_size :: "ads_variable \<Rightarrow> nat" where
  "var_size v = u32 (var_elem_size v * addr_nelem (var_addr v))"

definition set_connection :: "bool \<Rightarrow> ads_variable \<Rightarrow> ads_variable" where
  "set_connection c v = v\<lparr>var_conn := c\<rparr>"

definition set_buffer_reader :: "buffer_position \<Rightarrow> ads_variable \<Rightarrow> ads_variable" where
  "set_buffer_reader br v = v\<lparr>var_buffer_reader := br\<rparr>"

definition set_write_readback :: "bool \<Rightarrow> ads_variable \<Rightarrow> ads_variable" where
  "set_write_readback readback v = v\<lparr>var_write_readback := readback\<rparr>"

definition updateDataHash :: "int \<Rightarrow> ads_variable \<Rightarrow> bool \<times> ads_variable" where
  "updateDataHash new_hash v =
     (new_hash \<noteq> var_array_data_hash v, v\<lparr>var_array_data_hash := new_hash\<rparr>)"

section \<open>Lemmas\<close>

lemma var_size_bound [simp]: "var_size v < 4294967296"
  by (simp add: var_size_def)

text \<open>What setting a position, a handle or readback data does not change.\<close>

lemma var_size_frame [frame_simps]:
  "var_size (v\<lparr>var_buffer_reader := br\<rparr>) = var_size v"
  "var_size (v\<lparr>var_conn := c\<rparr>) = var_size v"
  "var_size (v\<lparr>var_write_readback := w\<rparr>) = var_size v"
  "var_size (v\<lparr>var_last_written := bs\<rparr>) = var_size v"
  "var_size (v\<lparr>var_array_data_hash := i\<rparr>) = var_size v"
  "addr_nelem a = addr_nelem (var_addr v) \<Longrightarrow> var_size (v\<lparr>var_addr := a\<rparr>) = var_size v"
  by (simp_all add: var_size_def)

lemma resolve_nelem [frame_simps]:
  "addr_nelem (snd (resolve g off a)) = addr_nelem a"
  "addr_nelem (snd (unresolve a)) = addr_nelem a"
  "addr_variable_name (snd (resolve g off a)) = addr_variable_name a"
  "addr_variable_name (snd (unresolve a)) = addr_variable_name a"
  "addr_ads_port (snd (resolve g off a)) = addr_ads_port a"
  "addr_ads_port (snd (unresolve a)) = addr_ads_port a"
  "addr_operation (snd (resolve g off a)) = addr_operation a"
  "addr_operation (snd (unresolve a)) = addr_operation a"
  "addr_data_type (snd (resolve g off a)) = addr_data_type a"
  "addr_data_type (snd (unresolve a)) = addr_data_type a"
  by (simp_all add: resolve_def unresolve_def)

text \<open>
  The size without the wrap-around: what the variable occupies on the PLC. The two agree as long
  as the product fits 32 bits.
\<close>

definition plc_bytes :: "ads_variable \<Rightarrow> nat" where
  "plc_bytes v = var_elem_size v * addr_nelem (var_addr v)"

lemma var_size_exact: "plc_bytes v < 2 ^ 32 \<Longrightarrow> var_size v = plc_bytes v"
  by (simp add: var_size_def plc_bytes_def)

lemma ADSVariable_elem_size:
  "ADSVariable h a = Inr v \<Longrightarrow> var_addr v = a \<and> 0 < var_elem_size v \<and> var_elem_size v \<le> 8
     \<and> sm_find ads_datatype_sizes (addr_data_type a) = Some (var_elem_size v)"
  using datatype_sizes_bounds [of "addr_data_type a"]
  by (auto simp: ADSVariable_def exn_bind_eq_Inr sm_at_def split: option.splits)

end
