(* ===== verification/Codec.thy ===== *)
theory Codec
  imports Prelude
begin

text \<open>
  How the values of the C++ types lie in memory: little-endian byte sequences of fixed width, two's
  complement for the signed types (the representation of the platforms the driver supports, which
  is also that of the PLC). The locale \<open>codec\<close> is what the read and write handlers rely on; a
  codec for elements gives one for arrays.
\<close>

fun le_encode :: "nat \<Rightarrow> nat \<Rightarrow> byte list" where
  "le_encode 0 v = []"
| "le_encode (Suc n) v = of_nat (v mod 256) # le_encode n (v div 256)"

fun le_decode :: "byte list \<Rightarrow> nat" where
  "le_decode [] = 0"
| "le_decode (b # bs) = unat b + 256 * le_decode bs"

lemma length_le_encode [simp]: "length (le_encode n v) = n"
  by (induction n arbitrary: v) auto

lemma unat_byte [simp]: "unat (of_nat (v mod 256) :: byte) = v mod 256"
  by (simp add: unat_of_nat)

lemma le_decode_encode: "le_decode (le_encode n v) = v mod 256 ^ n"
proof (induction n arbitrary: v)
  case 0
  then show ?case by simp
next
  case (Suc n)
  have "v mod 256 ^ Suc n = v mod 256 + 256 * (v div 256 mod 256 ^ n)"
    by (simp add: mod_mult2_eq)
  with Suc show ?case by simp
qed

lemma le_decode_bound: "le_decode bs < 256 ^ length bs"
proof (induction bs)
  case Nil
  then show ?case by simp
next
  case (Cons b bs)
  have "unat b < 256" using unsigned_less [of b] by simp
  moreover have "256 * Suc (le_decode bs) \<le> 256 * 256 ^ length bs"
    using Cons by (intro mult_le_mono2) simp
  ultimately have "unat b + 256 * le_decode bs < 256 * 256 ^ length bs" by simp
  then show ?case by simp
qed

lemma le_encode_decode: "length bs = n \<Longrightarrow> le_encode n (le_decode bs) = bs"
proof (induction bs arbitrary: n)
  case Nil
  then show ?case by simp
next
  case (Cons b bs)
  have b: "unat b < 256" using unsigned_less [of b] by simp
  have "(unat b + 256 * le_decode bs) mod 256 = unat b" using b by simp
  moreover have "(unat b + 256 * le_decode bs) div 256 = le_decode bs" using b by simp
  ultimately show ?case using Cons by auto
qed

text \<open>A shorter encoding is a prefix of a longer one: how a narrow store truncates.\<close>

lemma take_le_encode: "m \<le> n \<Longrightarrow> take m (le_encode n v) = le_encode m v"
proof (induction n arbitrary: m v)
  case 0
  then show ?case by simp
next
  case (Suc n)
  then show ?case by (cases m) auto
qed

lemma le_encode_mod: "le_encode n (v mod 256 ^ n) = le_encode n v"
  using le_encode_decode [of "le_encode n v" n] by (simp add: le_decode_encode)

section \<open>Integers\<close>

definition int_encode :: "nat \<Rightarrow> int \<Rightarrow> byte list" where
  "int_encode n v = le_encode n (nat (v mod 256 ^ n))"

definition uint_decode :: "byte list \<Rightarrow> int" where
  "uint_decode bs = int (le_decode bs)"

definition sint_decode :: "byte list \<Rightarrow> int" where
  "sint_decode bs = (let v = int (le_decode bs); m = 256 ^ length bs in
     if 2 * v < m then v else v - m)"

definition uint_range :: "nat \<Rightarrow> int \<Rightarrow> bool" where
  "uint_range n v \<longleftrightarrow> 0 \<le> v \<and> v < 256 ^ n"

definition sint_range :: "nat \<Rightarrow> int \<Rightarrow> bool" where
  "sint_range n v \<longleftrightarrow> - (256 ^ n) \<le> 2 * v \<and> 2 * v < 256 ^ n"

lemma length_int_encode [simp]: "length (int_encode n v) = n"
  by (simp add: int_encode_def)

lemma int_decode_encode: "int (le_decode (int_encode n v)) = v mod 256 ^ n"
proof -
  have "le_decode (int_encode n v) = nat (v mod 256 ^ n) mod 256 ^ n"
    by (simp add: int_encode_def le_decode_encode)
  moreover have "nat (v mod 256 ^ n) < 256 ^ n"
    by (simp add: nat_less_iff)
  ultimately have "le_decode (int_encode n v) = nat (v mod 256 ^ n)" by simp
  then show ?thesis by simp
qed

lemma uint_decode_encode: "uint_range n v \<Longrightarrow> uint_decode (int_encode n v) = v"
  by (simp add: uint_decode_def int_decode_encode uint_range_def)

lemma sint_decode_encode:
  assumes "sint_range n v"
  shows "sint_decode (int_encode n v) = v"
proof (cases "0 \<le> v")
  case True
  with assms have "v mod 256 ^ n = v" unfolding sint_range_def by (intro mod_pos_pos_trivial) auto
  with assms True show ?thesis
    by (simp add: sint_decode_def int_decode_encode sint_range_def Let_def)
next
  case False
  let ?m = "256 ^ n :: int"
  have "v mod ?m = (v + ?m) mod ?m" by simp
  also have "\<dots> = v + ?m" using assms False unfolding sint_range_def
    by (intro mod_pos_pos_trivial) auto
  finally have "v mod ?m = v + ?m" .
  with assms False show ?thesis
    by (simp add: sint_decode_def int_decode_encode sint_range_def Let_def)
qed

lemma take_int_encode: "m \<le> n \<Longrightarrow> take m (int_encode n v) = int_encode m v"
proof -
  assume m: "m \<le> n"
  have "256 ^ m dvd (256 ^ n :: int)" using m by (rule le_imp_power_dvd)
  then have "v mod 256 ^ n mod 256 ^ m = v mod 256 ^ m" by (rule mod_mod_cancel)
  moreover have "nat (v mod 256 ^ n) mod 256 ^ m = nat (v mod 256 ^ n mod 256 ^ m)"
    by (simp add: nat_mod_distrib nat_power_eq)
  ultimately have "le_encode m (nat (v mod 256 ^ n)) = le_encode m (nat (v mod 256 ^ m))"
    using le_encode_mod [of m "nat (v mod 256 ^ n)"] by simp
  with m show ?thesis by (simp add: int_encode_def take_le_encode)
qed

section \<open>The interface\<close>

text \<open>\<open>count\<close> elements of \<open>width\<close> bytes each, read one after the other.\<close>

fun dec_chunks :: "nat \<Rightarrow> (byte list \<Rightarrow> 'a) \<Rightarrow> nat \<Rightarrow> byte list \<Rightarrow> 'a list" where
  "dec_chunks width dec 0 bs = []"
| "dec_chunks width dec (Suc n) bs = dec (take width bs) # dec_chunks width dec n (drop width bs)"

lemma length_dec_chunks [simp]: "length (dec_chunks width dec n bs) = n"
  by (induction n arbitrary: bs) auto

locale codec =
  fixes width :: nat
    and enc :: "'a \<Rightarrow> byte list"
    and dec :: "byte list \<Rightarrow> 'a"
    and ok :: "'a \<Rightarrow> bool"
  assumes length_enc: "ok v \<Longrightarrow> length (enc v) = width"
    and dec_enc: "ok v \<Longrightarrow> dec (enc v) = v"
begin

lemma enc_inject: "ok v \<Longrightarrow> ok w \<Longrightarrow> enc v = enc w \<Longrightarrow> v = w"
  using dec_enc by metis

lemma length_enc_array: "list_all ok vs \<Longrightarrow> length (concat (map enc vs)) = width * length vs"
  by (induction vs) (auto simp: length_enc)

lemma dec_enc_array:
  "list_all ok vs \<Longrightarrow> length vs = n \<Longrightarrow> dec_chunks width dec n (concat (map enc vs)) = vs"
  by (induction vs arbitrary: n) (auto simp: length_enc dec_enc)

end

text \<open>An array of \<open>count\<close> elements is again a codec.\<close>

locale array_codec = codec +
  fixes count :: nat

sublocale array_codec \<subseteq> arr: codec "width * count" "\<lambda>vs. concat (map enc vs)"
    "dec_chunks width dec count" "\<lambda>vs. length vs = count \<and> list_all ok vs"
  by unfold_locales (auto simp: length_enc_array dec_enc_array)

section \<open>The integer types of the PLC and of EPICS\<close>

text \<open>
  \<open>epicsInt8\<close> to \<open>epicsUInt64\<close>; the floating-point types are opaque bit patterns of 4 and 8
  bytes, read as unsigned.
\<close>

datatype ctype = I8 | U8 | I16 | U16 | I32 | U32 | I64 | U64 | F32 | F64

fun ctype_size :: "ctype \<Rightarrow> nat" where
  "ctype_size I8 = 1" | "ctype_size U8 = 1"
| "ctype_size I16 = 2" | "ctype_size U16 = 2"
| "ctype_size I32 = 4" | "ctype_size U32 = 4" | "ctype_size F32 = 4"
| "ctype_size I64 = 8" | "ctype_size U64 = 8" | "ctype_size F64 = 8"

definition ctype_signed :: "ctype \<Rightarrow> bool" where
  "ctype_signed c \<longleftrightarrow> c \<in> {I8, I16, I32, I64}"

text \<open>Storing a value in an object of the type, and reading the object's bytes as a value.\<close>

definition ctype_encode :: "ctype \<Rightarrow> int \<Rightarrow> byte list" where
  "ctype_encode c v = int_encode (ctype_size c) v"

definition ctype_decode :: "ctype \<Rightarrow> byte list \<Rightarrow> int" where
  "ctype_decode c bs = (if ctype_signed c then sint_decode bs else uint_decode bs)"

definition ctype_range :: "ctype \<Rightarrow> int \<Rightarrow> bool" where
  "ctype_range c v \<longleftrightarrow>
     (if ctype_signed c then sint_range (ctype_size c) v else uint_range (ctype_size c) v)"

text \<open>Conversion of an integer value to the type: the value in range with the same residue.\<close>

definition ctype_convert :: "ctype \<Rightarrow> int \<Rightarrow> int" where
  "ctype_convert c v = ctype_decode c (ctype_encode c v)"

lemma length_ctype_encode [simp]: "length (ctype_encode c v) = ctype_size c"
  by (simp add: ctype_encode_def)

lemma ctype_size_pos [simp]: "0 < ctype_size c"
  by (cases c) auto

interpretation ct: array_codec "ctype_size c" "ctype_encode c" "ctype_decode c" "ctype_range c" n for c n
  by unfold_locales
    (auto simp: ctype_encode_def ctype_decode_def ctype_range_def uint_decode_encode
      sint_decode_encode)

lemma ctype_convert_id: "ctype_range c v \<Longrightarrow> ctype_convert c v = v"
  by (simp add: ctype_convert_def ct.dec_enc)

lemma le_decode_int_bound: "int (le_decode bs) < 256 ^ length bs"
  using le_decode_bound [of bs] by (metis of_nat_less_iff of_nat_power of_nat_numeral)

lemma sint_decode_range: "sint_range (length bs) (sint_decode bs)"
proof -
  have "sint_range n (if 2 * v < m then v else v - m)"
    if "0 \<le> v" "v < m" "m = 256 ^ n" for v m :: int and n
    using that by (simp add: sint_range_def)
  from this [OF _ le_decode_int_bound refl] show ?thesis
    by (simp add: sint_decode_def Let_def)
qed

lemma ctype_decode_range: "length bs = ctype_size c \<Longrightarrow> ctype_range c (ctype_decode c bs)"
  using le_decode_int_bound [of bs] sint_decode_range [of bs]
  by (simp add: ctype_decode_def ctype_range_def uint_decode_def uint_range_def)

text \<open>Writing the low bytes of a wider integer is a conversion of its value.\<close>

lemma ctype_decode_take:
  "ctype_size c \<le> n \<Longrightarrow> ctype_decode c (take (ctype_size c) (int_encode n v)) = ctype_convert c v"
  by (simp add: ctype_convert_def ctype_encode_def take_int_encode)

end
