(* ===== verification/Sum_Read_Buffer.thy ===== *)
theory Sum_Read_Buffer
  imports Ads_Variable Codec
begin

text \<open>
  \<open>SumReadBuffer.h\<close> and \<open>SumReadBuffer.cpp\<close>: the buffer into which an ADS sum-read stores the
  return codes and the data of the variables that were added to it. A null pointer is \<open>None\<close>; an
  operation that may run into undefined behaviour has an \<open>option\<close> result. Allocations that can
  fail and whose failure the code handles (\<open>push_back\<close> and \<open>calloc\<close>, here and in the sum-read
  request) ask the parameter \<open>mem\<close>; those whose \<open>std::bad_alloc\<close> is caught nowhere are taken to succeed. The reader/writer lock is modelled in
  \<open>RW_Lock\<close>; the operations here are its critical sections.
\<close>

datatype buffer_state = Buf_Valid | Buf_Invalid

record sum_read_buffer =
  buf_variables :: "nat list"       \<comment> \<open>the variables added, by number\<close>
  buf_max_nvariables :: nat         \<comment> \<open>\<open>uint16_t\<close>\<close>
  buf_soft_limit :: nat             \<comment> \<open>\<open>max_data_size_soft_limit\<close>, \<open>size_t\<close>\<close>
  buf_next_result_offset :: nat     \<comment> \<open>\<open>uint16_t\<close>\<close>
  buf_next_data_offset :: nat       \<comment> \<open>\<open>size_t\<close>\<close>
  buf_buffer_size :: nat            \<comment> \<open>\<open>size_t\<close>\<close>
  buf_buffer :: "byte list option"
  buf_initialized :: bool
  buf_prev_data :: "byte list option"
  buf_state :: buffer_state

datatype alloc_site =
    Push_variable nat nat | Calloc_buffer nat | Calloc_prev nat
  | Push_request nat nat | Push_chunk_variable nat nat

definition result_size :: nat where "result_size = 4"

section \<open>Constructors\<close>

definition SumReadBuffer :: "nat \<Rightarrow> exn + sum_read_buffer" where
  "SumReadBuffer max_nvariables =
     (if max_nvariables = 0
      then Inl (Invalid_argument ''max_nvariables must be larger that zero'')
      else Inr \<lparr> buf_variables = [], buf_max_nvariables = max_nvariables,
                 buf_soft_limit = 1000000, buf_next_result_offset = 0,
                 buf_next_data_offset = 0, buf_buffer_size = 0, buf_buffer = None,
                 buf_initialized = False, buf_prev_data = None, buf_state = Buf_Invalid \<rparr>)"

definition SumReadBuffer_limit :: "nat \<Rightarrow> nat \<Rightarrow> exn + sum_read_buffer" where
  "SumReadBuffer_limit max_nvariables data_size_soft_limit =
     exn_bind (SumReadBuffer max_nvariables) (\<lambda>b.
       if data_size_soft_limit = 0
       then Inl (Invalid_argument ''data_size_soft_limit must be larger that zero'')
       else Inr (b\<lparr>buf_soft_limit := data_size_soft_limit\<rparr>))"

section \<open>Sizes\<close>

definition get_num_variables :: "sum_read_buffer \<Rightarrow> nat" where
  "get_num_variables b = u32 (length (buf_variables b))"

definition results_size :: "sum_read_buffer \<Rightarrow> nat" where
  "results_size b = u64 (get_num_variables b * result_size)"

definition data_size :: "sum_read_buffer \<Rightarrow> nat" where
  "data_size b = sub64 (buf_buffer_size b) (results_size b)"

definition start_of_data_offset :: "sum_read_buffer \<Rightarrow> nat" where
  "start_of_data_offset b = results_size b"

definition at_capacity :: "sum_read_buffer \<Rightarrow> bool" where
  "at_capacity b \<longleftrightarrow> data_size b \<ge> buf_soft_limit b
     \<or> buf_next_result_offset b \<ge> buf_max_nvariables b"

section \<open>Operations\<close>

text \<open>\<open>this\<close> is the number of the buffer, \<open>vid\<close> that of the variable \<open>v\<close>.\<close>

definition buf_add_variable ::
  "(alloc_site \<Rightarrow> bool) \<Rightarrow> nat \<Rightarrow> nat \<Rightarrow> ads_variable \<Rightarrow> sum_read_buffer
     \<Rightarrow> int \<times> ads_variable \<times> sum_read_buffer" where
  "buf_add_variable mem this vid v b =
     (if buf_initialized b then (EPICSADS_NOT_INITIALIZED, v, b)
      else if get_num_variables b = buf_max_nvariables b then (EPICSADS_LIMIT, v, b)
      else if at_capacity b then (EPICSADS_LIMIT, v, b)
      else
        let new_size = u64 (buf_buffer_size b + var_size v + result_size) in
        if new_size < buf_buffer_size b then (EPICSADS_OVERFLOW, v, b)
        else if \<not> mem (Push_variable this vid) then (EPICSADS_ERROR, v, b)
        else
          (0,
           set_buffer_reader \<lparr> pos_buffer = Some this, pos_off_result = buf_next_result_offset b,
             pos_off_data = buf_next_data_offset b \<rparr> v,
           b\<lparr>buf_variables := buf_variables b @ [vid],
             buf_next_result_offset := u16 (buf_next_result_offset b + 1),
             buf_next_data_offset := u64 (buf_next_data_offset b + var_size v),
             buf_buffer_size := new_size\<rparr>))"

text \<open>
  \<open>result\<close> and \<open>data\<close> are the objects that the out-parameters point to (\<open>None\<close>: null pointer);
  the last component are their contents afterwards.
\<close>

definition read_data ::
  "nat \<Rightarrow> nat \<Rightarrow> nat \<Rightarrow> nat option \<Rightarrow> byte list option \<Rightarrow> sum_read_buffer
     \<Rightarrow> (int \<times> nat option \<times> byte list option) option" where
  "read_data offset_result offset_data nbytes result data b =
     (case buf_buffer b of
        None \<Rightarrow> Some (EPICSADS_NOT_INITIALIZED, result, data)
      | Some buffer \<Rightarrow>
          (case data of
             None \<Rightarrow> Some (EPICSADS_INV_PARAM, result, data)
           | Some dst \<Rightarrow>
               if result = None then Some (EPICSADS_INV_PARAM, result, data)
               else if u16 offset_result \<ge> buf_next_result_offset b
                 then Some (EPICSADS_OUT_OF_RANGE, result, data)
               else if u64 (offset_data + nbytes) > buf_next_data_offset b
                 then Some (EPICSADS_OUT_OF_RANGE, result, data)
               else
                 Option.bind (mem_read buffer (4 * u16 offset_result) 4) (\<lambda>rc.
                 Option.bind (mem_read buffer (start_of_data_offset b + offset_data) nbytes) (\<lambda>d.
                 Option.bind (mem_write dst d) (\<lambda>dst'.
                 Some (0, Some (le_decode rc), Some dst'))))))"

definition initialize_buffer ::
  "(alloc_site \<Rightarrow> bool) \<Rightarrow> nat \<Rightarrow> sum_read_buffer \<Rightarrow> int \<times> sum_read_buffer" where
  "initialize_buffer mem this b =
     (if get_num_variables b = 0 then (EPICSADS_NO_DATA, b)
      else if buf_initialized b then (EPICSADS_INV_CALL, b)
      else if \<not> mem (Calloc_buffer this) then (EPICSADS_ERROR, b\<lparr>buf_buffer := None\<rparr>)
      else if \<not> mem (Calloc_prev this)
        then (EPICSADS_ERROR, b\<lparr>buf_buffer := None, buf_prev_data := None\<rparr>)
      else (0, b\<lparr>buf_buffer := Some (replicate (buf_buffer_size b) 0),
                 buf_prev_data := Some (replicate (buf_buffer_size b) 0),
                 buf_initialized := True\<rparr>))"

definition save_buffer :: "sum_read_buffer \<Rightarrow> sum_read_buffer option" where
  "save_buffer b =
     (case (buf_prev_data b, buf_buffer b) of
        (None, _) \<Rightarrow> Some b
      | (Some prev, Some buffer) \<Rightarrow>
          Option.bind (mem_read buffer 0 (buf_buffer_size b)) (\<lambda>d.
          Option.bind (mem_write prev d) (\<lambda>prev'. Some (b\<lparr>buf_prev_data := Some prev'\<rparr>)))
      | (Some prev, None) \<Rightarrow> None)"

text \<open>An ADS call that may store \<open>n\<close> bytes into the buffer, through \<open>get_buffer()\<close>.\<close>

definition store_response :: "nat \<Rightarrow> byte list \<Rightarrow> sum_read_buffer \<Rightarrow> sum_read_buffer" where
  "store_response n resp b = b\<lparr>buf_buffer := map_option (fill n resp) (buf_buffer b)\<rparr>"

section \<open>Invariant\<close>

text \<open>
  \<open>sz\<close> gives the sizes of the variables. The offsets count exactly what was added, so that slot
  \<open>i\<close> holds the return code at \<open>4 * i\<close> and the data after the codes and the data of the slots
  before it; both allocated blocks have the size that was computed; nothing has wrapped around.
\<close>

definition buf_inv :: "(nat \<Rightarrow> nat) \<Rightarrow> sum_read_buffer \<Rightarrow> bool" where
  "buf_inv sz b \<longleftrightarrow>
     buf_next_result_offset b = length (buf_variables b)
     \<and> length (buf_variables b) \<le> buf_max_nvariables b
     \<and> 0 < buf_max_nvariables b \<and> buf_max_nvariables b < 2 ^ 16
     \<and> buf_next_data_offset b = sum_list (map sz (buf_variables b))
     \<and> buf_buffer_size b = 4 * length (buf_variables b) + buf_next_data_offset b
     \<and> buf_buffer_size b < 2 ^ 64
     \<and> (buf_initialized b \<longleftrightarrow> buf_buffer b \<noteq> None)
     \<and> (\<forall>bs. buf_buffer b = Some bs \<longrightarrow> length bs = buf_buffer_size b)
     \<and> (buf_prev_data b = None \<longleftrightarrow> buf_buffer b = None)
     \<and> (\<forall>bs. buf_prev_data b = Some bs \<longrightarrow> length bs = buf_buffer_size b)"

text \<open>Where the data of slot \<open>i\<close> start, counted from the start of the data section.\<close>

definition slot_offset :: "(nat \<Rightarrow> nat) \<Rightarrow> sum_read_buffer \<Rightarrow> nat \<Rightarrow> nat" where
  "slot_offset sz b i = sum_list (map sz (take i (buf_variables b)))"

lemma buf_inv_num [simp]: "buf_inv sz b \<Longrightarrow> get_num_variables b = length (buf_variables b)"
  by (simp add: buf_inv_def get_num_variables_def)

lemma buf_inv_results [simp]: "buf_inv sz b \<Longrightarrow> results_size b = 4 * length (buf_variables b)"
  by (simp add: results_size_def result_size_def) (simp add: buf_inv_def)

lemma buf_inv_data_size [simp]: "buf_inv sz b \<Longrightarrow> data_size b = buf_next_data_offset b"
  by (simp add: data_size_def) (simp add: buf_inv_def)

lemma buf_inv_new: "SumReadBuffer n = Inr b \<Longrightarrow> n < 2 ^ 16 \<Longrightarrow> buf_inv sz b"
  by (auto simp: SumReadBuffer_def buf_inv_def split: if_splits)

end
