(* ===== verification/Buffer_Props.thy ===== *)
theory Buffer_Props
  imports Sum_Read_Buffer
begin

text \<open>
  What \<open>SumReadBuffer\<close> guarantees: every operation keeps the layout invariant, adding a variable
  gives it the next slot and moves no other, reading stays inside the allocated block, and after a
  sum-read every slot yields exactly the return code and the data that the PLC answered for it.
\<close>

section \<open>Adding variables\<close>

text \<open>The overflow check of \<open>add_variable\<close> detects every wrap-around of the new size.\<close>

lemma wrap_detected:
  assumes "bs < 2 ^ 64" and "n < 2 ^ 64" and "bs \<le> u64 (bs + n)"
  shows "u64 (bs + n) = bs + n"
proof (rule ccontr)
  assume "u64 (bs + n) \<noteq> bs + n"
  then have "2 ^ 64 \<le> bs + n" by (metis not_less u64_def mod_less)
  then have "u64 (bs + n) = bs + n - 2 ^ 64"
    using assms(1,2) unfolding u64_def by (simp add: le_mod_geq)
  with assms \<open>2 ^ 64 \<le> bs + n\<close> show False by linarith
qed

lemma buf_add_ok:
  assumes inv: "buf_inv sz b" and sz: "sz vid = var_size v"
    and add: "buf_add_variable mem this vid v b = (0, v', b')"
  shows "buf_variables b' = buf_variables b @ [vid]"
    and "buf_inv sz b'"
    and "v' = set_buffer_reader \<lparr> pos_buffer = Some this, pos_off_result = length (buf_variables b),
           pos_off_data = sum_list (map sz (buf_variables b)) \<rparr> v"
    and "\<not> at_capacity b" and "\<not> buf_initialized b" and "\<not> buf_initialized b'"
    and "buf_state b' = buf_state b"
proof -
  let ?new = "u64 (buf_buffer_size b + var_size v + result_size)"
  have guards: "\<not> buf_initialized b" "\<not> at_capacity b" "buf_buffer_size b \<le> ?new"
    and v': "v' = set_buffer_reader \<lparr> pos_buffer = Some this,
        pos_off_result = buf_next_result_offset b, pos_off_data = buf_next_data_offset b \<rparr> v"
    and b': "b' = b\<lparr>buf_variables := buf_variables b @ [vid],
        buf_next_result_offset := u16 (buf_next_result_offset b + 1),
        buf_next_data_offset := u64 (buf_next_data_offset b + var_size v),
        buf_buffer_size := ?new\<rparr>"
    using add by (auto simp: buf_add_variable_def Let_def split: if_splits)
  have vs: "var_size v < 4294967296" by simp
  have new: "?new = buf_buffer_size b + (var_size v + result_size)"
    using wrap_detected [of "buf_buffer_size b" "var_size v + result_size"] guards(3) inv vs
    by (simp add: buf_inv_def result_size_def add.assoc)
  have lt: "buf_buffer_size b + (var_size v + result_size) < 2 ^ 64"
    using new u64_bound [of "buf_buffer_size b + var_size v + result_size"] by simp
  have room: "buf_next_result_offset b < buf_max_nvariables b"
    using guards(2) by (simp add: at_capacity_def)
  have "u64 (buf_next_data_offset b + var_size v) = buf_next_data_offset b + var_size v"
    using inv lt by (intro u64_id) (simp add: buf_inv_def)
  moreover have "u16 (buf_next_result_offset b + 1) = buf_next_result_offset b + 1"
    using inv room by (intro u16_id) (simp add: buf_inv_def)
  ultimately show "buf_inv sz b'"
    using inv guards(1) room new lt sz
    by (simp add: buf_inv_def b' result_size_def)
  show "buf_variables b' = buf_variables b @ [vid]" "\<not> buf_initialized b'" "buf_state b' = buf_state b"
    using guards by (simp_all add: b')
  show "v' = set_buffer_reader \<lparr> pos_buffer = Some this, pos_off_result = length (buf_variables b),
           pos_off_data = sum_list (map sz (buf_variables b)) \<rparr> v"
    using inv by (simp add: v' buf_inv_def)
qed (use add in \<open>auto simp: buf_add_variable_def split: if_splits\<close>)

lemma buf_add_refused:
  "buf_add_variable mem this vid v b = (rc, v', b') \<Longrightarrow> rc \<noteq> 0 \<Longrightarrow> v' = v \<and> b' = b"
  by (auto simp: buf_add_variable_def Let_def split: if_splits)

text \<open>A buffer that is not at capacity takes a variable whenever memory suffices.\<close>

lemma buf_add_succeeds:
  assumes "buf_inv sz b" and "\<not> at_capacity b" and "\<not> buf_initialized b"
    and "mem (Push_variable this vid)" and "buf_buffer_size b + 4294967300 \<le> 2 ^ 64"
  shows "fst (buf_add_variable mem this vid v b) = 0"
proof -
  have vs: "var_size v < 4294967296" by simp
  have "u64 (buf_buffer_size b + var_size v + result_size)
      = buf_buffer_size b + var_size v + result_size"
    using assms(5) [simplified] vs unfolding result_size_def by (intro u64_id) linarith
  moreover have "get_num_variables b \<noteq> buf_max_nvariables b"
    using assms(1,2) by (auto simp: at_capacity_def buf_inv_def)
  ultimately show ?thesis using assms by (simp add: buf_add_variable_def Let_def)
qed

text \<open>
  C27. Adding a variable to a sum-read buffer: if it is accepted, the variable gets the next free
  slot, directly behind the return codes and the data of all the variables added before it, the
  invariant holds afterwards (in particular no offset and no size has wrapped around), and every
  slot given out before keeps its place; if it is refused, with any error code, neither the buffer
  nor the variable has changed.
\<close>

theorem buf_add_variable_correct:
  assumes "buf_inv sz b" and "sz vid = var_size v"
    and "buf_add_variable mem this vid v b = (rc, v', b')"
  shows "buf_inv sz b'
    \<and> (rc = 0 \<longrightarrow> buf_variables b' = buf_variables b @ [vid]
        \<and> var_buffer_reader v' = \<lparr> pos_buffer = Some this, pos_off_result = length (buf_variables b),
             pos_off_data = slot_offset sz b' (length (buf_variables b)) \<rparr>
        \<and> (\<forall>i \<le> length (buf_variables b). slot_offset sz b' i = slot_offset sz b i))
    \<and> (rc \<noteq> 0 \<longrightarrow> b' = b \<and> v' = v)"
proof (cases "rc = 0")
  case True
  note ok = buf_add_ok [OF assms(1,2) assms(3) [unfolded True]]
  show ?thesis using ok True by (simp add: slot_offset_def set_buffer_reader_def)
next
  case False
  with buf_add_refused [OF assms(3)] assms(1) show ?thesis by simp
qed

definition example_buffer :: sum_read_buffer where
  "example_buffer = \<lparr> buf_variables = [], buf_max_nvariables = 500, buf_soft_limit = 1000000,
     buf_next_result_offset = 0, buf_next_data_offset = 0, buf_buffer_size = 0, buf_buffer = None,
     buf_initialized = False, buf_prev_data = None, buf_state = Buf_Invalid \<rparr>"

definition example_variable :: ads_variable where
  "example_variable = \<lparr> var_addr = example_address, var_conn = True,
     var_buffer_reader = EMPTY_BUFFER_DATA_POSITION, var_elem_size = 2, var_array_data_hash = 0,
     var_write_readback = False, var_last_written = [] \<rparr>"

lemma example_variable_size [simp]: "var_size example_variable = 10"
  by (simp add: var_size_def example_variable_def example_address_def)

lemma example_buffer_inv: "buf_inv sz example_buffer"
  by (simp add: buf_inv_def example_buffer_def)

theorem buf_add_variable_correct_witness:
  "buf_inv (\<lambda>_. 10) (snd (snd (buf_add_variable (\<lambda>_. True) 0 7 example_variable example_buffer)))"
  using buf_add_variable_correct [of "\<lambda>_. 10" example_buffer 7 example_variable "\<lambda>_. True" 0
      "fst (buf_add_variable (\<lambda>_. True) 0 7 example_variable example_buffer)"
      "fst (snd (buf_add_variable (\<lambda>_. True) 0 7 example_variable example_buffer))"
      "snd (snd (buf_add_variable (\<lambda>_. True) 0 7 example_variable example_buffer))",
      OF example_buffer_inv]
  by simp

section \<open>The other operations keep the invariant\<close>

lemma initialize_buffer_inv [inv_intros]:
  assumes "buf_inv sz b"
  shows "buf_inv sz (snd (initialize_buffer mem this b))"
  using assms by (auto simp: initialize_buffer_def buf_inv_def)

lemma initialize_buffer_ok:
  "initialize_buffer mem this b = (0, b') \<Longrightarrow>
     buf_initialized b' \<and> buf_variables b' = buf_variables b \<and> buf_state b' = buf_state b
     \<and> buf_buffer b' = Some (replicate (buf_buffer_size b) 0)
     \<and> buf_buffer_size b' = buf_buffer_size b"
  by (auto simp: initialize_buffer_def split: if_splits)

lemma initialize_buffer_frame [frame_simps]:
  "buf_variables (snd (initialize_buffer mem this b)) = buf_variables b"
  "buf_state (snd (initialize_buffer mem this b)) = buf_state b"
  by (simp_all add: initialize_buffer_def)

lemma store_response_inv [inv_intros]: "buf_inv sz b \<Longrightarrow> buf_inv sz (store_response n resp b)"
  by (auto simp: store_response_def buf_inv_def)

lemma store_response_frame [frame_simps]:
  "buf_variables (store_response n resp b) = buf_variables b"
  "buf_initialized (store_response n resp b) = buf_initialized b"
  "buf_state (store_response n resp b) = buf_state b"
  "buf_buffer_size (store_response n resp b) = buf_buffer_size b"
  by (simp_all add: store_response_def)

lemma save_buffer_ok:
  assumes "buf_inv sz b"
  shows "\<exists>b'. save_buffer b = Some b' \<and> buf_inv sz b' \<and> buf_buffer b' = buf_buffer b
    \<and> buf_variables b' = buf_variables b \<and> buf_state b' = buf_state b
    \<and> buf_initialized b' = buf_initialized b \<and> buf_buffer_size b' = buf_buffer_size b
    \<and> (buf_initialized b \<longrightarrow> buf_prev_data b' = buf_buffer b)"
proof (cases "buf_buffer b")
  case None
  then show ?thesis using assms by (auto simp: save_buffer_def buf_inv_def split: option.splits)
next
  case (Some bs)
  then obtain prev where "buf_prev_data b = Some prev" "length prev = buf_buffer_size b"
      "length bs = buf_buffer_size b"
    using assms by (auto simp: buf_inv_def)
  with Some assms show ?thesis by (auto simp: save_buffer_def buf_inv_def)
qed

section \<open>Reading a slot\<close>

lemma read_data_ok:
  assumes inv: "buf_inv sz b" and buf: "buf_buffer b = Some mem"
    and i: "i < length (buf_variables b)" and n: "n \<le> sz (buf_variables b ! i)"
    and dst: "n \<le> length dst"
  shows "read_data i (slot_offset sz b i) n (Some r) (Some dst) b =
    Some (0, Some (le_decode (take 4 (drop (4 * i) mem))),
      Some (take n (drop (4 * length (buf_variables b) + slot_offset sz b i) mem) @ drop n dst))"
proof -
  let ?vs = "buf_variables b"
  have "slot_offset sz b i + sz (?vs ! i) \<le> sum_list (map sz ?vs)"
    unfolding slot_offset_def using i by (rule sum_list_take_Suc_le)
  then have off: "slot_offset sz b i + n \<le> buf_next_data_offset b"
    using inv n by (simp add: buf_inv_def)
  have len: "length mem = 4 * length ?vs + buf_next_data_offset b"
    "length mem < 2 ^ 64" "i < buf_next_result_offset b" "length ?vs < 2 ^ 16"
    using inv buf i by (auto simp: buf_inv_def)
  have u: "u16 i = i" "u64 (slot_offset sz b i + n) = slot_offset sz b i + n"
    using len off i by (simp_all)
  have r: "mem_read mem (4 * i) 4 = Some (take 4 (drop (4 * i) mem))"
    using len i by (intro mem_read_Some) simp
  have d: "mem_read mem (4 * length ?vs + slot_offset sz b i) n
      = Some (take n (drop (4 * length ?vs + slot_offset sz b i) mem))"
    using len off by (intro mem_read_Some) simp
  have "length (take n (drop (4 * length ?vs + slot_offset sz b i) mem)) = n"
    using len off by simp
  then show ?thesis
    using inv buf u len off dst by (simp add: read_data_def start_of_data_offset_def r d)
qed

text \<open>
  Reading from the buffer never touches memory outside it: for every result offset, data offset
  and size whose sum does not wrap around 64 bits, and a destination of at least that size, the
  operation is defined (no \<open>memcpy\<close> leaves its blocks), answers with success or with one of
  the codes \<open>NOT_INITIALIZED\<close>, \<open>OUT_OF_RANGE\<close>, and leaves the destination's size as it was; on an
  error nothing has been stored.
\<close>

theorem read_data_safe:
  assumes "buf_inv sz b" and "offset_data + n < 2 ^ 64" and "n \<le> length dst"
  shows "\<exists>rc r' dst'. read_data offset_result offset_data n (Some r) (Some dst) b = Some (rc, r', Some dst')
    \<and> length dst' = length dst
    \<and> rc \<in> {0, EPICSADS_NOT_INITIALIZED, EPICSADS_OUT_OF_RANGE}
    \<and> (rc \<noteq> 0 \<longrightarrow> r' = Some r \<and> dst' = dst)"
proof (cases "buf_buffer b")
  case None
  then show ?thesis by (simp add: read_data_def)
next
  case (Some mem)
  let ?vs = "buf_variables b"
  show ?thesis
  proof (cases "u16 offset_result < buf_next_result_offset b
      \<and> u64 (offset_data + n) \<le> buf_next_data_offset b")
    case False
    then show ?thesis using Some by (auto simp: read_data_def not_less not_le)
  next
    case True
    have "length mem = 4 * length ?vs + buf_next_data_offset b"
      "buf_next_result_offset b = length ?vs"
      using assms(1) Some by (auto simp: buf_inv_def)
    moreover have "offset_data + n \<le> buf_next_data_offset b" using True assms(2) by simp
    ultimately have r: "mem_read mem (4 * u16 offset_result) 4 = Some (take 4 (drop (4 * u16 offset_result) mem))"
      and d: "mem_read mem (4 * length ?vs + offset_data) n
        = Some (take n (drop (4 * length ?vs + offset_data) mem))"
      and l: "length (take n (drop (4 * length ?vs + offset_data) mem)) = n"
      using True by (simp_all)
    show ?thesis
      using Some True assms l by (simp add: read_data_def start_of_data_offset_def r d)
  qed
qed

theorem read_data_safe_witness:
  "\<exists>rc r' dst'. read_data 0 0 8 (Some 0) (Some (replicate 8 0)) example_buffer = Some (rc, r', Some dst')
    \<and> length dst' = length (replicate 8 0 :: byte list)
    \<and> rc \<in> {0, EPICSADS_NOT_INITIALIZED, EPICSADS_OUT_OF_RANGE}
    \<and> (rc = 0 \<or> r' = Some 0 \<and> dst' = replicate 8 0)"
  using read_data_safe [OF example_buffer_inv, of 0 8 "replicate 8 0" 0 0] by auto

section \<open>What a sum-read answers: the contract of the slots\<close>

text \<open>
  The answer to a sum-read of \<open>n\<close> variables, as the ADS specification defines it: first the \<open>n\<close>
  return codes of 4 bytes, then the data of the \<open>n\<close> variables.
\<close>

definition sum_response :: "(nat \<times> byte list) list \<Rightarrow> byte list" where
  "sum_response rs = concat (map (\<lambda>(rc, d). le_encode 4 rc) rs) @ concat (map snd rs)"

definition response_fits :: "nat list \<Rightarrow> (nat \<times> byte list) list \<Rightarrow> bool" where
  "response_fits sizes rs \<longleftrightarrow> list_all2 (\<lambda>s (rc, d). rc < 2 ^ 32 \<and> length d = s) sizes rs"

lemma response_fits_sizes: "response_fits sizes rs \<Longrightarrow> map (\<lambda>x. length (snd x)) rs = sizes"
  unfolding response_fits_def by (induction rule: list_all2_induct) auto

lemma length_sum_response:
  "response_fits sizes rs \<Longrightarrow> length (sum_response rs) = 4 * length sizes + sum_list sizes"
  unfolding response_fits_def sum_response_def
  by (induction rule: list_all2_induct) auto

lemma sum_response_code:
  assumes "i < length rs"
  shows "take 4 (drop (4 * i) (sum_response rs)) = le_encode 4 (fst (rs ! i))"
proof -
  let ?xs = "map (\<lambda>(rc, d). le_encode 4 rc) rs"
  have l: "\<And>x. x \<in> set ?xs \<Longrightarrow> length x = 4" by (auto simp: split_def)
  have "sum_list (map length (take i ?xs)) = 4 * i"
  proof -
    have "map length (take i ?xs) = replicate (length (take i ?xs)) 4"
      using l by (intro replicate_eqI) (auto dest: in_set_takeD)
    then show ?thesis using assms by (simp add: sum_list_replicate)
  qed
  moreover have "take (length (?xs ! i)) (drop (sum_list (map length (take i ?xs))) (concat ?xs)) = ?xs ! i"
    using assms by (intro take_drop_concat) simp
  moreover have "4 * i + 4 \<le> length (concat ?xs)"
    using assms concat_replicate_length [of ?xs id 4] l by simp
  ultimately show ?thesis using assms by (simp add: sum_response_def split_def)
qed

lemma sum_response_data:
  assumes "i < length rs"
  shows "take (length (snd (rs ! i)))
    (drop (4 * length rs + sum_list (map (\<lambda>x. length (snd x)) (take i rs))) (sum_response rs)) = snd (rs ! i)"
proof -
  have "length (concat (map (\<lambda>(rc, d). le_encode 4 rc) rs)) = 4 * length rs"
    by (subst concat_replicate_length [where n = 4]) (auto simp: split_def)
  moreover have "take (length (map snd rs ! i))
      (drop (sum_list (map length (take i (map snd rs)))) (concat (map snd rs))) = map snd rs ! i"
    using assms by (intro take_drop_concat) simp
  ultimately show ?thesis using assms by (simp add: sum_response_def take_map comp_def)
qed

locale slot_store =
  fixes slots :: "'b \<Rightarrow> nat list"
    and ready :: "'b \<Rightarrow> bool"
    and store :: "byte list \<Rightarrow> 'b \<Rightarrow> 'b"
    and fetch :: "nat \<Rightarrow> nat \<Rightarrow> nat \<Rightarrow> 'b \<Rightarrow> (nat \<times> byte list) option"
  assumes slots_store: "slots (store resp b) = slots b"
    and ready_store: "ready b \<Longrightarrow> ready (store resp b)"
    and fetch_store: "ready b \<Longrightarrow> i < length (slots b) \<Longrightarrow> n \<le> slots b ! i \<Longrightarrow>
      length resp = 4 * length (slots b) + sum_list (slots b) \<Longrightarrow>
      fetch i (sum_list (take i (slots b))) n (store resp b) =
        Some (le_decode (take 4 (drop (4 * i) resp)),
              take n (drop (4 * length (slots b) + sum_list (take i (slots b))) resp))"
begin

text \<open>Every slot yields its own part of the answer.\<close>

lemma fetch_response:
  assumes ready: "ready b" and fits: "response_fits (slots b) rs" and i: "i < length rs"
    and n: "n \<le> length (snd (rs ! i))"
  shows "fetch i (sum_list (take i (slots b))) n (store (sum_response rs) b)
    = Some (fst (rs ! i), take n (snd (rs ! i)))"
proof -
  have sizes: "slots b = map (\<lambda>x. length (snd x)) rs" using response_fits_sizes [OF fits] by simp
  have len: "length (slots b) = length rs" by (simp add: sizes)
  have rc: "fst (rs ! i) < 2 ^ 32"
    using fits i unfolding response_fits_def by (auto simp: list_all2_conv_all_nth split_def)
  have "take n (drop (4 * length (slots b) + sum_list (take i (slots b))) (sum_response rs))
      = take n (take (length (snd (rs ! i)))
          (drop (4 * length rs + sum_list (map (\<lambda>x. length (snd x)) (take i rs))) (sum_response rs)))"
    using n by (simp add: sizes take_map min_def)
  then have d: "take n (drop (4 * length (slots b) + sum_list (take i (slots b))) (sum_response rs))
      = take n (snd (rs ! i))"
    by (simp add: sum_response_data [OF i])
  have "le_decode (take 4 (drop (4 * i) (sum_response rs))) = fst (rs ! i)"
    using rc by (simp add: sum_response_code [OF i] le_decode_encode)
  with d ready i n len length_sum_response [OF fits] show ?thesis
    by (subst fetch_store) (auto simp: sizes)
qed

text \<open>Storing an answer leaves nothing of an earlier one.\<close>

lemma fetch_latest:
  assumes "ready b" and "response_fits (slots b) rs" and "i < length rs"
    and "n \<le> length (snd (rs ! i))"
  shows "fetch i (sum_list (take i (slots b))) n (store (sum_response rs) (store old b))
    = Some (fst (rs ! i), take n (snd (rs ! i)))"
  using fetch_response [of "store old b" rs i n] assms by (simp add: slots_store ready_store)

end

text \<open>The code's buffer: \<open>read_data\<close> into a destination of the wanted size.\<close>

definition fetch_slot :: "nat \<Rightarrow> nat \<Rightarrow> nat \<Rightarrow> sum_read_buffer \<Rightarrow> (nat \<times> byte list) option" where
  "fetch_slot off_result off_data n b =
     (case read_data off_result off_data n (Some 0) (Some (replicate n 0)) b of
        Some (rc, Some r, Some d) \<Rightarrow> if rc = 0 then Some (r, d) else None
      | _ \<Rightarrow> None)"

definition buffer_ready :: "(nat \<Rightarrow> nat) \<Rightarrow> sum_read_buffer \<Rightarrow> bool" where
  "buffer_ready sz b \<longleftrightarrow> buf_inv sz b \<and> buf_initialized b \<and> buf_buffer_size b < 2 ^ 32"

definition store_full :: "byte list \<Rightarrow> sum_read_buffer \<Rightarrow> sum_read_buffer" where
  "store_full resp b = store_response (u32 (buf_buffer_size b)) resp b"

lemma fetch_slot_ok:
  assumes "buf_inv sz b" and "buf_buffer b = Some mem" and "i < length (buf_variables b)"
    and "n \<le> sz (buf_variables b ! i)"
  shows "fetch_slot i (slot_offset sz b i) n b =
    Some (le_decode (take 4 (drop (4 * i) mem)),
      take n (drop (4 * length (buf_variables b) + slot_offset sz b i) mem))"
  using read_data_ok [OF assms, of "replicate n 0" 0] by (simp add: fetch_slot_def)

lemma store_full_buffer:
  assumes "buffer_ready sz b" and "length resp = buf_buffer_size b"
  shows "buf_buffer (store_full resp b) = Some resp"
proof -
  obtain mem where "buf_buffer b = Some mem" "length mem = buf_buffer_size b"
    using assms(1) by (auto simp: buffer_ready_def buf_inv_def)
  with assms show ?thesis
    by (simp add: store_full_def store_response_def buffer_ready_def)
qed

interpretation sb: slot_store "\<lambda>b. map sz (buf_variables b)" "buffer_ready sz" store_full fetch_slot
  for sz
proof
  fix resp b i n
  show "map sz (buf_variables (store_full resp b)) = map sz (buf_variables b)"
    by (simp add: store_full_def frame_simps)
  assume ready: "buffer_ready sz b"
  then show r2: "buffer_ready sz (store_full resp b)"
    by (simp add: buffer_ready_def store_full_def frame_simps inv_intros)
  assume i: "i < length (map sz (buf_variables b))" and n: "n \<le> map sz (buf_variables b) ! i"
    and len: "length resp = 4 * length (map sz (buf_variables b)) + sum_list (map sz (buf_variables b))"
  have "length resp = buf_buffer_size b"
    using ready len by (simp add: buffer_ready_def buf_inv_def)
  then have "buf_buffer (store_full resp b) = Some resp" by (rule store_full_buffer [OF ready])
  moreover have "buf_variables (store_full resp b) = buf_variables b"
    by (simp add: store_full_def frame_simps)
  ultimately show "fetch_slot i (sum_list (take i (map sz (buf_variables b)))) n (store_full resp b) =
        Some (le_decode (take 4 (drop (4 * i) resp)),
              take n (drop (4 * length (map sz (buf_variables b))
                + sum_list (take i (map sz (buf_variables b)))) resp))"
    using fetch_slot_ok [of sz "store_full resp b" resp i n] r2 i n
    by (simp add: slot_offset_def take_map buffer_ready_def)
qed

text \<open>
  A sum-read is decoded correctly: when the PLC answers a sum-read with a return code and data
  of the right size for each variable of an initialised buffer (of less than 4 GiB), reading any
  slot at the offsets that \<open>add_variable\<close> gave out yields exactly that variable's return code
  and the first \<open>n\<close> bytes of its data, whatever the buffer held before.
\<close>

theorem sum_read_decodes:
  assumes "buf_inv sz b" and "buf_initialized b" and "buf_buffer_size b < 2 ^ 32"
    and "response_fits (map sz (buf_variables b)) rs" and "i < length rs"
    and "n \<le> length (snd (rs ! i))"
  shows "fetch_slot i (slot_offset sz b i) n
      (store_response (u32 (buf_buffer_size b)) (sum_response rs) b)
    = Some (fst (rs ! i), take n (snd (rs ! i)))"
  using sb.fetch_response [of sz b rs i n] assms
  by (simp add: buffer_ready_def store_full_def slot_offset_def take_map)

definition example_ready :: sum_read_buffer where
  "example_ready = \<lparr> buf_variables = [7, 8], buf_max_nvariables = 500, buf_soft_limit = 1000000,
     buf_next_result_offset = 2, buf_next_data_offset = 3, buf_buffer_size = 11,
     buf_buffer = Some (replicate 11 0), buf_initialized = True,
     buf_prev_data = Some (replicate 11 0), buf_state = Buf_Invalid \<rparr>"

theorem sum_read_decodes_witness:
  "fetch_slot 1 (slot_offset (\<lambda>v. if v = 7 then 2 else 1) example_ready 1) 1
      (store_response (u32 (buf_buffer_size example_ready))
        (sum_response [(0, [1, 2]), (1808, [3])]) example_ready)
    = Some (1808, [3])"
  using sum_read_decodes [of "\<lambda>v. if v = 7 then 2 else 1" example_ready "[(0, [1, 2]), (1808, [3])]" 1 1]
  by (simp add: buf_inv_def example_ready_def response_fits_def)

end
