(* ===== verification/Connection.thy ===== *)
theory Connection
  imports Buffer_Props
begin

text \<open>
  \<open>Connection.h\<close> and \<open>Connection.cpp\<close>: the state of the connection to the ADS device and its
  operations. They change the connection, the ADS library's state and the variables, so they work
  on the whole store of objects, which this theory introduces. Each operation holds the
  connection's mutex from start to end and is one step of the model. The members \<open>connected\<close>,
  \<open>remote_address\<close> and \<open>sum_operations_max_commands\<close>, which no code uses, are left out.
\<close>

record connection =
  remote_ams_netid :: netid
  conn_ads_port :: int              \<comment> \<open>\<open>long\<close>; 0 means not connected\<close>
  device_read_ads_port :: nat       \<comment> \<open>\<open>uint16_t\<close>\<close>

text \<open>
  The objects of the program: the library and what is behind it, the connection, the ADS
  variables by number, and the sum-read buffers by number (\<open>None\<close>: not allocated, or freed).
\<close>

record 'e heap =
  h_env :: 'e
  h_conn :: connection
  h_vars :: "nat \<Rightarrow> ads_variable"
  h_bufs :: "nat \<Rightarrow> sum_read_buffer option"
  h_next_buf :: nat

definition upd_var :: "nat \<Rightarrow> (ads_variable \<Rightarrow> ads_variable) \<Rightarrow> 'e heap \<Rightarrow> 'e heap" where
  "upd_var vid f h = h\<lparr>h_vars := (h_vars h)(vid := f (h_vars h vid))\<rparr>"

definition upd_addr :: "nat \<Rightarrow> ads_address \<Rightarrow> 'e heap \<Rightarrow> 'e heap" where
  "upd_addr vid a = upd_var vid (\<lambda>v. v\<lparr>var_addr := a\<rparr>)"

definition h_addr :: "'e heap \<Rightarrow> nat \<Rightarrow> ads_address" where
  "h_addr h vid = var_addr (h_vars h vid)"

text \<open>The bytes of a \<open>std::string\<close>.\<close>

definition string_bytes :: "string \<Rightarrow> byte list" where
  "string_bytes s = map (\<lambda>c. of_nat (of_char c)) s"

definition no_netid :: netid where
  "no_netid = [0, 0, 0, 0, 0, 0]"

section \<open>Connecting\<close>

definition is_connected :: "'e heap \<Rightarrow> bool" where
  "is_connected h \<longleftrightarrow> conn_ads_port (h_conn h) \<noteq> 0"

definition set_local_ams_id :: "'e ads_lib \<Rightarrow> netid \<Rightarrow> 'e heap \<Rightarrow> 'e heap" where
  "set_local_ams_id lib ams_id h = h\<lparr>h_env := AdsSetLocalAddress lib (h_env h) ams_id\<rparr>"

definition connect :: "'e ads_lib \<Rightarrow> netid \<Rightarrow> string \<Rightarrow> nat \<Rightarrow> 'e heap \<Rightarrow> int \<times> 'e heap" where
  "connect lib ams_id address read_port h =
     (case AdsAddRoute lib (h_env h) ams_id address of (rc, e1) \<Rightarrow>
        if rc \<noteq> 0 then (EPICSADS_DISCONNECTED, h\<lparr>h_env := e1\<rparr>)
        else
          (case AdsPortOpenEx lib e1 of (port, e2) \<Rightarrow>
             if port = 0 then (EPICSADS_DISCONNECTED, h\<lparr>h_env := e2\<rparr>)
             else (0, h\<lparr>h_env := e2,
                        h_conn := \<lparr> remote_ams_netid = ams_id, conn_ads_port = port,
                                    device_read_ads_port = read_port \<rparr>\<rparr>)))"

definition disconnect :: "'e ads_lib \<Rightarrow> 'e heap \<Rightarrow> int \<times> 'e heap" where
  "disconnect lib h =
     (if \<not> is_connected h then (EPICSADS_DISCONNECTED, h)
      else
        let e1 = AdsPortCloseEx lib (h_env h) (conn_ads_port (h_conn h));
            e2 = AdsDelRoute lib e1 (remote_ams_netid (h_conn h))
        in (0, h\<lparr>h_env := e2,
                  h_conn := (h_conn h)\<lparr>conn_ads_port := 0, remote_ams_netid := no_netid\<rparr>\<rparr>))"

definition set_disconnected :: "'e heap \<Rightarrow> 'e heap" where
  "set_disconnected h = h\<lparr>h_conn := (h_conn h)\<lparr>conn_ads_port := 0, remote_ams_netid := no_netid\<rparr>\<rparr>"

section \<open>Resolving variables\<close>

text \<open>The address of a request: the remote device's net id and the variable's ADS port.\<close>

definition ams_addr_of :: "'e heap \<Rightarrow> nat \<Rightarrow> ams_addr" where
  "ams_addr_of h vid = (remote_ams_netid (h_conn h), addr_ads_port (h_addr h vid))"

text \<open>
  The request for a handle. The library may store 4 bytes into \<open>handle\<close>, which starts as 0.
\<close>

definition request_handle :: "ads_def \<Rightarrow> 'e ads_lib \<Rightarrow> nat \<Rightarrow> 'e heap \<Rightarrow> int \<times> nat \<times> 'e heap" where
  "request_handle d lib vid h =
     (case AdsSyncReadWriteReqEx2 lib (h_env h) (conn_ads_port (h_conn h)) (ams_addr_of h vid)
             (ADSIGRP_SYM_HNDBYNAME d) 0 4
             (string_bytes (addr_variable_name (h_addr h vid))) of
        (rc, resp, e1) \<Rightarrow> (rc, le_decode (fill 4 resp (replicate 4 0)), h\<lparr>h_env := e1\<rparr>))"

text \<open>The loop of \<open>resolve_variables\<close>; \<open>status\<close> is its local variable.\<close>

fun resolve_loop :: "ads_def \<Rightarrow> 'e ads_lib \<Rightarrow> nat list \<Rightarrow> int \<Rightarrow> 'e heap \<Rightarrow> int \<times> 'e heap" where
  "resolve_loop d lib [] status h = (status, h)"
| "resolve_loop d lib (vid # vids) status h =
     (if addr_name_is_resolved (h_addr h vid) then resolve_loop d lib vids status h
      else
        (case request_handle d lib vid h of (rc, handle, h1) \<Rightarrow>
           if rc \<noteq> 0 then resolve_loop d lib vids (ads_rc_to_epicsads_error d rc) h1
           else
             (case resolve (ADSIGRP_SYM_VALBYHND d) handle (h_addr h1 vid) of (rc2, a) \<Rightarrow>
                resolve_loop d lib vids (if rc2 \<noteq> 0 then EPICSADS_ERROR else status)
                  (upd_addr vid a h1))))"

definition resolve_variables :: "ads_def \<Rightarrow> 'e ads_lib \<Rightarrow> nat list \<Rightarrow> 'e heap \<Rightarrow> int \<times> 'e heap" where
  "resolve_variables d lib vids h =
     (if vids = [] then (EPICSADS_NO_DATA, h)
      else if \<not> is_connected h then (EPICSADS_DISCONNECTED, h)
      else resolve_loop d lib vids 0 h)"

definition resolve_variable :: "ads_def \<Rightarrow> 'e ads_lib \<Rightarrow> nat \<Rightarrow> 'e heap \<Rightarrow> int \<times> 'e heap" where
  "resolve_variable d lib vid h = resolve_variables d lib [vid] h"

definition release_handle :: "ads_def \<Rightarrow> 'e ads_lib \<Rightarrow> nat \<Rightarrow> 'e heap \<Rightarrow> int \<times> 'e heap" where
  "release_handle d lib vid h =
     (case AdsSyncWriteReqEx lib (h_env h) (conn_ads_port (h_conn h)) (ams_addr_of h vid)
             (ADSIGRP_SYM_RELEASEHND d) 0 (le_encode 4 (addr_index_offset (h_addr h vid))) of
        (rc, e1) \<Rightarrow> (rc, h\<lparr>h_env := e1\<rparr>))"

text \<open>
  The loop of \<open>unresolve_variables\<close>: \<open>up\<close> and \<open>errs\<close> are the local variables
  \<open>ads_is_connected\<close> and \<open>unresolve_errors\<close>.
\<close>

fun unresolve_loop ::
  "ads_def \<Rightarrow> 'e ads_lib \<Rightarrow> nat list \<Rightarrow> bool \<Rightarrow> bool \<Rightarrow> 'e heap \<Rightarrow> bool \<times> bool \<times> 'e heap" where
  "unresolve_loop d lib [] up errs h = (up, errs, h)"
| "unresolve_loop d lib (vid # vids) up errs h =
     (if \<not> addr_name_is_resolved (h_addr h vid) then unresolve_loop d lib vids up errs h
      else
        (case if up then release_handle d lib vid h else (0, h) of (rc, h1) \<Rightarrow>
           unresolve_loop d lib vids
             (up \<and> \<not> (rc \<noteq> 0 \<and> ads_rc_to_epicsads_error d rc = EPICSADS_DISCONNECTED))
             (errs \<or> rc \<noteq> 0)
             (upd_addr vid (snd (unresolve (h_addr h1 vid))) h1)))"

definition unresolve_variables :: "ads_def \<Rightarrow> 'e ads_lib \<Rightarrow> nat list \<Rightarrow> 'e heap \<Rightarrow> int \<times> 'e heap" where
  "unresolve_variables d lib vids h =
     (if vids = [] then (EPICSADS_NO_DATA, h)
      else
        (case unresolve_loop d lib vids (is_connected h) False h of (up, errs, h1) \<Rightarrow>
           (if \<not> up then EPICSADS_DISCONNECTED
            else if errs then EPICSADS_NOT_RESOLVED else 0, h1)))"

definition unresolve_variable :: "ads_def \<Rightarrow> 'e ads_lib \<Rightarrow> nat \<Rightarrow> 'e heap \<Rightarrow> int \<times> 'e heap" where
  "unresolve_variable d lib vid h = unresolve_variables d lib [vid] h"

section \<open>Device information and state\<close>

text \<open>\<open>None\<close> stands for a null pointer, \<open>Some\<close> for the contents of the object pointed to.\<close>

definition read_device_info ::
  "ads_def \<Rightarrow> 'e ads_lib \<Rightarrow> string option \<Rightarrow> nat \<Rightarrow> nat list option \<Rightarrow> 'e heap
     \<Rightarrow> int \<times> string option \<times> nat list option \<times> 'e heap" where
  "read_device_info d lib device_info size_device_info ads_version h =
     (if device_info = None \<or> ads_version = None
      then (EPICSADS_INV_PARAM, device_info, ads_version, h)
      else if size_device_info < 16 then (EPICSADS_OVERFLOW, device_info, ads_version, h)
      else if \<not> is_connected h then (EPICSADS_DISCONNECTED, device_info, ads_version, h)
      else
        (case AdsSyncReadDeviceInfoReqEx lib (h_env h) (conn_ads_port (h_conn h))
                (remote_ams_netid (h_conn h), device_read_ads_port (h_conn h)) of
           (rc, (name, version), e1) \<Rightarrow>
             (ads_rc_to_epicsads_error d rc, map_option (fill 16 name) device_info,
              map_option (fill 3 version) ads_version, h\<lparr>h_env := e1\<rparr>)))"

definition read_device_state ::
  "ads_def \<Rightarrow> 'e ads_lib \<Rightarrow> nat option \<Rightarrow> nat option \<Rightarrow> 'e heap
     \<Rightarrow> int \<times> nat option \<times> nat option \<times> 'e heap" where
  "read_device_state d lib device_state ads_state h =
     (case (device_state, ads_state) of
        (Some dev, Some st) \<Rightarrow>
          if \<not> is_connected h then (EPICSADS_DISCONNECTED, device_state, ads_state, h)
          else
            (case AdsSyncReadStateReqEx lib (h_env h) (conn_ads_port (h_conn h))
                    (remote_ams_netid (h_conn h), device_read_ads_port (h_conn h)) of
               (rc, (ads_state_value, dev'), e1) \<Rightarrow>
                 (ads_rc_to_epicsads_error d rc,
                  Some (case dev' of Some x \<Rightarrow> u16 x | None \<Rightarrow> dev),
                  Some (if rc = 0 then (case ads_state_value of Some x \<Rightarrow> u16 x | None \<Rightarrow> 0) else st),
                  h\<lparr>h_env := e1\<rparr>))
      | _ \<Rightarrow> (EPICSADS_INV_PARAM, device_state, ads_state, h))"

end
