(* ===== verification/Connection_Props.thy ===== *)
theory Connection_Props
  imports Connection
begin

text \<open>
  What the connection guarantees: when resolving reports success every variable has a handle, and
  only handles change; unresolving leaves no named variable with a handle, whether or not the ADS
  device still answers.
\<close>

section \<open>The store\<close>

lemma upd_var_simps [simp]:
  "h_vars (upd_var vid f h) = (h_vars h)(vid := f (h_vars h vid))"
  "h_env (upd_var vid f h) = h_env h" "h_conn (upd_var vid f h) = h_conn h"
  "h_bufs (upd_var vid f h) = h_bufs h" "h_next_buf (upd_var vid f h) = h_next_buf h"
  by (simp_all add: upd_var_def)

lemma upd_addr_simps [simp]:
  "h_vars (upd_addr vid a h) = (h_vars h)(vid := (h_vars h vid)\<lparr>var_addr := a\<rparr>)"
  "h_env (upd_addr vid a h) = h_env h" "h_conn (upd_addr vid a h) = h_conn h"
  "h_bufs (upd_addr vid a h) = h_bufs h" "h_next_buf (upd_addr vid a h) = h_next_buf h"
  by (simp_all add: upd_addr_def)

text \<open>Neither resolving nor unresolving touches the connection or the buffers.\<close>

definition same_rest :: "'e heap \<Rightarrow> 'e heap \<Rightarrow> bool" where
  "same_rest h h' \<longleftrightarrow> h_conn h' = h_conn h \<and> h_bufs h' = h_bufs h \<and> h_next_buf h' = h_next_buf h"

lemma same_rest_refl [simp]: "same_rest h h"
  and same_rest_trans: "same_rest h h1 \<Longrightarrow> same_rest h1 h2 \<Longrightarrow> same_rest h h2"
  and same_rest_addr [simp]: "same_rest h (upd_addr vid a h1) = same_rest h h1"
  by (auto simp: same_rest_def)

lemma same_rest_connected: "same_rest h h' \<Longrightarrow> is_connected h' = is_connected h"
  by (simp add: same_rest_def is_connected_def)

lemma request_handle_frame:
  "request_handle d lib vid h = (rc, handle, h1) \<Longrightarrow>
     same_rest h h1 \<and> h_vars h1 = h_vars h \<and> handle < 2 ^ 32"
  using le_decode_bound [of "fill 4 (fst (snd (AdsSyncReadWriteReqEx2 lib (h_env h)
      (conn_ads_port (h_conn h)) (ams_addr_of h vid) (ADSIGRP_SYM_HNDBYNAME d) 0 4
      (string_bytes (addr_variable_name (h_addr h vid)))))) (replicate 4 0)"]
  by (auto simp: request_handle_def same_rest_def split: prod.splits)

lemma release_handle_frame:
  "release_handle d lib vid h = (rc, h1) \<Longrightarrow> same_rest h h1 \<and> h_vars h1 = h_vars h"
  by (auto simp: release_handle_def same_rest_def split: prod.splits)

section \<open>Resolving\<close>

text \<open>A variable keeps everything, except that an unresolved one may have got a handle.\<close>

definition resolved_from :: "ads_def \<Rightarrow> ads_variable \<Rightarrow> ads_variable \<Rightarrow> bool" where
  "resolved_from d v v' \<longleftrightarrow> v' = v \<or>
     (addr_handle (var_addr v) = None \<and>
      (\<exists>handle < 2 ^ 32. v' = v\<lparr>var_addr := snd (resolve (ADSIGRP_SYM_VALBYHND d) handle (var_addr v))\<rparr>))"

lemma addr_handle_None: "addr_handle a = None \<longleftrightarrow> \<not> addr_name_is_resolved a"
  by (simp add: addr_handle_def)

lemma resolve_loop_ok:
  assumes "resolve_loop d lib vids st h = (st', h')"
  shows "same_rest h h'" and "resolved_from d (h_vars h vid) (h_vars h' vid)"
    and "vid \<notin> set vids \<Longrightarrow> h_vars h' vid = h_vars h vid"
proof -
  have "same_rest h h' \<and> (\<forall>vid. resolved_from d (h_vars h vid) (h_vars h' vid)
      \<and> (vid \<notin> set vids \<longrightarrow> h_vars h' vid = h_vars h vid))"
    using assms
  proof (induction d lib vids st h rule: resolve_loop.induct)
    case (1 d lib status h)
    then show ?case by (auto simp: resolved_from_def)
  next
    case (2 d lib v vids status h)
    obtain rc handle h1 where r: "request_handle d lib v h = (rc, handle, h1)"
      by (cases "request_handle d lib v h") auto
    note f = request_handle_frame [OF r]
    show ?case
    proof (cases "addr_name_is_resolved (h_addr h v)")
      case True
      with 2 show ?thesis by auto
    next
      case unresolved: False
      show ?thesis
      proof (cases "rc = 0")
        case False
        with 2 unresolved r f show ?thesis by (auto simp: same_rest_def)
      next
        case True
        obtain rc2 a where a: "resolve (ADSIGRP_SYM_VALBYHND d) handle (h_addr h1 v) = (rc2, a)"
          by (cases "resolve (ADSIGRP_SYM_VALBYHND d) handle (h_addr h1 v)") auto
        let ?h2 = "upd_addr v a h1"
        have run: "resolve_loop d lib vids (if rc2 \<noteq> 0 then EPICSADS_ERROR else status) ?h2 = (st', h')"
          using 2(4) r True unresolved a by simp
        have ih: "same_rest ?h2 h' \<and> (\<forall>vid. resolved_from d (h_vars ?h2 vid) (h_vars h' vid)
            \<and> (vid \<notin> set vids \<longrightarrow> h_vars h' vid = h_vars ?h2 vid))"
          using 2(3) unresolved r True a run by simp
        have "addr_handle a \<noteq> None" using ar.resolved_after [of "ADSIGRP_SYM_VALBYHND d" handle] a
          by (metis snd_conv)
        then have "resolved_from d (h_vars h v) (h_vars h' v)"
          using ih f a unresolved
          by (auto simp: resolved_from_def addr_handle_None h_addr_def dest!: spec [of _ v])
        with ih f show ?thesis
          by (auto simp: same_rest_def split: if_splits)
      qed
    qed
  qed
  then show "same_rest h h'" "resolved_from d (h_vars h vid) (h_vars h' vid)"
    "vid \<notin> set vids \<Longrightarrow> h_vars h' vid = h_vars h vid" by auto
qed

lemma resolve_loop_status:
  assumes "wf_ads_def d" and "distinct vids" and "resolve_loop d lib vids st h = (st', h')"
  shows "st' = 0 \<longleftrightarrow> st = 0 \<and> (\<forall>vid \<in> set vids. addr_name_is_resolved (h_addr h' vid))"
  using assms
proof (induction d lib vids st h rule: resolve_loop.induct)
  case (1 d lib status h)
  then show ?case by auto
next
  case (2 d lib v vids status h)
  obtain rc handle h1 where r: "request_handle d lib v h = (rc, handle, h1)"
    by (cases "request_handle d lib v h") auto
  note f = request_handle_frame [OF r]
  show ?case
  proof (cases "addr_name_is_resolved (h_addr h v)")
    case True
    with 2 have run: "resolve_loop d lib vids status h = (st', h')" by simp
    have "h_vars h' v = h_vars h v" using resolve_loop_ok(3) [OF run] 2(5) by simp
    with True 2 run show ?thesis by (simp add: h_addr_def)
  next
    case unresolved: False
    show ?thesis
    proof (cases "rc = 0")
      case False
      with 2 unresolved r have run: "resolve_loop d lib vids (ads_rc_to_epicsads_error d rc) h1 = (st', h')"
        by simp
      have "h_vars h' v = h_vars h v" using resolve_loop_ok(3) [OF run] 2(5) f by simp
      moreover have "ads_rc_to_epicsads_error d rc \<noteq> 0" using ads_rc_nonzero [OF 2(4)] False by simp
      ultimately show ?thesis using 2(2) [OF unresolved r [symmetric] refl False 2(4) _ run] 2(5) unresolved
        by (simp add: h_addr_def)
    next
      case True
      obtain a where a: "resolve (ADSIGRP_SYM_VALBYHND d) handle (h_addr h1 v) = (0, a)"
          "addr_name_is_resolved a"
        using unresolved f by (simp add: resolve_def h_addr_def)
      have run: "resolve_loop d lib vids status (upd_addr v a h1) = (st', h')"
        using 2(6) r True unresolved a by simp
      have "h_vars h' v = (h_vars h1 v)\<lparr>var_addr := a\<rparr>"
        using resolve_loop_ok(3) [OF run] 2(5) by simp
      then show ?thesis using 2(3) [OF unresolved r [symmetric] refl] 2(4,5) run unresolved r True a
        by (simp add: h_addr_def)
    qed
  qed
qed

text \<open>
  C24. Resolving variable names is reported truthfully: \<open>resolve_variables\<close> of pairwise different
  variables returns 0 exactly when there was a variable to resolve, the connection was up, and all
  of them have a handle afterwards. Whatever it returns, only unresolved variables of the list
  can have changed, and only by getting a 32-bit handle in the index group for access by handle; a
  variable that had a handle keeps it. The connection and the buffers stay as they were.
\<close>

theorem resolve_variables_correct:
  assumes "wf_ads_def d" and "distinct vids" and "resolve_variables d lib vids h = (rc, h')"
  shows "(rc = 0 \<longleftrightarrow> vids \<noteq> [] \<and> is_connected h
             \<and> (\<forall>vid \<in> set vids. addr_name_is_resolved (h_addr h' vid)))
    \<and> (\<forall>vid. resolved_from d (h_vars h vid) (h_vars h' vid)
             \<and> (vid \<notin> set vids \<longrightarrow> h_vars h' vid = h_vars h vid))
    \<and> h_conn h' = h_conn h \<and> h_bufs h' = h_bufs h"
proof (cases "vids = [] \<or> \<not> is_connected h")
  case True
  with assms(3) show ?thesis
    by (auto simp: resolve_variables_def resolved_from_def split: if_splits)
next
  case False
  with assms(3) have run: "resolve_loop d lib vids 0 h = (rc, h')" by (simp add: resolve_variables_def)
  from resolve_loop_ok [OF run] resolve_loop_status [OF assms(1,2) run] False show ?thesis
    by (auto simp: same_rest_def)
qed

text \<open>
  A library for concrete instances: it answers every request with success, counts the requests,
  and a request for a handle with the number of the request.
\<close>

definition example_lib :: "nat ads_lib" where
  "example_lib = \<lparr> AdsSetLocalAddress = (\<lambda>e i. e), AdsAddRoute = (\<lambda>e i s. (0, e)),
     AdsDelRoute = (\<lambda>e i. e), AdsPortOpenEx = (\<lambda>e. (30000, e)), AdsPortCloseEx = (\<lambda>e p. e),
     AdsSyncReadReqEx2 = (\<lambda>e p a g off n. (0, replicate n 7, e + 1)),
     AdsSyncWriteReqEx = (\<lambda>e p a g off bs. (0, e + 1)),
     AdsSyncReadWriteReqEx2 = (\<lambda>e p a g off n bs. (0, le_encode n e, e + 1)),
     AdsSyncReadDeviceInfoReqEx = (\<lambda>e p a. (0, (''PLC'', [3, 1, 4024]), e + 1)),
     AdsSyncReadStateReqEx = (\<lambda>e p a. (0, (Some 5, Some 0), e + 1)) \<rparr>"

definition example_heap :: "nat heap" where
  "example_heap = \<lparr> h_env = 10,
     h_conn = \<lparr> remote_ams_netid = [10, 0, 0, 1, 1, 1], conn_ads_port = 30000,
                device_read_ads_port = 851 \<rparr>,
     h_vars = (\<lambda>_. example_variable), h_bufs = (\<lambda>_. None), h_next_buf = 0 \<rparr>"

lemmas example_defs = example_lib_def example_heap_def example_variable_def example_address_def
  h_addr_def is_connected_def

lemma example_resolve:
  "resolve_variables ads_def_documented example_lib [3, 4] example_heap =
    (0, upd_addr 4 (snd (resolve 61445 11 example_address))
        (upd_addr 3 (snd (resolve 61445 10 example_address)) (example_heap\<lparr>h_env := 12\<rparr>)))"
  by (simp add: resolve_variables_def request_handle_def resolve_def example_defs
      ads_def_documented_def le_decode_encode upd_addr_def upd_var_def)

theorem resolve_variables_correct_witness:
  "addr_handle (h_addr (snd (resolve_variables ads_def_documented example_lib [3, 4] example_heap)) 4)
     = Some (61445, 11)
   \<and> addr_name_is_resolved
        (h_addr (snd (resolve_variables ads_def_documented example_lib [3, 4] example_heap)) 3)"
proof -
  have "distinct [3, 4 :: nat]" by simp
  from resolve_variables_correct [OF wf_ads_def_documented this example_resolve]
  show ?thesis unfolding example_resolve
    by (simp add: h_addr_def addr_handle_def resolve_def example_address_def)
qed

section \<open>Unresolving\<close>

definition unresolved :: "ads_variable \<Rightarrow> ads_variable" where
  "unresolved v = (if addr_name_is_resolved (var_addr v)
     then v\<lparr>var_addr := snd (unresolve (var_addr v))\<rparr> else v)"

lemma unresolved_idem [simp]: "unresolved (unresolved v) = unresolved v"
  by (simp add: unresolved_def unresolve_def)

lemma unresolved_named:
  "addr_variable_name (var_addr v) \<noteq> [] \<Longrightarrow> \<not> addr_name_is_resolved (var_addr (unresolved v))"
  by (simp add: unresolved_def unresolve_def)

lemma unresolve_loop_ok:
  assumes "unresolve_loop d lib vids up errs h = (up', errs', h')"
  shows "same_rest h h'"
    and "h_vars h' = (\<lambda>vid. if vid \<in> set vids then unresolved (h_vars h vid) else h_vars h vid)"
    and "up' \<Longrightarrow> up" and "\<not> up \<Longrightarrow> h_env h' = h_env h"
proof -
  have "same_rest h h' \<and> (up' \<longrightarrow> up) \<and> (\<not> up \<longrightarrow> h_env h' = h_env h) \<and>
     h_vars h' = (\<lambda>vid. if vid \<in> set vids then unresolved (h_vars h vid) else h_vars h vid)"
    using assms
  proof (induction d lib vids up errs h rule: unresolve_loop.induct)
    case (1 d lib up errs h)
    then show ?case by simp
  next
    case (2 d lib v vids up errs h)
    obtain rc h1 where r: "(if up then release_handle d lib v h else (0, h)) = (rc, h1)"
      by (cases "if up then release_handle d lib v h else (0, h)") auto
    have f: "same_rest h h1" "h_vars h1 = h_vars h" "\<not> up \<Longrightarrow> h1 = h"
      using r release_handle_frame [of d lib v h rc h1] by (auto split: if_splits)
    show ?case
    proof (cases "addr_name_is_resolved (h_addr h v)")
      case False
      then have "unresolved (h_vars h v) = h_vars h v" by (simp add: unresolved_def h_addr_def)
      with 2 False show ?thesis by (auto simp: fun_eq_iff)
    next
      case True
      let ?h2 = "upd_addr v (snd (unresolve (h_addr h1 v))) h1"
      have v: "h_vars ?h2 v = unresolved (h_vars h v)"
        using True f by (simp add: unresolved_def h_addr_def)
      have "same_rest ?h2 h' \<and> (up' \<longrightarrow> up) \<and> (\<not> up \<longrightarrow> h_env h' = h_env ?h2) \<and>
        h_vars h' = (\<lambda>vid. if vid \<in> set vids then unresolved (h_vars ?h2 vid) else h_vars ?h2 vid)"
        using 2(2) [of rc h1] 2(3) True r by auto
      with f v show ?thesis by (auto simp: same_rest_def fun_eq_iff)
    qed
  qed
  then show "same_rest h h'" "up' \<Longrightarrow> up" "\<not> up \<Longrightarrow> h_env h' = h_env h"
    "h_vars h' = (\<lambda>vid. if vid \<in> set vids then unresolved (h_vars h vid) else h_vars h vid)"
    by auto
qed

text \<open>If the ADS device accepts every release, nothing is lost on the way.\<close>

lemma unresolve_loop_accepted:
  assumes "\<And>e port a g off bs. fst (AdsSyncWriteReqEx lib e port a g off bs) = 0"
  shows "fst (unresolve_loop d lib vids up errs h) = up
    \<and> fst (snd (unresolve_loop d lib vids up errs h)) = errs"
  using assms
proof (induction d lib vids up errs h rule: unresolve_loop.induct)
  case (1 d lib up errs h)
  then show ?case by simp
next
  case (2 d lib v vids up errs h)
  obtain rc h1 where r: "(if up then release_handle d lib v h else (0, h)) = (rc, h1)"
    by (cases "if up then release_handle d lib v h else (0, h)") auto
  then have "rc = 0 \<or> (rc, h_env h1) = AdsSyncWriteReqEx lib (h_env h) (conn_ads_port (h_conn h))
      (ams_addr_of h v) (ADSIGRP_SYM_RELEASEHND d) 0 (le_encode 4 (addr_index_offset (h_addr h v)))"
    by (auto simp: release_handle_def split: if_splits prod.splits)
  then have "rc = 0" using 2(3) by (metis fst_conv)
  with 2 r show ?case by simp
qed

text \<open>
  Unresolving always works on the driver's side: whatever the ADS device answers, connected
  or not, afterwards every resolved variable of the list has been unresolved, no named variable of
  the list has a handle left, and no other variable, nor the connection or a buffer, has changed.
  The result is 0 only if there was something to do and the connection was up; with the
  connection down no request at all is made.
\<close>

theorem unresolve_variables_correct:
  assumes "unresolve_variables d lib vids h = (rc, h')"
  shows "h_vars h' = (\<lambda>vid. if vid \<in> set vids then unresolved (h_vars h vid) else h_vars h vid)
    \<and> (\<forall>vid \<in> set vids. addr_variable_name (h_addr h vid) \<noteq> []
          \<longrightarrow> \<not> addr_name_is_resolved (h_addr h' vid))
    \<and> h_conn h' = h_conn h \<and> h_bufs h' = h_bufs h
    \<and> (rc = 0 \<longrightarrow> vids \<noteq> [] \<and> is_connected h)
    \<and> (\<not> is_connected h \<longrightarrow> h_env h' = h_env h)
    \<and> rc \<in> {0, EPICSADS_NO_DATA, EPICSADS_DISCONNECTED, EPICSADS_NOT_RESOLVED}"
proof (cases "vids = []")
  case True
  with assms show ?thesis by (auto simp: unresolve_variables_def)
next
  case False
  obtain up errs where run: "unresolve_loop d lib vids (is_connected h) False h = (up, errs, h')"
    and rc: "rc = (if \<not> up then EPICSADS_DISCONNECTED else if errs then EPICSADS_NOT_RESOLVED else 0)"
    using assms False by (auto simp: unresolve_variables_def split: prod.splits)
  from unresolve_loop_ok [OF run] rc False show ?thesis
    by (auto simp: same_rest_def h_addr_def unresolved_named)
qed

theorem unresolve_variables_correct_witness:
  "\<not> addr_name_is_resolved (h_addr (snd (unresolve_variables ads_def_documented example_lib [3, 4]
      (snd (resolve_variables ads_def_documented example_lib [3, 4] example_heap)))) 3)"
proof -
  let ?h = "snd (resolve_variables ads_def_documented example_lib [3, 4] example_heap)"
  have "addr_variable_name (h_addr ?h 3) \<noteq> []"
    unfolding example_resolve by (simp add: h_addr_def resolve_def example_address_def)
  then show ?thesis
    using unresolve_variables_correct [of ads_def_documented example_lib "[3, 4]" ?h
        "fst (unresolve_variables ads_def_documented example_lib [3, 4] ?h)"
        "snd (unresolve_variables ads_def_documented example_lib [3, 4] ?h)"]
    by simp
qed

section \<open>The connection itself\<close>

lemma connect_ok:
  "connect lib i a p h = (rc, h') \<Longrightarrow> h_vars h' = h_vars h \<and> h_bufs h' = h_bufs h
     \<and> h_next_buf h' = h_next_buf h \<and> (if rc = 0 then is_connected h' else h_conn h' = h_conn h)"
  by (auto simp: connect_def is_connected_def split: prod.splits if_splits)

lemma disconnect_ok:
  "disconnect lib h = (rc, h') \<Longrightarrow> h_vars h' = h_vars h \<and> h_bufs h' = h_bufs h
     \<and> h_next_buf h' = h_next_buf h \<and> \<not> is_connected h'"
  by (auto simp: disconnect_def is_connected_def Let_def split: if_splits)

lemma set_disconnected_ok:
  "h_vars (set_disconnected h) = h_vars h" "h_bufs (set_disconnected h) = h_bufs h"
  "h_next_buf (set_disconnected h) = h_next_buf h" "\<not> is_connected (set_disconnected h)"
  by (simp_all add: set_disconnected_def is_connected_def)

end
