(* ===== verification/Sum_Read_Request.thy ===== *)
theory Sum_Read_Request
  imports Connection_Props
begin

text \<open>
  \<open>SumReadRequest.h\<close> and \<open>SumReadRequest.cpp\<close>: the variables are grouped by ADS port and split
  into chunks, each with its own sum-read buffer; \<open>read\<close> makes one ADS request per chunk. The
  buffers live in the store of objects, because the variables point to them; a chunk is the only
  owner of its buffer, which is freed with the chunk.
\<close>

type_synonym symbol_info = "nat \<times> nat \<times> nat" \<comment> \<open>\<open>AdsSymbolInfoByName\<close>: group, offset, length\<close>

record read_request_chunk =
  chunk_ads_port :: nat                   \<comment> \<open>\<open>uint16_t\<close>\<close>
  chunk_variables :: "nat list"
  chunk_request :: "symbol_info list"
  chunk_buffer :: nat

record sum_read_request =
  req_max_vars :: nat                     \<comment> \<open>\<open>uint16_t\<close>\<close>
  req_allocated :: bool
  req_initialized :: bool
  req_chunks :: "(nat, read_request_chunk list) smap"

text \<open>The buffer that a chunk owns.\<close>

definition h_buf :: "'e heap \<Rightarrow> nat \<Rightarrow> sum_read_buffer" where
  "h_buf h bid = the (h_bufs h bid)"

definition set_buf :: "nat \<Rightarrow> sum_read_buffer \<Rightarrow> 'e heap \<Rightarrow> 'e heap" where
  "set_buf bid b h = h\<lparr>h_bufs := (h_bufs h)(bid \<mapsto> b)\<rparr>"

section \<open>Chunks\<close>

text \<open>\<open>make_shared<ReadRequestChunk>\<close> and with it \<open>make_shared<SumReadBuffer>\<close>.\<close>

definition ReadRequestChunk ::
  "nat \<Rightarrow> nat \<Rightarrow> 'e heap \<Rightarrow> exn + (read_request_chunk \<times> 'e heap)" where
  "ReadRequestChunk ads_port max_variables h =
     exn_bind (SumReadBuffer max_variables) (\<lambda>b.
       Inr (\<lparr> chunk_ads_port = u16 ads_port, chunk_variables = [], chunk_request = [],
              chunk_buffer = h_next_buf h \<rparr>,
            (set_buf (h_next_buf h) b h)\<lparr>h_next_buf := h_next_buf h + 1\<rparr>))"

text \<open>The first component is False when it throws, which \<open>allocate\<close> catches.\<close>

definition chunk_add_variable ::
  "(alloc_site \<Rightarrow> bool) \<Rightarrow> nat \<Rightarrow> read_request_chunk \<Rightarrow> 'e heap
     \<Rightarrow> bool \<times> read_request_chunk \<times> 'e heap" where
  "chunk_add_variable mem vid c h =
     (case buf_add_variable mem (chunk_buffer c) vid (h_vars h vid) (h_buf h (chunk_buffer c)) of
        (rc, v', b') \<Rightarrow>
          (let h1 = set_buf (chunk_buffer c) b' (upd_var vid (\<lambda>_. v') h) in
           if rc \<noteq> 0 then (False, c, h1)
           else if \<not> mem (Push_request (chunk_buffer c) vid) then (False, c, h1)
           else
             (let c1 = c\<lparr>chunk_request := chunk_request c @ [(0, 0, 0)]\<rparr> in
              if \<not> mem (Push_chunk_variable (chunk_buffer c) vid) then (False, c1, h1)
              else (True, c1\<lparr>chunk_variables := chunk_variables c1 @ [vid]\<rparr>, h1))))"

section \<open>The request\<close>

definition SumReadRequest :: "nat \<Rightarrow> bool \<Rightarrow> exn + sum_read_request" where
  "SumReadRequest max_variables_per_buffer has_connection =
     (if max_variables_per_buffer = 0
      then Inl (Invalid_argument ''max_variables_per_buffer must be larger than zero'')
      else if \<not> has_connection then Inl (Invalid_argument ''connection must be set'')
      else Inr \<lparr> req_max_vars = max_variables_per_buffer, req_allocated = False,
                 req_initialized = False, req_chunks = [] \<rparr>)"

definition get_chunks :: "sum_read_request \<Rightarrow> read_request_chunk list" where
  "get_chunks r = concat (map snd (req_chunks r))"

definition get_num_chunks :: "sum_read_request \<Rightarrow> nat" where
  "get_num_chunks r = length (get_chunks r)"

definition map_chunks ::
  "(read_request_chunk \<Rightarrow> read_request_chunk) \<Rightarrow> sum_read_request \<Rightarrow> sum_read_request" where
  "map_chunks f r = r\<lparr>req_chunks := map (\<lambda>(port, cs). (port, map f cs)) (req_chunks r)\<rparr>"

definition deinitialize :: "sum_read_request \<Rightarrow> int \<times> sum_read_request" where
  "deinitialize r =
     (0, (map_chunks (\<lambda>c. c\<lparr>chunk_request := map (\<lambda>_. (0, 0, 0)) (chunk_request c)\<rparr>) r)
           \<lparr>req_initialized := False\<rparr>)"

text \<open>The variables of a chunk lose their position; the chunk and its buffer are freed.\<close>

definition free_chunk :: "'e heap \<Rightarrow> read_request_chunk \<Rightarrow> 'e heap" where
  "free_chunk h c =
     (let h1 = foldl (\<lambda>h vid. upd_var vid (set_buffer_reader EMPTY_BUFFER_DATA_POSITION) h) h
                 (chunk_variables c)
      in h1\<lparr>h_bufs := (h_bufs h1)(chunk_buffer c := None)\<rparr>)"

definition deallocate :: "'e heap \<Rightarrow> sum_read_request \<Rightarrow> int \<times> 'e heap \<times> sum_read_request" where
  "deallocate h r =
     (let r1 = snd (deinitialize r) in
      (0, foldl free_chunk h (get_chunks r1), r1\<lparr>req_chunks := [], req_allocated := False\<rparr>))"

subsection \<open>Allocation\<close>

text \<open>The chunk set of a port, created empty if there is none.\<close>

definition find_or_create :: "nat \<Rightarrow> (nat, 'c list) smap \<Rightarrow> (nat, 'c list) smap" where
  "find_or_create p m = (if sm_find m p = None then sm_set p [] m else m)"

text \<open>A new chunk at the end of the set, if there is none or the last one is at capacity.\<close>

definition chunk_with_capacity ::
  "nat \<Rightarrow> nat \<Rightarrow> read_request_chunk list \<Rightarrow> 'e heap \<Rightarrow> exn + (read_request_chunk list \<times> 'e heap)" where
  "chunk_with_capacity ads_port n chunk_set h =
     (if chunk_set = [] \<or> at_capacity (h_buf h (chunk_buffer (last chunk_set)))
      then exn_bind (ReadRequestChunk ads_port n h) (\<lambda>(c, h1). Inr (chunk_set @ [c], h1))
      else Inr (chunk_set, h))"

text \<open>One variable: find or create its chunk set, find or create the chunk, add the variable.\<close>

definition allocate_var ::
  "(alloc_site \<Rightarrow> bool) \<Rightarrow> nat \<Rightarrow> 'e heap \<Rightarrow> sum_read_request
     \<Rightarrow> exn + (bool \<times> 'e heap \<times> sum_read_request)" where
  "allocate_var mem vid h r =
     (let ads_port = addr_ads_port (h_addr h vid);
          m1 = find_or_create ads_port (req_chunks r)
      in exn_bind (chunk_with_capacity ads_port (req_max_vars r) (sm_get [] m1 ads_port) h)
           (\<lambda>(cs, h1).
              case chunk_add_variable mem vid (last cs) h1 of (ok, c', h2) \<Rightarrow>
                Inr (ok, h2, r\<lparr>req_chunks := sm_set ads_port (butlast cs @ [c']) m1\<rparr>)))"

fun allocate_vars ::
  "(alloc_site \<Rightarrow> bool) \<Rightarrow> nat list \<Rightarrow> 'e heap \<Rightarrow> sum_read_request
     \<Rightarrow> exn + (bool \<times> 'e heap \<times> sum_read_request)" where
  "allocate_vars mem [] h r = Inr (True, h, r)"
| "allocate_vars mem (vid # vids) h r =
     exn_bind (allocate_var mem vid h r) (\<lambda>(ok, h1, r1).
       if ok then allocate_vars mem vids h1 r1 else Inr (False, h1, r1))"

fun initialize_buffers ::
  "(alloc_site \<Rightarrow> bool) \<Rightarrow> read_request_chunk list \<Rightarrow> 'e heap \<Rightarrow> bool \<times> 'e heap" where
  "initialize_buffers mem [] h = (True, h)"
| "initialize_buffers mem (c # cs) h =
     (case initialize_buffer mem (chunk_buffer c) (h_buf h (chunk_buffer c)) of (rc, b') \<Rightarrow>
        if rc \<noteq> 0 then (False, set_buf (chunk_buffer c) b' h)
        else initialize_buffers mem cs (set_buf (chunk_buffer c) b' h))"

definition allocate ::
  "(alloc_site \<Rightarrow> bool) \<Rightarrow> nat list \<Rightarrow> 'e heap \<Rightarrow> sum_read_request
     \<Rightarrow> exn + (int \<times> 'e heap \<times> sum_read_request)" where
  "allocate mem vids h r =
     (if req_allocated r then Inr (EPICSADS_INV_CALL, h, r)
      else exn_bind (allocate_vars mem vids h r) (\<lambda>(ok, h1, r1).
        case if ok then initialize_buffers mem (get_chunks r1) h1 else (False, h1) of (ok2, h2) \<Rightarrow>
          if ok2 then Inr (0, h2, r1\<lparr>req_allocated := True\<rparr>)
          else (case deallocate h2 r1 of (_, h3, r2) \<Rightarrow> Inr (EPICSADS_ERROR, h3, r2))))"

subsection \<open>Initialisation\<close>

text \<open>The loop over the variables of a chunk stops at the first unresolved one.\<close>

fun initialize_vars ::
  "'e heap \<Rightarrow> nat list \<Rightarrow> nat \<Rightarrow> symbol_info list \<Rightarrow> bool \<times> symbol_info list" where
  "initialize_vars h [] i q = (True, q)"
| "initialize_vars h (vid # vids) i q =
     (let a = h_addr h vid in
      if \<not> addr_name_is_resolved a then (False, q)
      else initialize_vars h vids (i + 1)
             (q[i := (addr_index_group a, addr_index_offset a, var_size (h_vars h vid))]))"

fun initialize_chunks ::
  "'e heap \<Rightarrow> read_request_chunk list \<Rightarrow> bool \<times> read_request_chunk list" where
  "initialize_chunks h [] = (True, [])"
| "initialize_chunks h (c # cs) =
     (case initialize_vars h (chunk_variables c) 0 (chunk_request c) of (ok, q) \<Rightarrow>
        let c' = c\<lparr>chunk_request := q\<rparr> in
        if \<not> ok then (False, c' # cs)
        else (case initialize_chunks h cs of (ok2, cs') \<Rightarrow> (ok2, c' # cs')))"

fun initialize_sets ::
  "'e heap \<Rightarrow> (nat, read_request_chunk list) smap \<Rightarrow> bool \<times> (nat, read_request_chunk list) smap" where
  "initialize_sets h [] = (True, [])"
| "initialize_sets h ((port, cs) # m) =
     (case initialize_chunks h cs of (ok, cs') \<Rightarrow>
        if \<not> ok then (False, (port, cs') # m)
        else (case initialize_sets h m of (ok2, m') \<Rightarrow> (ok2, (port, cs') # m')))"

definition initialize :: "'e heap \<Rightarrow> sum_read_request \<Rightarrow> int \<times> sum_read_request" where
  "initialize h r =
     (if \<not> req_allocated r then (EPICSADS_NOT_ALLOCATED, r)
      else if req_initialized r then (EPICSADS_INV_CALL, r)
      else
        (case initialize_sets h (req_chunks r) of (ok, m) \<Rightarrow>
           if \<not> ok then (EPICSADS_NOT_RESOLVED, r\<lparr>req_chunks := m\<rparr>)
           else (0, r\<lparr>req_chunks := m, req_initialized := True\<rparr>)))"

subsection \<open>Reading\<close>

definition set_buffers_state :: "buffer_state \<Rightarrow> sum_read_request \<Rightarrow> 'e heap \<Rightarrow> 'e heap" where
  "set_buffers_state st r h =
     foldl (\<lambda>h c. set_buf (chunk_buffer c) ((h_buf h (chunk_buffer c))\<lparr>buf_state := st\<rparr>) h) h
       (get_chunks r)"

definition encode_symbol_info :: "symbol_info \<Rightarrow> byte list" where
  "encode_symbol_info q = (case q of (g, off, len) \<Rightarrow> le_encode 4 g @ le_encode 4 off @ le_encode 4 len)"

text \<open>
  The request of one chunk; \<open>None\<close> is undefined behaviour in \<open>save_buffer\<close>. The first component
  of the result says whether \<open>read\<close> returns here.
\<close>

definition read_chunk ::
  "ads_def \<Rightarrow> 'e ads_lib \<Rightarrow> sum_read_request \<Rightarrow> read_request_chunk \<Rightarrow> 'e heap
     \<Rightarrow> (bool \<times> int \<times> 'e heap) option" where
  "read_chunk d lib r c h =
     Option.bind (save_buffer (h_buf h (chunk_buffer c))) (\<lambda>b.
       let h1 = set_buf (chunk_buffer c) b h;
           nelem = get_num_variables b;
           read_buffer_size = u32 (buf_buffer_size b);
           write_buffer_size = u32 (length (chunk_request c) * 12);
           write_buffer = concat (map encode_symbol_info (chunk_request c))
       in if \<not> buf_initialized b then Some (True, EPICSADS_NOT_INITIALIZED, h1)
          else
            (case AdsSyncReadWriteReqEx2 lib (h_env h1) (conn_ads_port (h_conn h1))
                    (remote_ams_netid (h_conn h1), chunk_ads_port c) (ADSIGRP_SUMUP_READ d) nelem
                    read_buffer_size (take write_buffer_size write_buffer) of
               (rc, resp, e1) \<Rightarrow>
                 (let b1 = store_response read_buffer_size resp b;
                      h2 = (set_buf (chunk_buffer c) b1 h1)\<lparr>h_env := e1\<rparr>
                  in if rc \<noteq> 0
                     then Some (True, ads_rc_to_epicsads_error d rc, set_buffers_state Buf_Invalid r h2)
                     else Some (False, 0, set_buf (chunk_buffer c) (b1\<lparr>buf_state := Buf_Valid\<rparr>) h2))))"

fun read_chunks ::
  "ads_def \<Rightarrow> 'e ads_lib \<Rightarrow> sum_read_request \<Rightarrow> read_request_chunk list \<Rightarrow> 'e heap \<Rightarrow> (int \<times> 'e heap) option" where
  "read_chunks d lib r [] h = Some (0, h)"
| "read_chunks d lib r (c # cs) h =
     Option.bind (read_chunk d lib r c h) (\<lambda>(returns, rc, h1).
       if returns then Some (rc, h1) else read_chunks d lib r cs h1)"

definition sum_read ::
  "ads_def \<Rightarrow> 'e ads_lib \<Rightarrow> 'e heap \<Rightarrow> sum_read_request \<Rightarrow> (int \<times> 'e heap) option" where
  "sum_read d lib h r =
     (if \<not> req_initialized r then Some (EPICSADS_INV_CALL, h)
      else read_chunks d lib r (get_chunks r) h)"

end
