(* ===== verification/Request_Inv.thy ===== *)
theory Request_Inv
  imports Sum_Read_Request
begin

text \<open>
  The invariant of a sum-read request, and that building one up variable by variable keeps it:
  the chunks own pairwise different buffers and hold pairwise different variables, each variable
  points to its own slot of its chunk's buffer, and is asked for on the port of its chunk.
\<close>

definition h_size :: "'e heap \<Rightarrow> nat \<Rightarrow> nat" where
  "h_size h vid = var_size (h_vars h vid)"

definition h_reader :: "'e heap \<Rightarrow> nat \<Rightarrow> buffer_position" where
  "h_reader h vid = var_buffer_reader (h_vars h vid)"

text \<open>A chunk and its buffer; \<open>n\<close> is the largest number of variables of a buffer.\<close>

definition chunk_ok :: "'e heap \<Rightarrow> nat \<Rightarrow> read_request_chunk \<Rightarrow> bool" where
  "chunk_ok h n c \<longleftrightarrow>
     h_bufs h (chunk_buffer c) \<noteq> None
     \<and> chunk_buffer c < h_next_buf h
     \<and> length (chunk_request c) = length (chunk_variables c)
     \<and> (\<forall>vid \<in> set (chunk_variables c). addr_ads_port (h_addr h vid) = chunk_ads_port c)
     \<and> (let b = h_buf h (chunk_buffer c) in
          buf_inv (h_size h) b \<and> buf_variables b = chunk_variables c
          \<and> buf_max_nvariables b = n \<and> buf_soft_limit b = 1000000
          \<and> (\<forall>M. (\<forall>vid \<in> set (chunk_variables c). h_size h vid \<le> M) \<longrightarrow>
                 buf_next_data_offset b \<le> 999999 + M)
          \<and> (\<forall>i < length (chunk_variables c). h_reader h (chunk_variables c ! i) =
               \<lparr> pos_buffer = Some (chunk_buffer c), pos_off_result = i,
                  pos_off_data = slot_offset (h_size h) b i \<rparr>))"

definition chunks_ok :: "'e heap \<Rightarrow> nat \<Rightarrow> read_request_chunk list \<Rightarrow> bool" where
  "chunks_ok h n cs \<longleftrightarrow> distinct (map chunk_buffer cs)
     \<and> distinct (concat (map chunk_variables cs)) \<and> (\<forall>c \<in> set cs. chunk_ok h n c)"

definition all_bufs :: "(sum_read_buffer \<Rightarrow> bool) \<Rightarrow> 'e heap \<Rightarrow> read_request_chunk list \<Rightarrow> bool" where
  "all_bufs P h cs \<longleftrightarrow> (\<forall>c \<in> set cs. P (h_buf h (chunk_buffer c)))"

definition req_variables :: "sum_read_request \<Rightarrow> nat list" where
  "req_variables r = concat (map chunk_variables (get_chunks r))"

definition req_buffers :: "sum_read_request \<Rightarrow> nat list" where
  "req_buffers r = map chunk_buffer (get_chunks r)"

definition req_ok :: "'e heap \<Rightarrow> sum_read_request \<Rightarrow> bool" where
  "req_ok h r \<longleftrightarrow> sm_invar (req_chunks r) \<and> 0 < req_max_vars r \<and> req_max_vars r < 2 ^ 16
     \<and> chunks_ok h (req_max_vars r) (get_chunks r)
     \<and> (\<forall>(port, cs) \<in> set (req_chunks r). \<forall>c \<in> set cs. chunk_ads_port c = u16 port)"

section \<open>Changes that a chunk does not see\<close>

lemma buf_inv_cong:
  "(\<And>v. v \<in> set (buf_variables b) \<Longrightarrow> sz v = sz' v) \<Longrightarrow> buf_inv sz b = buf_inv sz' b"
  unfolding buf_inv_def by (simp cong: map_cong)

lemma slot_offset_cong:
  "(\<And>v. v \<in> set (buf_variables b) \<Longrightarrow> sz v = sz' v) \<Longrightarrow> slot_offset sz b i = slot_offset sz' b i"
proof -
  assume eq: "\<And>v. v \<in> set (buf_variables b) \<Longrightarrow> sz v = sz' v"
  have "map sz (take i (buf_variables b)) = map sz' (take i (buf_variables b))"
    using eq by (auto dest: in_set_takeD)
  then show ?thesis unfolding slot_offset_def by (rule arg_cong)
qed

text \<open>What a chunk sees of a variable: size, reader and port.\<close>

definition same_view :: "ads_variable \<Rightarrow> ads_variable \<Rightarrow> bool" where
  "same_view v v' \<longleftrightarrow> var_size v' = var_size v \<and> var_buffer_reader v' = var_buffer_reader v
     \<and> addr_ads_port (var_addr v') = addr_ads_port (var_addr v)"

lemma same_view_refl [simp]: "same_view v v"
  by (simp add: same_view_def)

lemma chunk_ok_cong:
  assumes "chunk_ok h n c"
    and "h_bufs h' (chunk_buffer c) = h_bufs h (chunk_buffer c)" and "h_next_buf h \<le> h_next_buf h'"
    and "\<And>vid. vid \<in> set (chunk_variables c) \<Longrightarrow> same_view (h_vars h vid) (h_vars h' vid)"
  shows "chunk_ok h' n c"
proof -
  let ?b = "h_buf h (chunk_buffer c)"
  have vs: "buf_variables ?b = chunk_variables c" using assms(1) by (simp add: chunk_ok_def Let_def)
  have sz: "h_size h vid = h_size h' vid" "h_reader h vid = h_reader h' vid"
      "addr_ads_port (h_addr h vid) = addr_ads_port (h_addr h' vid)" if "vid \<in> set (chunk_variables c)" for vid
    using assms(4) [OF that] by (simp_all add: same_view_def h_size_def h_reader_def h_addr_def)
  have b: "h_buf h' (chunk_buffer c) = ?b" using assms(2) by (simp add: h_buf_def)
  have "buf_inv (h_size h) ?b = buf_inv (h_size h') ?b"
    "slot_offset (h_size h) ?b i = slot_offset (h_size h') ?b i" for i
    using sz vs by (intro buf_inv_cong slot_offset_cong; simp)+
  with assms sz b show ?thesis by (simp add: chunk_ok_def Let_def)
qed

text \<open>
  What an operation on a chunk's buffer must keep: the layout, and the invariant.
\<close>

lemma chunk_ok_set_buf:
  assumes "chunk_ok h n c" and "buf_inv (h_size h) b'"
    and "buf_variables b' = buf_variables (h_buf h (chunk_buffer c))"
    and "buf_max_nvariables b' = buf_max_nvariables (h_buf h (chunk_buffer c))"
    and "buf_soft_limit b' = buf_soft_limit (h_buf h (chunk_buffer c))"
  shows "chunk_ok (set_buf (chunk_buffer c) b' h) n c"
proof -
  let ?b = "h_buf h (chunk_buffer c)"
  have "buf_next_data_offset b' = buf_next_data_offset ?b"
    using assms(1,2,3) by (simp add: buf_inv_def chunk_ok_def Let_def)
  moreover have "h_size (set_buf (chunk_buffer c) b' h) = h_size h"
    by (simp add: h_size_def set_buf_def fun_eq_iff)
  moreover have "slot_offset (h_size h) b' i = slot_offset (h_size h) ?b i" for i
    using assms(3) by (simp add: slot_offset_def)
  ultimately show ?thesis using assms
    by (simp add: chunk_ok_def Let_def set_buf_def h_buf_def h_reader_def h_addr_def)
qed

lemma set_buf_simps [simp]:
  "h_vars (set_buf bid b h) = h_vars h" "h_env (set_buf bid b h) = h_env h"
  "h_conn (set_buf bid b h) = h_conn h" "h_next_buf (set_buf bid b h) = h_next_buf h"
  "h_bufs (set_buf bid b h) = (h_bufs h)(bid \<mapsto> b)"
  "h_buf (set_buf bid b h) bid' = (if bid' = bid then b else h_buf h bid')"
  "h_addr (set_buf bid b h) = h_addr h" "h_size (set_buf bid b h) = h_size h"
  "h_reader (set_buf bid b h) = h_reader h"
  by (simp_all add: set_buf_def h_buf_def h_addr_def h_size_def h_reader_def fun_eq_iff)

lemma chunks_ok_split:
  "chunks_ok h n (X @ c # Y) \<longleftrightarrow> chunk_ok h n c \<and> chunks_ok h n (X @ Y)
     \<and> (\<forall>c' \<in> set (X @ Y). chunk_buffer c' \<noteq> chunk_buffer c
          \<and> set (chunk_variables c') \<inter> set (chunk_variables c) = {})
     \<and> distinct (chunk_variables c)"
proof -
  have "chunk_buffer c \<notin> chunk_buffer ` S \<longleftrightarrow> (\<forall>c' \<in> S. chunk_buffer c' \<noteq> chunk_buffer c)" for S
    by (metis imageE image_eqI)
  then show ?thesis by (auto simp: chunks_ok_def)
qed

section \<open>Adding a variable to a chunk\<close>

definition request_mem :: "(alloc_site \<Rightarrow> bool) \<Rightarrow> bool" where
  "request_mem mem \<longleftrightarrow> (\<forall>bid vid. mem (Push_request bid vid) \<and> mem (Push_chunk_variable bid vid))"

lemma chunk_add_ok:
  assumes c: "chunk_ok h n c" and new: "vid \<notin> set (chunk_variables c)"
    and port: "addr_ads_port (h_addr h vid) = chunk_ads_port c"
    and mem: "request_mem mem" and add: "chunk_add_variable mem vid c h = (True, c', h')"
  shows "chunk_ok h' n c'" and "chunk_buffer c' = chunk_buffer c"
    and "chunk_ads_port c' = chunk_ads_port c" and "chunk_variables c' = chunk_variables c @ [vid]"
    and "\<exists>pos. h_vars h' = (h_vars h)(vid := set_buffer_reader pos (h_vars h vid))"
    and "h_next_buf h' = h_next_buf h" and "h_env h' = h_env h" and "h_conn h' = h_conn h"
    and "bid \<noteq> chunk_buffer c \<Longrightarrow> h_bufs h' bid = h_bufs h bid"
    and "\<not> buf_initialized (h_buf h' (chunk_buffer c))"
    and "buf_state (h_buf h' (chunk_buffer c)) = buf_state (h_buf h (chunk_buffer c))"
proof -
  let ?b = "h_buf h (chunk_buffer c)"
  obtain v' b' where a: "buf_add_variable mem (chunk_buffer c) vid (h_vars h vid) ?b = (0, v', b')"
    and h': "h' = set_buf (chunk_buffer c) b' (upd_var vid (\<lambda>_. v') h)"
    and c': "c' = c\<lparr>chunk_request := chunk_request c @ [(0, 0, 0)],
               chunk_variables := chunk_variables c @ [vid]\<rparr>"
    using add mem by (auto simp: chunk_add_variable_def Let_def split: prod.splits if_splits)
  have inv: "buf_inv (h_size h) ?b" and vs: "buf_variables ?b = chunk_variables c"
    using c by (simp_all add: chunk_ok_def Let_def)
  have size: "h_size h vid = var_size (h_vars h vid)" by (simp add: h_size_def)
  note ok = buf_add_ok [OF inv size a]
  have v': "v' = set_buffer_reader \<lparr> pos_buffer = Some (chunk_buffer c),
      pos_off_result = length (chunk_variables c), pos_off_data = slot_offset (h_size h) b' (length (chunk_variables c)) \<rparr>
      (h_vars h vid)"
    using ok(1,3) vs by (simp add: slot_offset_def)
  have sz: "h_size h' = h_size h"
    using v' by (simp add: h' h_size_def fun_eq_iff set_buffer_reader_def frame_simps)
  have b': "h_buf h' (chunk_buffer c) = b'" by (simp add: h')
  have frame: "buf_max_nvariables b' = buf_max_nvariables ?b" "buf_soft_limit b' = buf_soft_limit ?b"
    using a by (auto simp: buf_add_variable_def Let_def split: if_splits)
  have "buf_next_data_offset ?b < 1000000"
    using ok(4) inv c by (simp add: at_capacity_def chunk_ok_def Let_def)
  moreover have "buf_next_data_offset b' = buf_next_data_offset ?b + h_size h vid"
    using ok(1,2) inv by (simp add: buf_inv_def)
  ultimately have bound: "buf_next_data_offset b' \<le> 999999 + M" if "h_size h vid \<le> M" for M
    using that by simp
  have reader: "h_reader h' ((chunk_variables c @ [vid]) ! i) =
      \<lparr> pos_buffer = Some (chunk_buffer c), pos_off_result = i, pos_off_data = slot_offset (h_size h) b' i \<rparr>"
    if "i < length (chunk_variables c @ [vid])" for i
  proof (cases "i = length (chunk_variables c)")
    case True
    then show ?thesis using v' by (simp add: h_reader_def h' set_buffer_reader_def)
  next
    case False
    with that have i: "i < length (chunk_variables c)" by simp
    moreover from i have "chunk_variables c ! i \<noteq> vid" using new by auto
    moreover have "slot_offset (h_size h) b' i = slot_offset (h_size h) ?b i"
      using ok(1) vs i by (simp add: slot_offset_def)
    ultimately show ?thesis
      using c by (simp add: chunk_ok_def Let_def nth_append h_reader_def h')
  qed
  have addr: "h_addr h' = h_addr h" using v' by (simp add: h_addr_def h' fun_eq_iff set_buffer_reader_def)
  show "chunk_ok h' n c'"
    using c port ok(1,2) vs bound reader frame
    by (auto simp: chunk_ok_def Let_def c' sz b' addr) (simp_all add: h')
  show "\<exists>pos. h_vars h' = (h_vars h)(vid := set_buffer_reader pos (h_vars h vid))"
    using v' by (auto simp: h')
  show "\<not> buf_initialized (h_buf h' (chunk_buffer c))"
    "buf_state (h_buf h' (chunk_buffer c)) = buf_state ?b"
    using ok(6,7) by (simp_all add: b')
qed (use add in \<open>auto simp: chunk_add_variable_def Let_def split: prod.splits if_splits\<close>)

text \<open>A refused variable leaves everything as it was.\<close>

lemma chunk_add_refused:
  assumes "chunk_ok h n c" and "request_mem mem" and "chunk_add_variable mem vid c h = (False, c', h')"
  shows "c' = c" and "h' = h"
proof -
  obtain rc v' b' where a: "buf_add_variable mem (chunk_buffer c) vid (h_vars h vid)
      (h_buf h (chunk_buffer c)) = (rc, v', b')" "rc \<noteq> 0"
    and eq: "c' = c" "h' = set_buf (chunk_buffer c) b' (upd_var vid (\<lambda>_. v') h)"
    using assms(2,3) by (auto simp: chunk_add_variable_def request_mem_def Let_def split: prod.splits if_splits)
  from a have "v' = h_vars h vid" "b' = h_buf h (chunk_buffer c)"
    using buf_add_refused by blast+
  moreover have "h_bufs h (chunk_buffer c) = Some (h_buf h (chunk_buffer c))"
    using assms(1) by (auto simp: chunk_ok_def h_buf_def)
  ultimately show "c' = c" "h' = h" using eq by (simp_all add: set_buf_def upd_var_def fun_upd_idem)
qed

text \<open>With enough memory a chunk that is not at capacity takes the variable.\<close>

lemma chunk_add_succeeds:
  assumes "chunk_ok h n c" and "mem = (\<lambda>_. True)"
    and "\<not> at_capacity (h_buf h (chunk_buffer c))" and "\<not> buf_initialized (h_buf h (chunk_buffer c))"
  shows "fst (chunk_add_variable mem vid c h)"
proof -
  let ?b = "h_buf h (chunk_buffer c)"
  have inv: "buf_inv (h_size h) ?b" using assms(1) by (simp add: chunk_ok_def Let_def)
  then have "buf_next_data_offset ?b < 1000000" "length (buf_variables ?b) < 65536"
    using assms(1,3) by (auto simp: at_capacity_def chunk_ok_def Let_def buf_inv_def)
  then have "buf_buffer_size ?b + 4294967300 \<le> 2 ^ 64" using inv by (simp add: buf_inv_def)
  then have "fst (buf_add_variable mem (chunk_buffer c) vid (h_vars h vid) ?b) = 0"
    using buf_add_succeeds [OF inv assms(3,4)] assms(2) by simp
  then show ?thesis using assms(2) by (auto simp: chunk_add_variable_def Let_def split: prod.splits)
qed

end
