(* ===== verification/Request_Alloc.thy ===== *)
theory Request_Alloc
  imports Request_Inv
begin

text \<open>
  \<open>allocate\<close> and \<open>deallocate\<close>: allocation keeps the invariant at every step and ends with all
  variables in chunks, or undoes everything.
\<close>

section \<open>The map of chunk sets\<close>

lemma sm_set_split:
  assumes "sm_invar m" and "sm_find m p = Some v"
  shows "\<exists>A B. m = A @ (p, v) # B \<and> (\<forall>v'. sm_set p v' m = A @ (p, v') # B)"
  using assms
proof (induction m)
  case Nil
  then show ?case by (simp add: sm_find_def)
next
  case (Cons e m)
  obtain k w where e: "e = (k, w)" by (cases e)
  show ?case
  proof (cases "k = p")
    case True
    then have "w = v" using Cons.prems e by (simp add: sm_find_def)
    with True e show ?thesis by (intro exI [of _ "[]"] exI [of _ m]) simp
  next
    case False
    then have "sm_find m p = Some v" using Cons.prems e by (simp add: sm_find_def)
    moreover from this have "k < p" using Cons.prems(1) e
      by (force simp: sm_invar_Cons sm_find_def dest: map_of_SomeD)
    moreover have "sm_invar m" using Cons.prems(1) e by (simp add: sm_invar_Cons)
    ultimately obtain A B where "m = A @ (p, v) # B" "\<forall>v'. sm_set p v' m = A @ (p, v') # B"
      using Cons.IH by blast
    with \<open>k < p\<close> e show ?thesis by (intro exI [of _ "e # A"] exI [of _ B]) auto
  qed
qed

lemma sm_set_new:
  assumes "sm_invar m" and "sm_find m p = None"
  shows "\<exists>A B. m = A @ B \<and> sm_set p v m = A @ (p, v) # B"
  using assms
proof (induction m)
  case Nil
  then show ?case by simp
next
  case (Cons e m)
  obtain k w where e: "e = (k, w)" by (cases e)
  have kp: "k \<noteq> p" and m: "sm_invar m" "sm_find m p = None"
    using Cons.prems e by (auto simp: sm_find_def sm_invar_Cons split: if_splits)
  show ?case
  proof (cases "p < k")
    case True
    with e show ?thesis by (intro exI [of _ "[]"] exI [of _ "e # m"]) simp
  next
    case False
    from Cons.IH [OF m] obtain A B where "m = A @ B" "sm_set p v m = A @ (p, v) # B" by blast
    with False kp e show ?thesis by (intro exI [of _ "e # A"] exI [of _ B]) auto
  qed
qed

lemma find_or_create_ok:
  assumes "sm_invar m"
  obtains A B where "sm_invar (find_or_create p m)"
    and "\<And>v. sm_set p v (find_or_create p m) = A @ (p, v) # B"
    and "concat (map snd m)
      = concat (map snd A) @ sm_get [] (find_or_create p m) p @ concat (map snd B)"
    and "\<And>k cs c. (k, cs) \<in> set A \<union> set B \<union> {(p, sm_get [] (find_or_create p m) p)} \<Longrightarrow> c \<in> set cs
      \<Longrightarrow> (k, cs) \<in> set m"
proof (cases "sm_find m p")
  case None
  then obtain A B where m: "m = A @ B" and s: "sm_set p [] m = A @ (p, []) # B"
    using sm_set_new [OF assms] by blast
  have fc: "find_or_create p m = A @ (p, []) # B" using None s by (simp add: find_or_create_def)
  have inv: "sm_invar (find_or_create p m)" using assms None
    by (simp add: find_or_create_def sm_invar_set)
  have f: "sm_find (find_or_create p m) p = Some []"
    using assms None by (simp add: find_or_create_def sm_find_def map_of_set)
  obtain A' B' where ab: "find_or_create p m = A' @ (p, []) # B'"
      "\<forall>v'. sm_set p v' (find_or_create p m) = A' @ (p, v') # B'"
    using sm_set_split [OF inv f] by blast
  have c: "concat (map snd m) = concat (map snd (find_or_create p m))" using m fc by simp
  have sub: "set (find_or_create p m) = insert (p, []) (set m)" using m fc by auto
  show ?thesis
  proof (rule that [of A' B'])
    fix k cs c assume "(k, cs) \<in> set A' \<union> set B' \<union> {(p, sm_get [] (find_or_create p m) p)}" "c \<in> set cs"
    then have "(k, cs) \<in> set (find_or_create p m)" "cs \<noteq> []"
      using ab f by (auto simp: sm_get_def)
    then show "(k, cs) \<in> set m" using sub by auto
  qed (use inv ab f c in \<open>auto simp: sm_get_def\<close>)
next
  case (Some v)
  then obtain A B where "m = A @ (p, v) # B" "\<forall>v'. sm_set p v' m = A @ (p, v') # B"
    using sm_set_split [OF assms] by blast
  with Some assms show ?thesis
    by (intro that [of A B]) (auto simp: find_or_create_def sm_get_def)
qed

section \<open>Steps of the allocation\<close>

definition grown ::
  "'e heap \<Rightarrow> sum_read_request \<Rightarrow> 'e heap \<Rightarrow> sum_read_request \<Rightarrow> bool" where
  "grown h r h' r' \<longleftrightarrow>
     h_env h' = h_env h \<and> h_conn h' = h_conn h \<and> h_next_buf h \<le> h_next_buf h'
     \<and> req_max_vars r' = req_max_vars r \<and> req_allocated r' = req_allocated r
     \<and> req_initialized r' = req_initialized r
     \<and> (\<forall>bid. bid \<notin> set (req_buffers r') \<longrightarrow> h_bufs h' bid = h_bufs h bid)
     \<and> set (req_buffers r) \<subseteq> set (req_buffers r')
     \<and> (\<forall>bid \<in> set (req_buffers r'). bid \<in> set (req_buffers r) \<or> h_next_buf h \<le> bid)
     \<and> set (req_variables r) \<subseteq> set (req_variables r')
     \<and> (\<forall>v. \<exists>pos. h_vars h' v = set_buffer_reader pos (h_vars h v))
     \<and> (\<forall>v. v \<notin> set (req_variables r') \<or> v \<in> set (req_variables r) \<longrightarrow> h_vars h' v = h_vars h v)"

lemma set_buffer_reader_refl: "\<exists>pos. v = set_buffer_reader pos v"
  by (rule exI [of _ "var_buffer_reader v"]) (simp add: set_buffer_reader_def)

lemma grown_refl [simp]: "grown h r h r"
  by (simp add: grown_def set_buffer_reader_refl)

lemma grown_trans:
  assumes "grown h r h1 r1" and "grown h1 r1 h2 r2"
  shows "grown h r h2 r2"
proof -
  have "\<exists>pos. h_vars h2 v = set_buffer_reader pos (h_vars h v)" for v
  proof -
    obtain p q where "h_vars h1 v = set_buffer_reader p (h_vars h v)"
      "h_vars h2 v = set_buffer_reader q (h_vars h1 v)"
      using assms unfolding grown_def by meson
    then show ?thesis by (intro exI [of _ q]) (simp add: set_buffer_reader_def)
  qed
  with assms show ?thesis unfolding grown_def
    by (simp add: subset_iff) (metis le_trans)
qed

lemma chunks_ok_cong:
  assumes "chunks_ok h n cs" and "h_next_buf h \<le> h_next_buf h'"
    and "\<And>c. c \<in> set cs \<Longrightarrow> h_bufs h' (chunk_buffer c) = h_bufs h (chunk_buffer c)"
    and "\<And>c vid. c \<in> set cs \<Longrightarrow> vid \<in> set (chunk_variables c) \<Longrightarrow> same_view (h_vars h vid) (h_vars h' vid)"
  shows "chunks_ok h' n cs"
  using assms unfolding chunks_ok_def by (auto intro: chunk_ok_cong)

lemma new_chunk_ok:
  assumes ok: "chunks_ok h n (X @ Y)" and n: "0 < n" "n < 2 ^ 16" and c: "ReadRequestChunk port n h = Inr (c, h1)"
  shows "chunks_ok h1 n (X @ c # Y)" and "chunk_buffer c = h_next_buf h" and "chunk_variables c = []"
    and "chunk_ads_port c = u16 port" and "h_vars h1 = h_vars h" and "h_env h1 = h_env h"
    and "h_conn h1 = h_conn h" and "h_next_buf h1 = h_next_buf h + 1"
    and "bid \<noteq> h_next_buf h \<Longrightarrow> h_bufs h1 bid = h_bufs h bid"
    and "\<not> buf_initialized (h_buf h1 (chunk_buffer c))" and "buf_state (h_buf h1 (chunk_buffer c)) = Buf_Invalid"
    and "\<not> at_capacity (h_buf h1 (chunk_buffer c))"
proof -
  obtain b where b: "SumReadBuffer n = Inr b"
    and c': "c = \<lparr> chunk_ads_port = u16 port, chunk_variables = [], chunk_request = [],
              chunk_buffer = h_next_buf h \<rparr>"
    and h1: "h1 = (set_buf (h_next_buf h) b h)\<lparr>h_next_buf := h_next_buf h + 1\<rparr>"
    using c by (auto simp: ReadRequestChunk_def exn_bind_eq_Inr)
  have fresh: "chunk_buffer c'' \<noteq> h_next_buf h" if "c'' \<in> set (X @ Y)" for c''
  proof -
    have "chunk_ok h n c''" using ok that by (simp add: chunks_ok_def)
    then show ?thesis by (simp add: chunk_ok_def)
  qed
  have "chunk_ok h1 n c"
    using b n buf_inv_new [OF b, of "h_size h1"]
    by (auto simp: chunk_ok_def c' h1 h_buf_def SumReadBuffer_def split: if_splits)
  moreover have "chunks_ok h1 n (X @ Y)"
    using ok fresh by (intro chunks_ok_cong [OF ok]) (auto simp: h1 fresh)
  moreover have "\<forall>c'' \<in> set (X @ Y). chunk_buffer c'' \<noteq> chunk_buffer c"
    using fresh by (simp add: c')
  ultimately show "chunks_ok h1 n (X @ c # Y)" by (simp add: chunks_ok_split c')
  show "\<not> buf_initialized (h_buf h1 (chunk_buffer c))" "buf_state (h_buf h1 (chunk_buffer c)) = Buf_Invalid"
    "\<not> at_capacity (h_buf h1 (chunk_buffer c))"
    using b n by (auto simp: c' h1 h_buf_def SumReadBuffer_def at_capacity_def data_size_def
        results_size_def get_num_variables_def u32_def u64_def sub64_def split: if_splits)
qed (use c in \<open>auto simp: ReadRequestChunk_def exn_bind_eq_Inr\<close>)

definition blank :: "sum_read_buffer \<Rightarrow> bool" where
  "blank b \<longleftrightarrow> \<not> buf_initialized b \<and> buf_state b = Buf_Invalid"

lemma chunk_with_capacity_ok:
  assumes ok: "chunks_ok h n (CA @ cs0 @ CB)" and n: "0 < n" "n < 2 ^ 16"
    and run: "chunk_with_capacity p n cs0 h = Inr (cs, h1)"
  shows "cs \<noteq> []" and "chunks_ok h1 n (CA @ cs @ CB)"
    and "h_vars h1 = h_vars h" and "h_env h1 = h_env h" and "h_conn h1 = h_conn h"
    and "h_next_buf h \<le> h_next_buf h1" and "\<not> at_capacity (h_buf h1 (chunk_buffer (last cs)))"
    and "all_bufs blank h (CA @ cs0 @ CB) \<Longrightarrow> all_bufs blank h1 (CA @ cs @ CB)"
    and "cs = cs0 \<and> h1 = h \<or> (\<exists>c. cs = cs0 @ [c] \<and> chunk_buffer c = h_next_buf h
           \<and> chunk_variables c = [] \<and> chunk_ads_port c = u16 p)"
    and "bid \<notin> chunk_buffer ` set cs \<Longrightarrow> h_bufs h1 bid = h_bufs h bid"
proof -
  have "cs \<noteq> [] \<and> chunks_ok h1 n (CA @ cs @ CB) \<and> h_vars h1 = h_vars h \<and> h_env h1 = h_env h
    \<and> h_conn h1 = h_conn h \<and> h_next_buf h \<le> h_next_buf h1
    \<and> \<not> at_capacity (h_buf h1 (chunk_buffer (last cs)))
    \<and> (all_bufs blank h (CA @ cs0 @ CB) \<longrightarrow> all_bufs blank h1 (CA @ cs @ CB))
    \<and> (cs = cs0 \<and> h1 = h \<or> (\<exists>c. cs = cs0 @ [c] \<and> chunk_buffer c = h_next_buf h
           \<and> chunk_variables c = [] \<and> chunk_ads_port c = u16 p))
    \<and> (\<forall>bid. bid \<notin> chunk_buffer ` set cs \<longrightarrow> h_bufs h1 bid = h_bufs h bid)"
  proof (cases "cs0 = [] \<or> at_capacity (h_buf h (chunk_buffer (last cs0)))")
    case False
    with run ok show ?thesis by (auto simp: chunk_with_capacity_def)
  next
    case True
    then obtain c where c: "ReadRequestChunk p n h = Inr (c, h1)" and cs: "cs = cs0 @ [c]"
      using run by (auto simp: chunk_with_capacity_def exn_bind_eq_Inr)
    have "chunks_ok h n ((CA @ cs0) @ CB)" using ok by simp
    note new = new_chunk_ok [OF this n c]
    have keep: "h_buf h1 (chunk_buffer c') = h_buf h (chunk_buffer c')" if "c' \<in> set (CA @ cs0 @ CB)" for c'
    proof -
      have "chunk_ok h n c'" using ok that by (simp add: chunks_ok_def)
      then show ?thesis using new(9) [of "chunk_buffer c'"] by (simp add: chunk_ok_def h_buf_def)
    qed
    show ?thesis using new keep by (auto simp: cs all_bufs_def blank_def)
  qed
  then show "cs \<noteq> []" "chunks_ok h1 n (CA @ cs @ CB)" "h_vars h1 = h_vars h" "h_env h1 = h_env h"
    "h_conn h1 = h_conn h" "h_next_buf h \<le> h_next_buf h1"
    "\<not> at_capacity (h_buf h1 (chunk_buffer (last cs)))"
    "all_bufs blank h (CA @ cs0 @ CB) \<Longrightarrow> all_bufs blank h1 (CA @ cs @ CB)"
    "cs = cs0 \<and> h1 = h \<or> (\<exists>c. cs = cs0 @ [c] \<and> chunk_buffer c = h_next_buf h
           \<and> chunk_variables c = [] \<and> chunk_ads_port c = u16 p)"
    "bid \<notin> chunk_buffer ` set cs \<Longrightarrow> h_bufs h1 bid = h_bufs h bid" by blast+
qed

text \<open>The chunk that takes the variable, among the others.\<close>

lemma chunks_add_ok:
  assumes ok: "chunks_ok h n (X @ c # Y)"
    and new: "vid \<notin> set (concat (map chunk_variables (X @ c # Y)))"
    and port: "addr_ads_port (h_addr h vid) = chunk_ads_port c" and mem: "request_mem mem"
    and add: "chunk_add_variable mem vid c h = (True, c', h')"
  shows "chunks_ok h' n (X @ c' # Y)"
    and "all_bufs blank h (X @ c # Y) \<Longrightarrow> all_bufs blank h' (X @ c' # Y)"
proof -
  have c: "chunk_ok h n c" and rest: "chunks_ok h n (X @ Y)"
    and apart: "\<And>c''. c'' \<in> set (X @ Y) \<Longrightarrow> chunk_buffer c'' \<noteq> chunk_buffer c
          \<and> set (chunk_variables c'') \<inter> set (chunk_variables c) = {}"
    using ok by (auto simp: chunks_ok_split)
  have "vid \<notin> set (chunk_variables c)" using new by simp
  note a = chunk_add_ok [OF c this port mem add]
  have "chunks_ok h' n (X @ Y)"
    using rest a(5,6,9) apart new by (intro chunks_ok_cong [OF rest]) (auto split: if_splits)
  then show "chunks_ok h' n (X @ c' # Y)"
    using a(1,2,4) apart new ok by (auto simp: chunks_ok_split)
  assume blank: "all_bufs blank h (X @ c # Y)"
  show "all_bufs blank h' (X @ c' # Y)"
    unfolding all_bufs_def
  proof
    fix c'' assume c'': "c'' \<in> set (X @ c' # Y)"
    show "blank (h_buf h' (chunk_buffer c''))"
    proof (cases "c'' = c'")
      case True
      then show ?thesis using a(2,10,11) blank by (simp add: blank_def all_bufs_def)
    next
      case False
      then have "c'' \<in> set (X @ Y)" using c'' by auto
      then show ?thesis using a(9) apart blank by (auto simp: h_buf_def all_bufs_def)
    qed
  qed
qed

definition no_empty_chunk :: "sum_read_request \<Rightarrow> bool" where
  "no_empty_chunk r \<longleftrightarrow> (\<forall>c \<in> set (get_chunks r). chunk_variables c \<noteq> [])"

text \<open>The step in terms of the chunk list: the chunks before, the chunk that gets the variable, the rest.\<close>

lemma allocate_var_cases:
  assumes ok: "req_ok h r" and port: "addr_ads_port (h_addr h vid) < 2 ^ 16"
    and run: "allocate_var mem vid h r = Inr (added, h', r')"
  obtains CA cs0 CB cs h1 c' where "get_chunks r = CA @ cs0 @ CB"
    and "chunk_with_capacity (addr_ads_port (h_addr h vid)) (req_max_vars r) cs0 h = Inr (cs, h1)"
    and "chunk_add_variable mem vid (last cs) h1 = (added, c', h')"
    and "cs \<noteq> []" and "get_chunks r' = CA @ butlast cs @ c' # CB"
    and "chunk_ads_port (last cs) = addr_ads_port (h_addr h vid)"
    and "sm_invar (req_chunks r')"
    and "chunk_ads_port c' = chunk_ads_port (last cs) \<longrightarrow>
      (\<forall>(port, cs) \<in> set (req_chunks r'). \<forall>c \<in> set cs. chunk_ads_port c = u16 port)"
    and "req_max_vars r' = req_max_vars r" and "req_allocated r' = req_allocated r"
    and "req_initialized r' = req_initialized r"
proof -
  let ?p = "addr_ads_port (h_addr h vid)"
  let ?m1 = "find_or_create ?p (req_chunks r)"
  let ?cs0 = "sm_get [] ?m1 ?p"
  have inv: "sm_invar (req_chunks r)" and chunks: "chunks_ok h (req_max_vars r) (get_chunks r)"
    and n: "0 < req_max_vars r" "req_max_vars r < 2 ^ 16"
    and ports: "\<And>k cs c. (k, cs) \<in> set (req_chunks r) \<Longrightarrow> c \<in> set cs \<Longrightarrow> chunk_ads_port c = u16 k"
    using ok by (auto simp: req_ok_def)
  obtain A B where m1: "sm_invar ?m1" and set: "\<And>v. sm_set ?p v ?m1 = A @ (?p, v) # B"
    and cat: "concat (map snd (req_chunks r)) = concat (map snd A) @ ?cs0 @ concat (map snd B)"
    and entries: "\<And>k cs c. (k, cs) \<in> set A \<union> set B \<union> {(?p, ?cs0)} \<Longrightarrow> c \<in> set cs
      \<Longrightarrow> (k, cs) \<in> set (req_chunks r)"
    using find_or_create_ok [OF inv] by metis
  obtain cs h1 where cap: "chunk_with_capacity ?p (req_max_vars r) ?cs0 h = Inr (cs, h1)"
    and rest: "(case chunk_add_variable mem vid (last cs) h1 of (ok, c', h2) \<Rightarrow>
        Inr (ok, h2, r\<lparr>req_chunks := sm_set ?p (butlast cs @ [c']) ?m1\<rparr>)) = (Inr (added, h', r') :: exn + _)"
    using run unfolding allocate_var_def Let_def exn_bind_eq_Inr by (auto simp del: split_paired_Ex)
  then obtain c' where add: "chunk_add_variable mem vid (last cs) h1 = (added, c', h')"
    and r': "r' = r\<lparr>req_chunks := sm_set ?p (butlast cs @ [c']) ?m1\<rparr>"
    by (cases "chunk_add_variable mem vid (last cs) h1") auto
  let ?CA = "concat (map snd A)" and ?CB = "concat (map snd B)"
  have g: "get_chunks r = ?CA @ ?cs0 @ ?CB" using cat by (simp add: get_chunks_def)
  have ne: "cs \<noteq> []"
    using chunk_with_capacity_ok(1) [OF chunks [unfolded g] n cap] .
  have p0: "chunk_ads_port c = u16 ?p" if "c \<in> set ?cs0" for c
    using ports [OF entries [OF _ that]] that by blast
  have pcs: "chunk_ads_port c = u16 ?p" if "c \<in> set cs" for c
    using chunk_with_capacity_ok(9) [OF chunks [unfolded g] n cap] p0 that by auto
  show ?thesis
  proof (rule that [OF g cap add ne])
    show "get_chunks r' = ?CA @ butlast cs @ c' # ?CB" by (simp add: get_chunks_def r' set)
    show "chunk_ads_port (last cs) = ?p" using pcs ne port by simp
    show "sm_invar (req_chunks r')" using m1 by (simp add: r' sm_invar_set)
    show "chunk_ads_port c' = chunk_ads_port (last cs) \<longrightarrow>
      (\<forall>(port, cs) \<in> set (req_chunks r'). \<forall>c \<in> set cs. chunk_ads_port c = u16 port)"
    proof
    assume "chunk_ads_port c' = chunk_ads_port (last cs)"
    then have c': "chunk_ads_port c' = u16 ?p" using pcs ne by simp
    have "chunk_ads_port c = u16 k" if "(k, ds) \<in> set (A @ (?p, butlast cs @ [c']) # B)" "c \<in> set ds" for k ds c
    proof (cases "(k, ds) = (?p, butlast cs @ [c'])")
      case True
      then show ?thesis using that c' pcs by (auto dest: in_set_butlastD)
    next
      case False
      then have "(k, ds) \<in> set A \<union> set B \<union> {(?p, ?cs0)}" using that(1) by auto
      then show ?thesis using ports entries that(2) by blast
    qed
    then have "\<forall>e \<in> set (A @ (?p, butlast cs @ [c']) # B). \<forall>c \<in> set (snd e). chunk_ads_port c = u16 (fst e)"
      by (metis prod.collapse)
    then show "\<forall>(port, cs) \<in> set (req_chunks r'). \<forall>c \<in> set cs. chunk_ads_port c = u16 port"
      by (simp add: r' set split_def)
    qed
  qed (simp_all add: r')
qed

lemma allocate_var_ok:
  assumes ok: "req_ok h r" and new: "vid \<notin> set (req_variables r)"
    and port: "addr_ads_port (h_addr h vid) < 2 ^ 16" and mem: "request_mem mem"
    and blank: "all_bufs blank h (get_chunks r)" and "no_empty_chunk r"
    and run: "allocate_var mem vid h r = Inr (added, h', r')"
  shows "req_ok h' r'" and "grown h r h' r'" and "all_bufs blank h' (get_chunks r')"
    and "set (req_variables r') = (if added then insert vid (set (req_variables r)) else set (req_variables r))"
    and "added \<Longrightarrow> no_empty_chunk r'"
proof -
  let ?n = "req_max_vars r"
  obtain CA cs0 CB cs h1 c' where g: "get_chunks r = CA @ cs0 @ CB"
    and cap: "chunk_with_capacity (addr_ads_port (h_addr h vid)) ?n cs0 h = Inr (cs, h1)"
    and add: "chunk_add_variable mem vid (last cs) h1 = (added, c', h')"
    and ne: "cs \<noteq> []" and g': "get_chunks r' = CA @ butlast cs @ c' # CB"
    and p: "chunk_ads_port (last cs) = addr_ads_port (h_addr h vid)"
    and inv: "sm_invar (req_chunks r')"
    and ports: "chunk_ads_port c' = chunk_ads_port (last cs) \<longrightarrow>
      (\<forall>(port, cs) \<in> set (req_chunks r'). \<forall>c \<in> set cs. chunk_ads_port c = u16 port)"
    and flags: "req_max_vars r' = ?n" "req_allocated r' = req_allocated r"
      "req_initialized r' = req_initialized r"
    by (rule allocate_var_cases [OF ok port run]) (rule that)
  have n: "0 < ?n" "?n < 2 ^ 16" and chunks: "chunks_ok h ?n (CA @ cs0 @ CB)"
    using ok g by (auto simp: req_ok_def)
  note k = chunk_with_capacity_ok [OF chunks n cap]
  let ?X = "CA @ butlast cs" and ?c = "last cs"
  have split: "CA @ cs @ CB = ?X @ ?c # CB" using ne by simp
  have vars1: "set (concat (map chunk_variables (CA @ cs @ CB))) = set (req_variables r)"
    using k(9) g by (auto simp: req_variables_def)
  have bufs1: "set (req_buffers r) \<subseteq> chunk_buffer ` set (CA @ cs @ CB)"
    "\<And>bid. bid \<in> chunk_buffer ` set (CA @ cs @ CB) \<Longrightarrow> bid \<in> set (req_buffers r) \<or> h_next_buf h \<le> bid"
    using k(9) g by (auto simp: req_buffers_def)
  have chunks1: "chunks_ok h1 ?n (?X @ ?c # CB)" by (rule k(2) [unfolded split])
  then have c1: "chunk_ok h1 ?n ?c" unfolding chunks_ok_split by blast
  have blank1: "all_bufs blank h1 (?X @ ?c # CB)" by (rule k(8) [OF blank [unfolded g], unfolded split])
  have "req_ok h' r' \<and> grown h r h' r' \<and> all_bufs blank h' (get_chunks r')
    \<and> set (req_variables r') = (if added then insert vid (set (req_variables r)) else set (req_variables r))
    \<and> (added \<longrightarrow> no_empty_chunk r')"
  proof (cases added)
    case False
    then have same: "c' = ?c" "h' = h1" using chunk_add_refused [OF c1 mem] add by auto
    then have g1: "get_chunks r' = CA @ cs @ CB" using g' split by simp
    have vars': "set (req_variables r') = set (req_variables r)"
      and bufs': "set (req_buffers r') = chunk_buffer ` set (CA @ cs @ CB)"
      using vars1 g1 by (simp_all add: req_variables_def req_buffers_def image_Un)
    have "h_bufs h1 bid = h_bufs h bid" if "bid \<notin> set (req_buffers r')" for bid
      using that k(10) [of bid] unfolding bufs' by auto
    then have "grown h r h' r'"
      unfolding grown_def vars' same(2) using k(3-6) flags bufs1
      by (simp add: set_buffer_reader_refl bufs')
    then show ?thesis
      using False same g1 k(2) k(8) [OF blank [unfolded g]] inv ports flags n vars'
      by (simp add: req_ok_def)
  next
    case True
    have new1: "vid \<notin> set (concat (map chunk_variables (?X @ ?c # CB)))" using new vars1 split by simp
    then have new2: "vid \<notin> set (chunk_variables ?c)" by simp
    have port1: "addr_ads_port (h_addr h1 vid) = chunk_ads_port ?c" using p k(3) by (simp add: h_addr_def)
    have addT: "chunk_add_variable mem vid ?c h1 = (True, c', h')" using add True by simp
    note a = chunk_add_ok [OF c1 new2 port1 mem addT]
    note b = chunks_add_ok [OF chunks1 new1 port1 mem addT]
    have vars': "set (req_variables r') = insert vid (set (req_variables r))"
    proof -
      have "set (req_variables r') = insert vid (set (concat (map chunk_variables (?X @ ?c # CB))))"
        using a(4) g' by (auto simp: req_variables_def)
      then show ?thesis unfolding split [symmetric] vars1 .
    qed
    have bufs': "set (req_buffers r') = chunk_buffer ` set (CA @ cs @ CB)"
    proof -
      have "set (req_buffers r') = chunk_buffer ` set (?X @ ?c # CB)"
        using a(2) g' by (auto simp: req_buffers_def)
      then show ?thesis unfolding split [symmetric] .
    qed
    obtain pos where v: "h_vars h' = (h_vars h)(vid := set_buffer_reader pos (h_vars h vid))"
      using a(5) k(3) by auto
    have "h_bufs h' bid = h_bufs h bid" if "bid \<notin> set (req_buffers r')" for bid
    proof -
      have "bid \<notin> chunk_buffer ` set cs" using that unfolding bufs' by auto
      moreover from this have "bid \<noteq> chunk_buffer ?c" using ne by auto
      ultimately show ?thesis using k(10) a(9) by metis
    qed
    then have "grown h r h' r'"
      unfolding grown_def vars' v using k(4-6) flags a(6-8) bufs1 new
      by (auto simp: bufs' set_buffer_reader_refl)
    moreover have "no_empty_chunk r'"
      using assms(6) k(9) a(4) g' g by (auto simp: no_empty_chunk_def dest: in_set_butlastD)
    ultimately show ?thesis
      using True a(3) b blank1 g' inv ports flags n vars' by (simp add: req_ok_def)
  qed
  then show "req_ok h' r'" "grown h r h' r'" "all_bufs blank h' (get_chunks r')"
    "set (req_variables r') = (if added then insert vid (set (req_variables r)) else set (req_variables r))"
    "added \<Longrightarrow> no_empty_chunk r'" by blast+
qed

lemma grown_addr: "grown h r h' r' \<Longrightarrow> h_addr h' vid = h_addr h vid"
  unfolding grown_def h_addr_def set_buffer_reader_def by (metis (no_types, lifting) ads_variable.select_convs(1) ads_variable.surjective ads_variable.update_convs(3))

lemma allocate_vars_ok:
  assumes "req_ok h r" and "distinct vids" and "set vids \<inter> set (req_variables r) = {}"
    and "\<forall>vid \<in> set vids. addr_ads_port (h_addr h vid) < 2 ^ 16" and "request_mem mem"
    and "all_bufs blank h (get_chunks r)" and "no_empty_chunk r"
    and "allocate_vars mem vids h r = Inr (added, h', r')"
  shows "req_ok h' r' \<and> grown h r h' r' \<and> all_bufs blank h' (get_chunks r')
    \<and> set (req_variables r') \<subseteq> set (req_variables r) \<union> set vids
    \<and> (added \<longrightarrow> set (req_variables r') = set (req_variables r) \<union> set vids \<and> no_empty_chunk r')"
  using assms
proof (induction vids arbitrary: h r)
  case Nil
  then show ?case by simp
next
  case (Cons vid vids)
  obtain ok1 h1 r1 where one: "allocate_var mem vid h r = Inr (ok1, h1, r1)"
    and rest: "if ok1 then allocate_vars mem vids h1 r1 = Inr (added, h', r')
       else (added, h', r') = (False, h1, r1)"
    using Cons.prems(8) by (auto simp: exn_bind_eq_Inr split: if_splits)
  have new: "vid \<notin> set (req_variables r)" and port: "addr_ads_port (h_addr h vid) < 2 ^ 16"
    using Cons.prems(3,4) by auto
  note a = allocate_var_ok [OF Cons.prems(1) new port Cons.prems(5,6,7) one]
  show ?case
  proof (cases ok1)
    case False
    with a rest show ?thesis by auto
  next
    case True
    have "req_ok h' r' \<and> grown h1 r1 h' r' \<and> all_bufs blank h' (get_chunks r')
      \<and> set (req_variables r') \<subseteq> set (req_variables r1) \<union> set vids
      \<and> (added \<longrightarrow> set (req_variables r') = set (req_variables r1) \<union> set vids \<and> no_empty_chunk r')"
      using Cons.prems(2,3,4,5) a True rest grown_addr [OF a(2)] by (intro Cons.IH) auto
    with a(4) True grown_trans [OF a(2)] show ?thesis by auto
  qed
qed

section \<open>Operations on the buffers of the chunks\<close>

text \<open>
  A change of one chunk's buffer that keeps its layout keeps the invariant of the whole list.
\<close>

definition same_layout :: "sum_read_buffer \<Rightarrow> sum_read_buffer \<Rightarrow> bool" where
  "same_layout b b' \<longleftrightarrow> buf_variables b' = buf_variables b
     \<and> buf_max_nvariables b' = buf_max_nvariables b \<and> buf_soft_limit b' = buf_soft_limit b
     \<and> buf_buffer_size b' = buf_buffer_size b"

lemma chunks_ok_set_buf:
  assumes "chunks_ok h n cs" and "c \<in> set cs" and "buf_inv (h_size h) b'"
    and "same_layout (h_buf h (chunk_buffer c)) b'"
  shows "chunks_ok (set_buf (chunk_buffer c) b' h) n cs"
proof -
  obtain X Y where cs: "cs = X @ c # Y" using assms(2) split_list by fastforce
  have ok: "chunk_ok h n c" "chunks_ok h n (X @ Y)" and
    apart: "\<forall>c' \<in> set (X @ Y). chunk_buffer c' \<noteq> chunk_buffer c"
    using assms(1) unfolding cs chunks_ok_split by auto
  have "chunk_ok (set_buf (chunk_buffer c) b' h) n c"
    using ok(1) assms(3,4) by (intro chunk_ok_set_buf) (auto simp: same_layout_def)
  moreover have "chunks_ok (set_buf (chunk_buffer c) b' h) n (X @ Y)"
    using ok(2) apart by (intro chunks_ok_cong [OF ok(2)]) auto
  ultimately show ?thesis using assms(1) unfolding cs chunks_ok_split by simp
qed

lemma req_ok_set_buf:
  assumes "req_ok h r" and "c \<in> set (get_chunks r)" and "buf_inv (h_size h) b'"
    and "same_layout (h_buf h (chunk_buffer c)) b'"
  shows "req_ok (set_buf (chunk_buffer c) b' h) r"
  using assms chunks_ok_set_buf by (auto simp: req_ok_def)

lemma req_chunk_inv:
  assumes "req_ok h r" and "c \<in> set (get_chunks r)"
  shows "buf_inv (h_size h) (h_buf h (chunk_buffer c))"
    and "buf_variables (h_buf h (chunk_buffer c)) = chunk_variables c"
    and "h_bufs h (chunk_buffer c) = Some (h_buf h (chunk_buffer c))"
    and "length (chunk_request c) = length (chunk_variables c)"
proof -
  have "chunk_ok h (req_max_vars r) c" using assms by (simp add: req_ok_def chunks_ok_def)
  then show "buf_inv (h_size h) (h_buf h (chunk_buffer c))"
    "buf_variables (h_buf h (chunk_buffer c)) = chunk_variables c"
    "h_bufs h (chunk_buffer c) = Some (h_buf h (chunk_buffer c))"
    "length (chunk_request c) = length (chunk_variables c)"
    by (auto simp: chunk_ok_def Let_def h_buf_def)
qed

lemma initialize_buffers_ok:
  assumes "req_ok h r" and "set cs \<subseteq> set (get_chunks r)" and "distinct (map chunk_buffer cs)"
    and "all_bufs (\<lambda>b. buf_state b = Buf_Invalid) h (get_chunks r)"
    and "initialize_buffers mem cs h = (ok, h')"
  shows "req_ok h' r \<and> h_vars h' = h_vars h \<and> h_env h' = h_env h \<and> h_conn h' = h_conn h
    \<and> h_next_buf h' = h_next_buf h
    \<and> (\<forall>bid. bid \<notin> chunk_buffer ` set cs \<longrightarrow> h_bufs h' bid = h_bufs h bid)
    \<and> all_bufs (\<lambda>b. buf_state b = Buf_Invalid) h' (get_chunks r)
    \<and> (ok \<longrightarrow> all_bufs buf_initialized h' cs)"
  using assms
proof (induction cs arbitrary: h)
  case Nil
  then show ?case by (simp add: all_bufs_def)
next
  case (Cons c cs)
  obtain rc b' where i: "initialize_buffer mem (chunk_buffer c) (h_buf h (chunk_buffer c)) = (rc, b')"
    by (cases "initialize_buffer mem (chunk_buffer c) (h_buf h (chunk_buffer c))") auto
  let ?h1 = "set_buf (chunk_buffer c) b' h"
  have c: "c \<in> set (get_chunks r)" using Cons.prems(2) by simp
  have layout: "same_layout (h_buf h (chunk_buffer c)) b'" and st: "buf_state b' = Buf_Invalid"
    using i Cons.prems(4) c
    by (auto simp: initialize_buffer_def same_layout_def all_bufs_def split: if_splits)
  have "buf_inv (h_size h) b'"
    using initialize_buffer_inv [OF req_chunk_inv(1) [OF Cons.prems(1) c]] i by (metis snd_conv)
  then have ok1: "req_ok ?h1 r" using req_ok_set_buf [OF Cons.prems(1) c _ layout] by simp
  have st1: "all_bufs (\<lambda>b. buf_state b = Buf_Invalid) ?h1 (get_chunks r)"
    using Cons.prems(4) st by (auto simp: all_bufs_def)
  show ?case
  proof (cases "rc = 0")
    case False
    with Cons.prems(5) i have "ok = False" "h' = ?h1" by auto
    with ok1 st1 show ?thesis by auto
  next
    case True
    then have run: "initialize_buffers mem cs ?h1 = (ok, h')" using Cons.prems(5) i by simp
    have ih: "req_ok h' r \<and> h_vars h' = h_vars ?h1 \<and> h_env h' = h_env ?h1 \<and> h_conn h' = h_conn ?h1
      \<and> h_next_buf h' = h_next_buf ?h1
      \<and> (\<forall>bid. bid \<notin> chunk_buffer ` set cs \<longrightarrow> h_bufs h' bid = h_bufs ?h1 bid)
      \<and> all_bufs (\<lambda>b. buf_state b = Buf_Invalid) h' (get_chunks r)
      \<and> (ok \<longrightarrow> all_bufs buf_initialized h' cs)"
      using Cons.prems(2,3) st1 run by (intro Cons.IH [OF ok1]) auto
    have "chunk_buffer c \<notin> chunk_buffer ` set cs" using Cons.prems(3) by simp
    then have "h_buf h' (chunk_buffer c) = b'" using ih by (simp add: h_buf_def)
    moreover have "buf_initialized b'" using initialize_buffer_ok i True by blast
    ultimately show ?thesis using ih by (auto simp: all_bufs_def)
  qed
qed

end
