(* ===== verification/Request_Props.thy ===== *)
theory Request_Props
  imports Request_Alloc
begin

text \<open>
  What a sum-read request guarantees: allocation is all or nothing (as long as the vectors of a chunk can
  grow; without that, see \<open>Request_Memory\<close>) and succeeds when memory suffices, deallocation leaves no
  variable pointing into a freed buffer, and reading either makes every variable's data valid or marks them all invalid.
\<close>

section \<open>Allocation never throws, and succeeds with enough memory\<close>

lemma ReadRequestChunk_Inr: "0 < n \<Longrightarrow> \<exists>c h1. ReadRequestChunk p n h = Inr (c, h1)"
  by (simp add: ReadRequestChunk_def SumReadBuffer_def)

lemma chunk_with_capacity_Inr: "0 < n \<Longrightarrow> \<exists>cs h1. chunk_with_capacity p n cs0 h = Inr (cs, h1)"
  using ReadRequestChunk_Inr [of n p h] by (auto simp: chunk_with_capacity_def)

lemma allocate_var_Inr:
  assumes "0 < req_max_vars r"
  shows "\<exists>added h' r'. allocate_var mem vid h r = Inr (added, h', r')"
proof -
  obtain cs h1 where "chunk_with_capacity (addr_ads_port (h_addr h vid)) (req_max_vars r)
      (sm_get [] (find_or_create (addr_ads_port (h_addr h vid)) (req_chunks r)) (addr_ads_port (h_addr h vid))) h
    = Inr (cs, h1)"
    using chunk_with_capacity_Inr [OF assms] by blast
  then show ?thesis
    by (cases "chunk_add_variable mem vid (last cs) h1") (simp add: allocate_var_def Let_def)
qed

lemma allocate_var_succeeds:
  assumes ok: "req_ok h r" and port: "addr_ads_port (h_addr h vid) < 2 ^ 16"
    and blank: "all_bufs blank h (get_chunks r)"
    and run: "allocate_var (\<lambda>_. True) vid h r = Inr (added, h', r')"
  shows "added"
proof -
  let ?n = "req_max_vars r"
  obtain CA cs0 CB cs h1 c' where g: "get_chunks r = CA @ cs0 @ CB"
    and cap: "chunk_with_capacity (addr_ads_port (h_addr h vid)) ?n cs0 h = Inr (cs, h1)"
    and add: "chunk_add_variable (\<lambda>_. True) vid (last cs) h1 = (added, c', h')"
    and ne: "cs \<noteq> []"
    by (rule allocate_var_cases [OF ok port run]) (rule that)
  have n: "0 < ?n" "?n < 2 ^ 16" and chunks: "chunks_ok h ?n (CA @ cs0 @ CB)"
    using ok g by (auto simp: req_ok_def)
  note k = chunk_with_capacity_ok [OF chunks n cap]
  have last: "last cs \<in> set (CA @ cs @ CB)" using ne by simp
  have "chunk_ok h1 ?n (last cs)" using k(2) last by (simp add: chunks_ok_def)
  moreover have "blank (h_buf h1 (chunk_buffer (last cs)))"
    using k(8) [OF blank [unfolded g]] last by (simp add: all_bufs_def)
  ultimately show ?thesis
    using chunk_add_succeeds [of h1 ?n "last cs" "\<lambda>_. True" vid] k(7) add by (simp add: blank_def)
qed

lemma allocate_vars_Inr:
  assumes "req_ok h r" and "distinct vids" and "set vids \<inter> set (req_variables r) = {}"
    and "\<forall>vid \<in> set vids. addr_ads_port (h_addr h vid) < 2 ^ 16" and "request_mem mem"
    and "all_bufs blank h (get_chunks r)" and "no_empty_chunk r"
  shows "\<exists>added h' r'. allocate_vars mem vids h r = Inr (added, h', r') \<and> (mem = (\<lambda>_. True) \<longrightarrow> added)"
  using assms
proof (induction vids arbitrary: h r)
  case Nil
  then show ?case by (intro exI [of _ True]) simp
next
  case (Cons vid vids)
  obtain ok1 h1 r1 where one: "allocate_var mem vid h r = Inr (ok1, h1, r1)"
    using allocate_var_Inr [of r mem vid h] Cons.prems(1) by (auto simp: req_ok_def)
  have new: "vid \<notin> set (req_variables r)" and port: "addr_ads_port (h_addr h vid) < 2 ^ 16"
    using Cons.prems(3,4) by auto
  note a = allocate_var_ok [OF Cons.prems(1) new port Cons.prems(5,6,7) one]
  show ?case
  proof (cases ok1)
    case False
    then have "mem \<noteq> (\<lambda>_. True)"
      using allocate_var_succeeds [OF Cons.prems(1) port Cons.prems(6)] one by blast
    with False one show ?thesis by (intro exI [of _ False]) simp
  next
    case True
    have "\<exists>added h' r'. allocate_vars mem vids h1 r1 = Inr (added, h', r') \<and> (mem = (\<lambda>_. True) \<longrightarrow> added)"
      using Cons.prems(2,3,4,5) a True grown_addr [OF a(2)] by (intro Cons.IH) auto
    with one True show ?thesis by simp
  qed
qed

lemma initialize_buffers_succeeds:
  assumes "distinct (map chunk_buffer cs)" and "\<forall>c \<in> set cs. chunk_ok h n c \<and> chunk_variables c \<noteq> []"
    and "\<forall>c \<in> set cs. \<not> buf_initialized (h_buf h (chunk_buffer c))"
  shows "fst (initialize_buffers (\<lambda>_. True) cs h)"
proof -
  have "fst (initialize_buffer (\<lambda>_. True) bid (h_buf h (chunk_buffer c))) = 0" if "c \<in> set cs" for c bid
  proof -
    have inv: "buf_inv (h_size h) (h_buf h (chunk_buffer c))" "chunk_variables c \<noteq> []"
      "buf_variables (h_buf h (chunk_buffer c)) = chunk_variables c"
      using assms(2) that by (auto simp: chunk_ok_def Let_def)
    then show ?thesis using assms(3) that by (simp add: initialize_buffer_def)
  qed
  moreover have "fst (initialize_buffers (\<lambda>_. True) cs h)"
    if "distinct (map chunk_buffer cs)"
      "\<forall>c \<in> set cs. \<forall>bid. fst (initialize_buffer (\<lambda>_. True) bid (h_buf h (chunk_buffer c))) = 0"
    for cs and h :: "'a heap"
    using that
  proof (induction cs arbitrary: h)
    case Nil
    then show ?case by simp
  next
    case (Cons c cs)
    obtain b' where "initialize_buffer (\<lambda>_. True) (chunk_buffer c) (h_buf h (chunk_buffer c)) = (0, b')"
      using Cons.prems(2) by (metis list.set_intros(1) prod.collapse)
    moreover have "fst (initialize_buffers (\<lambda>_. True) cs (set_buf (chunk_buffer c) b' h))"
      using Cons.prems by (intro Cons.IH) (auto simp: image_iff)
    ultimately show ?case by simp
  qed
  ultimately show ?thesis using assms(1) by blast
qed

section \<open>Deallocation\<close>

lemma get_chunks_map [simp]: "get_chunks (map_chunks f r) = map f (get_chunks r)"
  by (simp add: get_chunks_def map_chunks_def map_concat split_def comp_def)

lemma map_chunks_simps [simp]:
  "req_max_vars (map_chunks f r) = req_max_vars r" "req_allocated (map_chunks f r) = req_allocated r"
  "req_initialized (map_chunks f r) = req_initialized r"
  by (simp_all add: map_chunks_def)

lemma get_chunks_flags [simp]:
  "get_chunks (r\<lparr>req_allocated := x\<rparr>) = get_chunks r" "get_chunks (r\<lparr>req_initialized := x\<rparr>) = get_chunks r"
  by (simp_all add: get_chunks_def)

lemma foldl_clear_reader:
  "foldl (\<lambda>h vid. upd_var vid (set_buffer_reader p) h) h vids
    = h\<lparr>h_vars := (\<lambda>v. if v \<in> set vids then set_buffer_reader p (h_vars h v) else h_vars h v)\<rparr>"
  by (induction vids arbitrary: h) (auto simp: upd_var_def set_buffer_reader_def fun_eq_iff)

lemma foldl_free_chunk:
  "foldl free_chunk h cs = h\<lparr>
     h_vars := (\<lambda>v. if v \<in> set (concat (map chunk_variables cs))
        then set_buffer_reader EMPTY_BUFFER_DATA_POSITION (h_vars h v) else h_vars h v),
     h_bufs := (\<lambda>bid. if bid \<in> chunk_buffer ` set cs then None else h_bufs h bid)\<rparr>"
proof (induction cs arbitrary: h)
  case Nil
  then show ?case by simp
next
  case (Cons c cs)
  then show ?case
    by (auto simp: free_chunk_def foldl_clear_reader Let_def set_buffer_reader_def fun_eq_iff)
qed

lemma deallocate_eq:
  assumes "deallocate h r = (rc, h', r')"
  shows "rc = 0"
    and "h' = h\<lparr>
     h_vars := (\<lambda>v. if v \<in> set (req_variables r)
        then set_buffer_reader EMPTY_BUFFER_DATA_POSITION (h_vars h v) else h_vars h v),
     h_bufs := (\<lambda>bid. if bid \<in> set (req_buffers r) then None else h_bufs h bid)\<rparr>"
    and "req_chunks r' = []" and "\<not> req_allocated r'" and "\<not> req_initialized r'"
    and "req_max_vars r' = req_max_vars r"
  using assms
  by (auto simp: deallocate_def deinitialize_def Let_def foldl_free_chunk req_variables_def
      req_buffers_def comp_def image_image)

section \<open>Allocation is all or nothing as long as the vectors of a chunk can grow\<close>

definition fresh_request :: "sum_read_request \<Rightarrow> bool" where
  "fresh_request r \<longleftrightarrow> req_chunks r = [] \<and> \<not> req_allocated r \<and> \<not> req_initialized r
     \<and> 0 < req_max_vars r \<and> req_max_vars r < 2 ^ 16"

text \<open>The numbers of buffers yet to be allocated are unused.\<close>

definition fresh_bufs :: "'e heap \<Rightarrow> bool" where
  "fresh_bufs h \<longleftrightarrow> (\<forall>bid \<ge> h_next_buf h. h_bufs h bid = None)"

text \<open>The variables may be allocated: they are different, in no buffer, and their ports fit.\<close>

definition allocatable :: "'e heap \<Rightarrow> nat list \<Rightarrow> bool" where
  "allocatable h vids \<longleftrightarrow> distinct vids \<and> fresh_bufs h
     \<and> (\<forall>vid \<in> set vids. addr_ads_port (h_addr h vid) < 2 ^ 16
          \<and> h_reader h vid = EMPTY_BUFFER_DATA_POSITION)"

lemma fresh_request_ok: "fresh_request r \<Longrightarrow> req_ok h r"
  by (simp add: fresh_request_def req_ok_def get_chunks_def chunks_ok_def)

lemma fresh_request_empty:
  "fresh_request r \<Longrightarrow> get_chunks r = []"
  "fresh_request r \<Longrightarrow> req_variables r = []"
  "fresh_request r \<Longrightarrow> req_buffers r = []"
  by (simp_all add: fresh_request_def get_chunks_def req_variables_def req_buffers_def)

lemma allocate_total:
  assumes "fresh_request r" and "allocatable h vids" and "request_mem mem"
  shows "\<exists>rc h' r'. allocate mem vids h r = Inr (rc, h', r')
    \<and> h_env h' = h_env h \<and> h_conn h' = h_conn h
    \<and> (\<forall>v. \<exists>pos. h_vars h' v = set_buffer_reader pos (h_vars h v))
    \<and> (\<forall>v. v \<notin> set vids \<longrightarrow> h_vars h' v = h_vars h v) \<and> fresh_bufs h'
    \<and> (mem = (\<lambda>_. True) \<longrightarrow> rc = 0)
    \<and> (if rc = 0 then req_ok h' r' \<and> req_allocated r' \<and> \<not> req_initialized r' \<and> set (req_variables r') = set vids
         \<and> all_bufs (\<lambda>b. buf_initialized b \<and> buf_state b = Buf_Invalid) h' (get_chunks r')
       else rc = EPICSADS_ERROR \<and> h_vars h' = h_vars h \<and> h_bufs h' = h_bufs h
         \<and> fresh_request r')"
proof -
  note e = fresh_request_empty [OF assms(1)]
  have pre: "distinct vids" "set vids \<inter> set (req_variables r) = {}"
    "\<forall>vid \<in> set vids. addr_ads_port (h_addr h vid) < 2 ^ 16"
    "all_bufs blank h (get_chunks r)" "no_empty_chunk r"
    using assms(2) e by (auto simp: allocatable_def all_bufs_def no_empty_chunk_def)
  obtain added h1 r1 where run: "allocate_vars mem vids h r = Inr (added, h1, r1)"
    and enough: "mem = (\<lambda>_. True) \<Longrightarrow> added"
    using allocate_vars_Inr [OF fresh_request_ok [OF assms(1)] pre(1-3) assms(3) pre(4,5)] by blast
  have ok1: "req_ok h1 r1" and gr: "grown h r h1 r1" and blank1: "all_bufs blank h1 (get_chunks r1)"
    and vars1: "set (req_variables r1) \<subseteq> set vids"
      "added \<Longrightarrow> set (req_variables r1) = set vids \<and> no_empty_chunk r1"
    using allocate_vars_ok [OF fresh_request_ok [OF assms(1)] pre(1-3) assms(3) pre(4,5) run] e by auto
  have na: "\<not> req_allocated r" using assms(1) by (simp add: fresh_request_def)
  obtain ok2 h2 where init: "(if added then initialize_buffers mem (get_chunks r1) h1 else (False, h1)) = (ok2, h2)"
    by (cases "if added then initialize_buffers mem (get_chunks r1) h1 else (False, h1)") auto
  have dist: "distinct (map chunk_buffer (get_chunks r1))"
    using ok1 by (simp add: req_ok_def chunks_ok_def)
  have st1: "all_bufs (\<lambda>b. buf_state b = Buf_Invalid) h1 (get_chunks r1)"
    using blank1 by (simp add: all_bufs_def blank_def)
  have "req_ok h2 r1 \<and> h_vars h2 = h_vars h1 \<and> h_env h2 = h_env h1 \<and> h_conn h2 = h_conn h1
    \<and> h_next_buf h2 = h_next_buf h1 \<and> (\<forall>bid. bid \<notin> set (req_buffers r1) \<longrightarrow> h_bufs h2 bid = h_bufs h1 bid)
    \<and> (ok2 \<longrightarrow> added \<and> all_bufs (\<lambda>b. buf_initialized b \<and> buf_state b = Buf_Invalid) h2 (get_chunks r1))"
  proof (cases added)
    case False
    with init ok1 show ?thesis by auto
  next
    case True
    with init have run2: "initialize_buffers mem (get_chunks r1) h1 = (ok2, h2)" by simp
    from initialize_buffers_ok [OF ok1 subset_refl dist st1 run2] True show ?thesis
      by (simp add: req_buffers_def all_bufs_def)
  qed
  then have h2: "req_ok h2 r1" "h_vars h2 = h_vars h1" "h_env h2 = h_env h1" "h_conn h2 = h_conn h1"
    "\<And>bid. bid \<notin> set (req_buffers r1) \<Longrightarrow> h_bufs h2 bid = h_bufs h1 bid"
    "ok2 \<Longrightarrow> all_bufs (\<lambda>b. buf_initialized b \<and> buf_state b = Buf_Invalid) h2 (get_chunks r1)"
    "ok2 \<Longrightarrow> added"
    and n2: "h_next_buf h2 = h_next_buf h1" by blast+
  have ok2: "ok2" if "mem = (\<lambda>_. True)"
  proof -
    have "fst (initialize_buffers (\<lambda>_. True) (get_chunks r1) h1)"
      using dist ok1 blank1 vars1(2) [OF enough [OF that]]
      by (intro initialize_buffers_succeeds)
        (auto simp: req_ok_def chunks_ok_def no_empty_chunk_def all_bufs_def blank_def)
    with init enough that show ?thesis by simp
  qed
  have fresh2: "fresh_bufs h2"
    unfolding fresh_bufs_def
  proof (intro allI impI)
    fix bid assume bid: "h_next_buf h2 \<le> bid"
    have "bid \<notin> set (req_buffers r1)"
    proof
      assume "bid \<in> set (req_buffers r1)"
      then obtain c where "c \<in> set (get_chunks r1)" "bid = chunk_buffer c" by (auto simp: req_buffers_def)
      then have "bid < h_next_buf h2" using h2(1) by (auto simp: req_ok_def chunks_ok_def chunk_ok_def)
      with bid show False by simp
    qed
    moreover from this have "h_bufs h1 bid = h_bufs h bid" using gr by (simp add: grown_def)
    moreover have "h_next_buf h \<le> bid" using gr bid n2 by (simp add: grown_def)
    ultimately show "h_bufs h2 bid = None" using h2(5) assms(2) by (simp add: allocatable_def fresh_bufs_def)
  qed
  have same: "h_vars h2 v = h_vars h v" if "v \<notin> set vids" for v
    using gr h2(2) vars1(1) that by (auto simp: grown_def)
  have readers: "\<exists>pos. h_vars h2 v = set_buffer_reader pos (h_vars h v)" for v
    using gr h2(2) by (simp add: grown_def)
  show ?thesis
  proof (cases ok2)
    case True
    then show ?thesis
      using run init na h2 vars1 gr readers same fresh2 assms(1)
      by (simp add: allocate_def grown_def req_ok_def req_variables_def fresh_request_def)
  next
    case False
    obtain rc h3 r3 where d: "deallocate h2 r1 = (rc, h3, r3)" by (cases "deallocate h2 r1") auto
    note de = deallocate_eq [OF d]
    have vars3: "h_vars h3 = h_vars h"
    proof
      fix v
      have empty: "h_reader h v = EMPTY_BUFFER_DATA_POSITION" if "v \<in> set (req_variables r1)"
        using that assms(2) vars1(1) by (auto simp: allocatable_def)
      obtain pos where "h_vars h1 v = set_buffer_reader pos (h_vars h v)"
        using gr unfolding grown_def by blast
      moreover have "h_vars h1 v = h_vars h v" if "v \<notin> set (req_variables r1)"
        using gr that by (simp add: grown_def)
      ultimately show "h_vars h3 v = h_vars h v"
        using empty de(2) h2(2) by (auto simp: set_buffer_reader_def h_reader_def)
    qed
    have bufs3: "h_bufs h3 = h_bufs h"
    proof
      fix bid
      have "h_bufs h bid = None" if "bid \<in> set (req_buffers r1)"
        using gr that assms(2) e(3) by (auto simp: grown_def allocatable_def fresh_bufs_def)
      moreover have "h_bufs h2 bid = h_bufs h bid" if "bid \<notin> set (req_buffers r1)"
        using h2(5) gr that by (simp add: grown_def)
      ultimately show "h_bufs h3 bid = h_bufs h bid" using de(2) by simp
    qed
    have fresh3: "fresh_bufs h3"
      using assms(2) bufs3 gr n2 de(2) by (simp add: fresh_bufs_def allocatable_def grown_def)
    have "allocate mem vids h r = Inr (EPICSADS_ERROR, h3, r3)"
      using run init na False d by (simp add: allocate_def)
    then show ?thesis
      using False ok2 vars3 bufs3 de h2 gr fresh3 assms(1)
      by (auto simp: grown_def fresh_request_def intro: set_buffer_reader_refl)
  qed
qed

definition example_request :: sum_read_request where
  "example_request = \<lparr> req_max_vars = 500, req_allocated = False, req_initialized = False,
     req_chunks = [] \<rparr>"

lemma example_request_fresh: "fresh_request example_request"
  by (simp add: fresh_request_def example_request_def)

lemma example_heap_allocatable: "allocatable example_heap [3, 4]"
  by (simp add: allocatable_def fresh_bufs_def example_heap_def h_addr_def h_reader_def example_variable_def
      example_address_def)

lemma all_mem [simp]: "request_mem (\<lambda>_. True)"
  by (simp add: request_mem_def)

text \<open>
  For concrete instances: an allocated request over two variables like a given resolved one.
\<close>

definition example_var_ok :: "ads_variable \<Rightarrow> bool" where
  "example_var_ok v \<longleftrightarrow> addr_name_is_resolved (var_addr v) \<and> addr_ads_port (var_addr v) < 2 ^ 16
     \<and> addr_index_group (var_addr v) < 2 ^ 32 \<and> addr_index_offset (var_addr v) < 2 ^ 32
     \<and> var_size v \<le> 2 ^ 31 \<and> var_conn v \<and> var_buffer_reader v = EMPTY_BUFFER_DATA_POSITION"

definition example_resolved :: ads_variable where
  "example_resolved = example_variable\<lparr>var_addr := snd (resolve 61445 7 example_address)\<rparr>"

lemma example_resolved_ok [simp]: "example_var_ok example_resolved"
  by (simp add: example_var_ok_def example_resolved_def example_variable_def example_address_def
      resolve_def var_size_def)

definition example_heap_of :: "ads_variable \<Rightarrow> nat heap" where
  "example_heap_of v = example_heap\<lparr>h_vars := (\<lambda>_. v)\<rparr>"

definition example_allocated :: "ads_variable \<Rightarrow> nat heap \<Rightarrow> sum_read_request \<Rightarrow> bool" where
  "example_allocated v0 h r \<longleftrightarrow> req_ok h r \<and> req_allocated r \<and> \<not> req_initialized r
     \<and> set (req_variables r) = {3, 4} \<and> fresh_bufs h
     \<and> all_bufs (\<lambda>b. buf_initialized b \<and> buf_state b = Buf_Invalid) h (get_chunks r)
     \<and> (\<forall>v. v \<notin> {3, 4} \<longrightarrow> h_vars h v = v0)
     \<and> (\<forall>v. \<exists>pos. h_vars h v = set_buffer_reader pos v0) \<and> h_conn h = h_conn example_heap"

lemma like_example:
  assumes "\<exists>pos. h_vars h v = set_buffer_reader pos v0"
  shows "h_addr h v = var_addr v0" and "h_size h v = var_size v0"
    and "var_conn (h_vars h v) = var_conn v0" and "var_write_readback (h_vars h v) = var_write_readback v0"
    and "var_last_written (h_vars h v) = var_last_written v0"
  using assms by (auto simp: h_addr_def h_size_def set_buffer_reader_def var_size_def)

lemma example_allocated_exists:
  assumes "example_var_ok v0"
  shows "\<exists>h r. example_allocated v0 h r"
proof -
  have "allocatable (example_heap_of v0) [3, 4]"
    using assms by (simp add: allocatable_def fresh_bufs_def example_heap_of_def example_heap_def
        h_addr_def h_reader_def example_var_ok_def)
  then obtain rc h r where all: "allocate (\<lambda>_. True) [3, 4] (example_heap_of v0) example_request = Inr (rc, h, r)
    \<and> h_env h = h_env (example_heap_of v0) \<and> h_conn h = h_conn (example_heap_of v0)
    \<and> (\<forall>v. \<exists>pos. h_vars h v = set_buffer_reader pos (h_vars (example_heap_of v0) v))
    \<and> (\<forall>v. v \<notin> set [3, 4] \<longrightarrow> h_vars h v = h_vars (example_heap_of v0) v) \<and> fresh_bufs h
    \<and> ((\<lambda>_. True) = (\<lambda>_ :: alloc_site. True) \<longrightarrow> rc = 0)
    \<and> (if rc = 0 then req_ok h r \<and> req_allocated r \<and> \<not> req_initialized r \<and> set (req_variables r) = set [3, 4]
         \<and> all_bufs (\<lambda>b. buf_initialized b \<and> buf_state b = Buf_Invalid) h (get_chunks r)
       else rc = EPICSADS_ERROR \<and> h_vars h = h_vars (example_heap_of v0)
         \<and> h_bufs h = h_bufs (example_heap_of v0) \<and> fresh_request r)"
    using allocate_total [OF example_request_fresh _ all_mem] by blast
  then have "rc = 0" by blast
  with all have "example_allocated v0 h r" by (simp add: example_allocated_def example_heap_of_def)
  then show ?thesis by blast
qed

text \<open>
  Deallocation: for a request whose invariant holds and outside of which no variable points
  into a buffer, \<open>deallocate\<close> returns 0, empties the request so that it can be allocated again,
  frees exactly its buffers, and afterwards no variable at all points into a buffer; its
  variables can be allocated again at once.
\<close>

theorem deallocate_correct:
  assumes "req_ok h r" and "fresh_bufs h"
    and "\<forall>v. v \<notin> set (req_variables r) \<longrightarrow> h_reader h v = EMPTY_BUFFER_DATA_POSITION"
    and "\<forall>v \<in> set (req_variables r). addr_ads_port (h_addr h v) < 2 ^ 16"
    and "deallocate h r = (rc, h', r')"
  shows "rc = 0 \<and> fresh_request r' \<and> allocatable h' (req_variables r)
    \<and> (\<forall>v. h_reader h' v = EMPTY_BUFFER_DATA_POSITION)
    \<and> h_bufs h' = (\<lambda>bid. if bid \<in> set (req_buffers r) then None else h_bufs h bid)
    \<and> h_env h' = h_env h \<and> h_conn h' = h_conn h"
proof -
  note d = deallocate_eq [OF assms(5)]
  have "h_reader h' v = EMPTY_BUFFER_DATA_POSITION" for v
    using assms(3) by (simp add: d(2) h_reader_def set_buffer_reader_def)
  moreover have "distinct (req_variables r)"
    using assms(1) by (simp add: req_ok_def chunks_ok_def req_variables_def)
  moreover have "addr_ads_port (h_addr h' v) = addr_ads_port (h_addr h v)" for v
    by (simp add: d(2) h_addr_def set_buffer_reader_def)
  ultimately show ?thesis
    using d assms by (simp add: fresh_request_def allocatable_def fresh_bufs_def req_ok_def)
qed

theorem deallocate_correct_witness:
  "\<exists>h r rc h' r'. set (req_variables r) = {3, 4} \<and> deallocate h r = (rc, h', r')
     \<and> fresh_request r' \<and> allocatable (h' :: nat heap) (req_variables r)"
proof -
  obtain h r where e: "example_allocated example_resolved h r"
    using example_allocated_exists [OF example_resolved_ok] by blast
  obtain rc h' r' where d: "deallocate h r = (rc, h', r')" by (cases "deallocate h r") auto
  have out: "\<forall>v. v \<notin> set (req_variables r) \<longrightarrow> h_reader h v = EMPTY_BUFFER_DATA_POSITION"
    using e by (simp add: example_allocated_def h_reader_def example_resolved_def example_variable_def)
  have port: "\<forall>v \<in> set (req_variables r). addr_ads_port (h_addr h v) < 2 ^ 16"
    using e like_example(1) [of h _ example_resolved]
    by (simp add: example_allocated_def example_resolved_def resolve_def example_address_def)
  have ok: "req_ok h r" "fresh_bufs h" using e by (simp_all add: example_allocated_def)
  show ?thesis using deallocate_correct [OF ok out port d] e d
    by (intro exI [of _ h] exI [of _ r] exI [of _ rc] exI [of _ h'] exI [of _ r'])
      (simp add: example_allocated_def)
qed

section \<open>Initialisation\<close>

definition var_request :: "'e heap \<Rightarrow> nat \<Rightarrow> symbol_info" where
  "var_request h vid = (addr_index_group (h_addr h vid), addr_index_offset (h_addr h vid),
     var_size (h_vars h vid))"

definition is_resolved :: "'e heap \<Rightarrow> nat \<Rightarrow> bool" where
  "is_resolved h vid \<longleftrightarrow> addr_name_is_resolved (h_addr h vid)"

definition same_but_request :: "read_request_chunk \<Rightarrow> read_request_chunk \<Rightarrow> bool" where
  "same_but_request c c' \<longleftrightarrow> (\<exists>q. length q = length (chunk_request c) \<and> c' = c\<lparr>chunk_request := q\<rparr>)"

definition same_chunks :: "sum_read_request \<Rightarrow> sum_read_request \<Rightarrow> bool" where
  "same_chunks r r' \<longleftrightarrow> req_max_vars r' = req_max_vars r \<and>
     list_all2 (rel_prod (=) (list_all2 same_but_request)) (req_chunks r) (req_chunks r')"

lemma same_but_request_refl [simp]: "same_but_request c c"
  by (auto simp: same_but_request_def intro: exI [of _ "chunk_request c"])

lemma same_but_request_list:
  assumes "list_all2 same_but_request cs cs'"
  shows "map chunk_buffer cs' = map chunk_buffer cs" and "map chunk_variables cs' = map chunk_variables cs"
    and "map chunk_ads_port cs' = map chunk_ads_port cs"
    and "chunks_ok h n cs \<Longrightarrow> chunks_ok h n cs'"
proof -
  show b: "map chunk_buffer cs' = map chunk_buffer cs" and v: "map chunk_variables cs' = map chunk_variables cs"
    and "map chunk_ads_port cs' = map chunk_ads_port cs"
    using assms by (induction rule: list_all2_induct) (auto simp: same_but_request_def)
  have one: "chunk_ok h n c \<Longrightarrow> chunk_ok h n c'" if "same_but_request c c'" for c c'
    using that by (auto simp: same_but_request_def chunk_ok_def)
  have "(\<forall>c \<in> set cs. chunk_ok h n c) \<Longrightarrow> (\<forall>c \<in> set cs'. chunk_ok h n c)"
    using assms by (induction rule: list_all2_induct) (simp_all add: one)
  then show "chunks_ok h n cs \<Longrightarrow> chunks_ok h n cs'" by (simp add: chunks_ok_def b v)
qed

lemma same_chunks_get:
  assumes "same_chunks r r'"
  shows "list_all2 same_but_request (get_chunks r) (get_chunks r')"
proof -
  have "list_all2 (rel_prod (=) (list_all2 same_but_request)) (req_chunks r) (req_chunks r')"
    using assms by (simp add: same_chunks_def)
  then show ?thesis unfolding get_chunks_def
    by (induction rule: list_all2_induct) (auto intro: list_all2_appendI)
qed

lemma same_chunks_ok:
  assumes "same_chunks r r'"
  shows "req_variables r' = req_variables r" and "req_buffers r' = req_buffers r"
    and "req_ok h r \<Longrightarrow> req_ok h r'"
proof -
  note l = same_but_request_list [OF same_chunks_get [OF assms]]
  have m: "list_all2 (rel_prod (=) (list_all2 same_but_request)) (req_chunks r) (req_chunks r')"
    and n: "req_max_vars r' = req_max_vars r"
    using assms by (simp_all add: same_chunks_def)
  have keys: "map fst (req_chunks r') = map fst (req_chunks r)"
    using m by (induction rule: list_all2_induct) auto
  have ports: "\<forall>e \<in> set (req_chunks r'). \<forall>c \<in> set (snd e). chunk_ads_port c = u16 (fst e)"
    if "\<forall>e \<in> set (req_chunks r). \<forall>c \<in> set (snd e). chunk_ads_port c = u16 (fst e)"
    using m that
  proof (induction rule: list_all2_induct)
    case Nil
    then show ?case by simp
  next
    case (Cons e m e' m')
    have "map chunk_ads_port (snd e') = map chunk_ads_port (snd e)" "fst e' = fst e"
      using Cons(1) same_but_request_list(3) [of "snd e" "snd e'"]
      by (auto simp: rel_prod_sel)
    then have "chunk_ads_port ` set (snd e') = chunk_ads_port ` set (snd e)" by (metis set_map)
    then have "\<forall>c \<in> set (snd e'). chunk_ads_port c = u16 (fst e')"
      using Cons.prems \<open>fst e' = fst e\<close> by (smt (verit) image_iff list.set_intros(1))
    with Cons show ?case by simp
  qed
  show "req_variables r' = req_variables r" "req_buffers r' = req_buffers r"
    using l by (simp_all add: req_variables_def req_buffers_def)
  assume "req_ok h r"
  then show "req_ok h r'"
    using l(4) [of h "req_max_vars r"] n keys ports by (simp add: req_ok_def sm_invar_def split_def)
qed

end
