(* ===== verification/Request_Read.thy ===== *)
theory Request_Read
  imports Request_Props
begin

text \<open>
  \<open>initialize\<close>, \<open>deinitialize\<close> and \<open>read\<close> of a sum-read request: when the request is complete, that
  reading keeps the invariant, runs into no undefined behaviour, and makes all buffers valid or
  all invalid, and that afterwards every variable's slot holds what the PLC answered for it.
\<close>

section \<open>Initialisation\<close>

lemma initialize_vars_ok:
  assumes "initialize_vars h vids i q = (ok, q')" and "i + length vids \<le> length q"
  shows "length q' = length q" and "ok \<longleftrightarrow> (\<forall>vid \<in> set vids. is_resolved h vid)"
    and "ok \<Longrightarrow> q' = take i q @ map (var_request h) vids @ drop (i + length vids) q"
proof -
  have "length q' = length q \<and> (ok \<longleftrightarrow> (\<forall>vid \<in> set vids. is_resolved h vid))
    \<and> (ok \<longrightarrow> q' = take i q @ map (var_request h) vids @ drop (i + length vids) q)"
    using assms
  proof (induction vids arbitrary: i q)
    case Nil
    then show ?case by simp
  next
    case (Cons vid vids)
    let ?q1 = "q[i := var_request h vid]"
    show ?case
    proof (cases "is_resolved h vid")
      case False
      with Cons.prems show ?thesis by (simp add: is_resolved_def Let_def)
    next
      case True
      then have run: "initialize_vars h vids (i + 1) ?q1 = (ok, q')"
        using Cons.prems(1) by (simp add: is_resolved_def var_request_def Let_def)
      have i: "i < length q" using Cons.prems(2) by simp
      have "take (i + 1) ?q1 = take i q @ [var_request h vid]"
        using i take_Suc_conv_app_nth [of i "?q1"] by simp
      moreover have "drop (i + 1 + length vids) ?q1 = drop (i + length (vid # vids)) q"
        using i by (simp add: drop_update_cancel)
      ultimately show ?thesis using Cons.IH [OF run] Cons.prems(2) True by simp
    qed
  qed
  then show "length q' = length q" "ok \<longleftrightarrow> (\<forall>vid \<in> set vids. is_resolved h vid)"
    "ok \<Longrightarrow> q' = take i q @ map (var_request h) vids @ drop (i + length vids) q" by blast+
qed

lemma same_but_requestI [simp]:
  "length q = length (chunk_request c) \<Longrightarrow> same_but_request c (c\<lparr>chunk_request := q\<rparr>)"
  by (auto simp: same_but_request_def)

text \<open>The request of a chunk once it is complete.\<close>

definition complete_chunk :: "'e heap \<Rightarrow> read_request_chunk \<Rightarrow> read_request_chunk" where
  "complete_chunk h c = c\<lparr>chunk_request := map (var_request h) (chunk_variables c)\<rparr>"

lemma initialize_chunks_ok:
  assumes "initialize_chunks h cs = (ok, cs')"
    and "\<forall>c \<in> set cs. length (chunk_request c) = length (chunk_variables c)"
  shows "list_all2 same_but_request cs cs'
    \<and> (ok \<longleftrightarrow> (\<forall>c \<in> set cs. \<forall>vid \<in> set (chunk_variables c). is_resolved h vid))
    \<and> (ok \<longrightarrow> cs' = map (complete_chunk h) cs)"
  using assms
proof (induction cs arbitrary: cs' ok)
  case Nil
  then show ?case by simp
next
  case (Cons c cs)
  obtain ok1 q where q: "initialize_vars h (chunk_variables c) 0 (chunk_request c) = (ok1, q)"
    by (cases "initialize_vars h (chunk_variables c) 0 (chunk_request c)") auto
  obtain ok2 cs2 where r: "initialize_chunks h cs = (ok2, cs2)" by (cases "initialize_chunks h cs") auto
  have len: "0 + length (chunk_variables c) \<le> length (chunk_request c)" using Cons.prems(2) by simp
  note v = initialize_vars_ok [OF q len]
  note ih = Cons.IH [OF r]
  have refl: "list_all2 same_but_request cs cs" by (simp add: list_all2_refl)
  show ?case
    using Cons.prems q r v ih refl
    by (cases ok1) (auto simp: Let_def complete_chunk_def)
qed

lemma initialize_sets_ok:
  assumes "initialize_sets h m = (ok, m')"
    and "\<forall>(port, cs) \<in> set m. \<forall>c \<in> set cs. length (chunk_request c) = length (chunk_variables c)"
  shows "list_all2 (rel_prod (=) (list_all2 same_but_request)) m m'
    \<and> (ok \<longleftrightarrow> (\<forall>(port, cs) \<in> set m. \<forall>c \<in> set cs. \<forall>vid \<in> set (chunk_variables c). is_resolved h vid))
    \<and> (ok \<longrightarrow> m' = map (\<lambda>(port, cs). (port, map (complete_chunk h) cs)) m)"
  using assms
proof (induction m arbitrary: m' ok)
  case Nil
  then show ?case by simp
next
  case (Cons e m)
  obtain port cs where e: "e = (port, cs)" by (cases e)
  obtain ok1 cs1 where q: "initialize_chunks h cs = (ok1, cs1)" by (cases "initialize_chunks h cs") auto
  obtain ok2 m2 where r: "initialize_sets h m = (ok2, m2)" by (cases "initialize_sets h m") auto
  have c: "list_all2 same_but_request cs cs1
    \<and> (ok1 \<longleftrightarrow> (\<forall>c \<in> set cs. \<forall>vid \<in> set (chunk_variables c). is_resolved h vid))
    \<and> (ok1 \<longrightarrow> cs1 = map (complete_chunk h) cs)"
    using Cons.prems(2) e by (intro initialize_chunks_ok [OF q]) auto
  have ih: "list_all2 (rel_prod (=) (list_all2 same_but_request)) m m2
    \<and> (ok2 \<longleftrightarrow> (\<forall>(port, cs) \<in> set m. \<forall>c \<in> set cs. \<forall>vid \<in> set (chunk_variables c). is_resolved h vid))
    \<and> (ok2 \<longrightarrow> m2 = map (\<lambda>(port, cs). (port, map (complete_chunk h) cs)) m)"
    using Cons.prems(2) by (intro Cons.IH [OF r]) auto
  have refl: "list_all2 (rel_prod (=) (list_all2 same_but_request)) m m"
    by (intro list_all2_refl) (simp add: list_all2_refl rel_prod_sel)
  show ?case
    using Cons.prems(1) q r c ih refl e by (cases ok1) auto
qed

lemma map_complete: "map (\<lambda>(port, cs). (port, map (complete_chunk h) cs)) (req_chunks r)
    = req_chunks (map_chunks (complete_chunk h) r)"
  by (simp add: map_chunks_def)

lemma req_request_lengths:
  assumes "req_ok h r"
  shows "\<forall>(port, cs) \<in> set (req_chunks r). \<forall>c \<in> set cs. length (chunk_request c) = length (chunk_variables c)"
proof clarify
  fix port cs c assume "(port, cs) \<in> set (req_chunks r)" "c \<in> set cs"
  then have "c \<in> set (get_chunks r)" by (force simp: get_chunks_def)
  then show "length (chunk_request c) = length (chunk_variables c)" by (rule req_chunk_inv(4) [OF assms])
qed

lemma all_chunk_vars:
  "(\<forall>(port, cs) \<in> set (req_chunks r). \<forall>c \<in> set cs. \<forall>vid \<in> set (chunk_variables c). P vid)
    \<longleftrightarrow> (\<forall>vid \<in> set (req_variables r). P vid)"
  by (fastforce simp: req_variables_def get_chunks_def)

lemma same_chunks_refl [simp]: "same_chunks r r"
proof -
  have "list_all2 (rel_prod (=) (list_all2 same_but_request)) m m" for m
    by (intro list_all2_refl) (simp add: list_all2_refl rel_prod_sel)
  then show ?thesis by (simp add: same_chunks_def)
qed

lemma initialize_same:
  assumes "req_ok h r" and "initialize h r = (rc, r')"
  shows "same_chunks r r'"
proof -
  obtain ok m where m: "initialize_sets h (req_chunks r) = (ok, m)"
    by (cases "initialize_sets h (req_chunks r)") auto
  note s = initialize_sets_ok [OF m req_request_lengths [OF assms(1)]]
  have "same_chunks r (r\<lparr>req_chunks := m\<rparr>)" "same_chunks r (r\<lparr>req_chunks := m, req_initialized := ok\<rparr>)"
    using s by (simp_all add: same_chunks_def)
  with assms(2) m show ?thesis
    by (cases ok) (auto simp: initialize_def split: if_splits)
qed

lemma initialize_ok:
  assumes "req_ok h r" and "req_allocated r" and "initialize h r = (rc, r')"
  shows "(rc = 0 \<longleftrightarrow> \<not> req_initialized r \<and> (\<forall>vid \<in> set (req_variables r). is_resolved h vid))
    \<and> req_ok h r' \<and> req_variables r' = req_variables r \<and> req_buffers r' = req_buffers r
    \<and> req_allocated r' \<and> (req_initialized r' \<longleftrightarrow> req_initialized r \<or> rc = 0)
    \<and> (rc = 0 \<longrightarrow> get_chunks r' = map (complete_chunk h) (get_chunks r))"
proof (cases "req_initialized r")
  case True
  with assms show ?thesis by (auto simp: initialize_def)
next
  case False
  obtain ok m where m: "initialize_sets h (req_chunks r) = (ok, m)"
    by (cases "initialize_sets h (req_chunks r)") auto
  note s = initialize_sets_ok [OF m req_request_lengths [OF assms(1)], unfolded all_chunk_vars map_complete]
  have r': "r' = r\<lparr>req_chunks := m, req_initialized := ok\<rparr>" and rc: "rc = (if ok then 0 else EPICSADS_NOT_RESOLVED)"
    using assms(2,3) False m by (cases ok; cases r; auto simp: initialize_def)+
  note sc = same_chunks_ok [OF initialize_same [OF assms(1,3)]]
  have "get_chunks r' = map (complete_chunk h) (get_chunks r)" if ok
  proof -
    have "get_chunks r' = get_chunks (map_chunks (complete_chunk h) r)"
      using s that by (simp add: r' get_chunks_def)
    then show ?thesis by simp
  qed
  then show ?thesis using sc assms False s rc by (auto simp: r')
qed

text \<open>
  \<open>initialize\<close> of an allocated request succeeds exactly when the request has not been
  initialised before and all of its variables are resolved. Then the request of every chunk lists,
  in the order of its variables, the index group, the index offset and the size of each; otherwise
  the request stays uninitialised. In both cases the invariant still holds and the variables and
  buffers of the chunks are the same.
\<close>

theorem initialize_correct:
  assumes "req_ok h r" and "req_allocated r" and "initialize h r = (rc, r')"
  shows "(rc = 0 \<longleftrightarrow> \<not> req_initialized r \<and> (\<forall>vid \<in> set (req_variables r). is_resolved h vid))
    \<and> req_ok h r' \<and> req_variables r' = req_variables r \<and> req_buffers r' = req_buffers r
    \<and> req_allocated r' \<and> (req_initialized r' \<longleftrightarrow> req_initialized r \<or> rc = 0)
    \<and> (rc = 0 \<longrightarrow> get_chunks r' = map (complete_chunk h) (get_chunks r))"
  using assms by (rule initialize_ok)

lemma example_allocated_resolved:
  "example_allocated v0 h r \<Longrightarrow> example_var_ok v0 \<Longrightarrow> \<forall>vid \<in> set (req_variables r). is_resolved h vid"
  using like_example(1) [of h _ v0] by (simp add: example_allocated_def is_resolved_def example_var_ok_def)

theorem initialize_correct_witness:
  "\<exists>h r r'. set (req_variables r) = {3, 4} \<and> initialize (h :: nat heap) r = (0, r')
     \<and> get_chunks r' = map (complete_chunk h) (get_chunks r)"
proof -
  obtain h r where e: "example_allocated example_resolved h r"
    using example_allocated_exists [OF example_resolved_ok] by blast
  obtain rc r' where i: "initialize h r = (rc, r')" by (cases "initialize h r") auto
  have ok: "req_ok h r" "req_allocated r" using e by (simp_all add: example_allocated_def)
  show ?thesis
    using initialize_correct [OF ok i] e i example_allocated_resolved [OF e example_resolved_ok]
    by (intro exI [of _ h] exI [of _ r] exI [of _ r']) (simp add: example_allocated_def)
qed

lemma deinitialize_ok:
  assumes "deinitialize r = (rc, r')"
  shows "rc = 0" and "same_chunks r r'" and "\<not> req_initialized r'" and "req_allocated r' = req_allocated r"
proof -
  let ?f = "\<lambda>c. c\<lparr>chunk_request := map (\<lambda>_. (0, 0, 0)) (chunk_request c)\<rparr> :: read_request_chunk"
  have one: "list_all2 same_but_request cs (map ?f cs)" for cs
    by (induction cs) simp_all
  have "list_all2 (rel_prod (=) (list_all2 same_but_request)) m (map (\<lambda>(port, cs). (port, map ?f cs)) m)" for m
    by (induction m) (auto simp: one)
  then show "same_chunks r r'"
    using assms by (auto simp: deinitialize_def same_chunks_def map_chunks_def)
qed (use assms in \<open>auto simp: deinitialize_def\<close>)

section \<open>Reading\<close>

lemma all_bufs_set_buf:
  "all_bufs P h cs \<Longrightarrow> P b \<Longrightarrow> all_bufs P (set_buf bid b h) cs"
  by (simp add: all_bufs_def)

lemma buf_inv_state [simp]: "buf_inv sz (b\<lparr>buf_state := st\<rparr>) = buf_inv sz b"
  by (simp add: buf_inv_def)

lemma same_layout_simps [simp]:
  "same_layout b (b\<lparr>buf_state := st\<rparr>)" "same_layout b (store_response n resp b)"
  "same_layout b (store_response n resp b\<lparr>buf_state := st\<rparr>)"
  by (simp_all add: same_layout_def store_response_def)

text \<open>What reading may change: the buffers of the request and the library's state.\<close>

definition read_frame :: "sum_read_request \<Rightarrow> 'e heap \<Rightarrow> 'e heap \<Rightarrow> bool" where
  "read_frame r h h' \<longleftrightarrow> h_vars h' = h_vars h \<and> h_conn h' = h_conn h
     \<and> h_next_buf h' = h_next_buf h
     \<and> (\<forall>bid. bid \<notin> set (req_buffers r) \<longrightarrow> h_bufs h' bid = h_bufs h bid)"

lemma read_frame_refl [simp]: "read_frame r h h"
  and read_frame_trans: "read_frame r h h1 \<Longrightarrow> read_frame r h1 h2 \<Longrightarrow> read_frame r h h2"
  by (auto simp: read_frame_def)

lemma read_frame_set_buf [simp]:
  "c \<in> set (get_chunks r) \<Longrightarrow> read_frame r h (set_buf (chunk_buffer c) b h)"
  by (auto simp: read_frame_def req_buffers_def)

lemma set_state_ok:
  assumes "req_ok h r" and "set cs \<subseteq> set (get_chunks r)" and "all_bufs buf_initialized h (get_chunks r)"
  shows "req_ok (foldl (\<lambda>h c. set_buf (chunk_buffer c) ((h_buf h (chunk_buffer c))\<lparr>buf_state := st\<rparr>) h) h cs) r
    \<and> read_frame r h (foldl (\<lambda>h c. set_buf (chunk_buffer c) ((h_buf h (chunk_buffer c))\<lparr>buf_state := st\<rparr>) h) h cs)
    \<and> all_bufs buf_initialized
        (foldl (\<lambda>h c. set_buf (chunk_buffer c) ((h_buf h (chunk_buffer c))\<lparr>buf_state := st\<rparr>) h) h cs) (get_chunks r)
    \<and> (\<forall>c. buf_state (h_buf h (chunk_buffer c)) = st \<or> c \<in> set cs \<longrightarrow>
        buf_state (h_buf (foldl (\<lambda>h c. set_buf (chunk_buffer c) ((h_buf h (chunk_buffer c))\<lparr>buf_state := st\<rparr>) h) h cs)
          (chunk_buffer c)) = st)"
  using assms
proof (induction cs arbitrary: h)
  case Nil
  then show ?case by simp
next
  case (Cons c cs)
  let ?h1 = "set_buf (chunk_buffer c) ((h_buf h (chunk_buffer c))\<lparr>buf_state := st\<rparr>) h"
  have c: "c \<in> set (get_chunks r)" using Cons.prems(2) by simp
  have ok1: "req_ok ?h1 r"
    using req_chunk_inv(1) [OF Cons.prems(1) c] by (intro req_ok_set_buf [OF Cons.prems(1) c]) simp_all
  have init1: "all_bufs buf_initialized ?h1 (get_chunks r)"
    using Cons.prems(3) c by (simp add: all_bufs_def)
  have frame1: "read_frame r h ?h1" using c by simp
  from Cons.IH [OF ok1 _ init1] Cons.prems(2) show ?case
    using read_frame_trans [OF frame1] by simp
qed

lemma set_buffers_state_ok:
  assumes "req_ok h r" and "all_bufs buf_initialized h (get_chunks r)"
  shows "req_ok (set_buffers_state st r h) r" and "read_frame r h (set_buffers_state st r h)"
    and "all_bufs buf_initialized (set_buffers_state st r h) (get_chunks r)"
    and "all_bufs (\<lambda>b. buf_state b = st) (set_buffers_state st r h) (get_chunks r)"
  using set_state_ok [OF assms(1) subset_refl assms(2), of st]
  by (simp_all add: set_buffers_state_def all_bufs_def)

lemma req_ok_env [simp]: "req_ok (h\<lparr>h_env := e\<rparr>) r = req_ok h r"
  by (simp add: req_ok_def chunks_ok_def chunk_ok_def h_buf_def h_size_def [abs_def] h_reader_def h_addr_def)

lemma heap_env_simps [simp]:
  "h_buf (h\<lparr>h_env := e\<rparr>) = h_buf h" "read_frame r h (h1\<lparr>h_env := e\<rparr>) = read_frame r h h1"
  "all_bufs P (h\<lparr>h_env := e\<rparr>) cs = all_bufs P h cs"
  by (simp_all add: h_buf_def fun_eq_iff read_frame_def all_bufs_def)

lemma save_buffer_layout: "save_buffer b = Some b' \<Longrightarrow> same_layout b b'"
  by (auto simp: save_buffer_def same_layout_def split: option.splits bind_splits)

lemma length_encode_requests [simp]: "length (concat (map encode_symbol_info qs)) = 12 * length qs"
  by (induction qs) (auto simp: encode_symbol_info_def)

text \<open>The ADS call that reading a chunk makes.\<close>

definition chunk_call :: "ads_def \<Rightarrow> 'e ads_lib \<Rightarrow> 'e heap \<Rightarrow> read_request_chunk \<Rightarrow> int \<times> byte list \<times> 'e" where
  "chunk_call d lib h c =
     AdsSyncReadWriteReqEx2 lib (h_env h) (conn_ads_port (h_conn h))
       (remote_ams_netid (h_conn h), chunk_ads_port c) (ADSIGRP_SUMUP_READ d)
       (length (chunk_variables c)) (u32 (buf_buffer_size (h_buf h (chunk_buffer c))))
       (concat (map encode_symbol_info (chunk_request c)))"

definition all_valid :: "'e heap \<Rightarrow> read_request_chunk list \<Rightarrow> bool" where
  "all_valid h cs \<longleftrightarrow> all_bufs (\<lambda>b. buf_state b = Buf_Valid) h cs"

definition all_invalid :: "'e heap \<Rightarrow> read_request_chunk list \<Rightarrow> bool" where
  "all_invalid h cs \<longleftrightarrow> all_bufs (\<lambda>b. buf_state b = Buf_Invalid) h cs"

lemma read_chunk_ok:
  assumes ok: "req_ok h r" and c: "c \<in> set (get_chunks r)" and init: "all_bufs buf_initialized h (get_chunks r)"
  obtains returns rc h1 where "read_chunk d lib r c h = Some (returns, rc, h1)"
    and "req_ok h1 r" and "read_frame r h h1" and "all_bufs buf_initialized h1 (get_chunks r)"
    and "returns \<Longrightarrow> rc = ads_rc_to_epicsads_error d (fst (chunk_call d lib h c))
           \<and> fst (chunk_call d lib h c) \<noteq> 0 \<and> all_invalid h1 (get_chunks r)"
    and "\<not> returns \<Longrightarrow> rc = 0 \<and> fst (chunk_call d lib h c) = 0
           \<and> buf_state (h_buf h1 (chunk_buffer c)) = Buf_Valid
           \<and> buf_buffer (h_buf h1 (chunk_buffer c)) =
               buf_buffer (store_full (fst (snd (chunk_call d lib h c))) (h_buf h (chunk_buffer c)))
           \<and> (\<forall>bid. bid \<noteq> chunk_buffer c \<longrightarrow> h_bufs h1 bid = h_bufs h bid)"
proof -
  let ?b0 = "h_buf h (chunk_buffer c)"
  note inv = req_chunk_inv [OF ok c]
  obtain b where b: "save_buffer ?b0 = Some b" and binv: "buf_inv (h_size h) b"
    and bb: "buf_buffer b = buf_buffer ?b0" "buf_state b = buf_state ?b0"
      "buf_variables b = chunk_variables c" "buf_buffer_size b = buf_buffer_size ?b0"
    and bi: "buf_initialized b"
    using save_buffer_ok [OF inv(1)] init c inv(2) by (auto simp: all_bufs_def)
  obtain rc0 resp e1 where call: "chunk_call d lib h c = (rc0, resp, e1)" by (cases "chunk_call d lib h c") auto
  let ?b1 = "store_response (u32 (buf_buffer_size ?b0)) resp b"
  let ?h2 = "(set_buf (chunk_buffer c) ?b1 (set_buf (chunk_buffer c) b h))\<lparr>h_env := e1\<rparr>"
  let ?h3 = "set_buf (chunk_buffer c) (?b1\<lparr>buf_state := Buf_Valid\<rparr>) ?h2"
  have len: "length (chunk_variables c) < 65536" "length (chunk_request c) = length (chunk_variables c)"
    using inv by (auto simp: buf_inv_def)
  have run: "read_chunk d lib r c h =
     (if rc0 \<noteq> 0 then Some (True, ads_rc_to_epicsads_error d rc0, set_buffers_state Buf_Invalid r ?h2)
      else Some (False, 0, ?h3))"
    using call b bi bb binv len
    by (simp add: read_chunk_def chunk_call_def Let_def mult.commute)
  have ok1: "req_ok (set_buf (chunk_buffer c) b h) r"
    by (rule req_ok_set_buf [OF ok c binv save_buffer_layout [OF b]])
  have ok2: "req_ok ?h2 r"
    using req_ok_set_buf [OF ok1 c, of ?b1] store_response_inv [OF binv] by simp
  have init2: "all_bufs buf_initialized ?h2 (get_chunks r)"
    using init bi by (simp add: all_bufs_set_buf frame_simps)
  have ok3: "req_ok ?h3 r"
    using req_ok_set_buf [OF ok2 c, of "?b1\<lparr>buf_state := Buf_Valid\<rparr>"] store_response_inv [OF binv]
    by (simp add: h_size_def [abs_def])
  show ?thesis
  proof (cases "rc0 = 0")
    case True
    show ?thesis
      using run True call ok3 init2 bi bb c inv(3)
      by (intro that [of False 0 ?h3])
        (auto simp: read_frame_def req_buffers_def all_bufs_def frame_simps store_full_def store_response_def)
  next
    case False
    note s = set_buffers_state_ok [OF ok2 init2, of Buf_Invalid]
    have "read_frame r h ?h2" using c by (auto simp: read_frame_def req_buffers_def)
    then have "read_frame r h (set_buffers_state Buf_Invalid r ?h2)" using s(2) by (rule read_frame_trans)
    with run False call s show ?thesis
      by (intro that [of True "ads_rc_to_epicsads_error d rc0"]) (simp_all add: all_invalid_def)
  qed
qed

text \<open>What a chunk's buffer holds after it has been read, at a moment when the library was in state \<open>e\<close>.\<close>

definition chunk_read_at ::
  "ads_def \<Rightarrow> 'e ads_lib \<Rightarrow> 'e heap \<Rightarrow> 'e heap \<Rightarrow> read_request_chunk \<Rightarrow> 'e \<Rightarrow> bool" where
  "chunk_read_at d lib h h' c e \<longleftrightarrow>
     (case chunk_call d lib (h\<lparr>h_env := e\<rparr>) c of (rc, resp, _) \<Rightarrow>
        rc = 0 \<and> buf_buffer (h_buf h' (chunk_buffer c))
                = buf_buffer (store_full resp (h_buf h (chunk_buffer c))))"

lemma chunk_call_frame:
  assumes "read_frame r h h1" and "h_bufs h1 (chunk_buffer c) = h_bufs h (chunk_buffer c)"
  shows "chunk_call d lib h1 c = chunk_call d lib (h\<lparr>h_env := h_env h1\<rparr>) c"
    and "chunk_call d lib (h1\<lparr>h_env := e\<rparr>) c = chunk_call d lib (h\<lparr>h_env := e\<rparr>) c"
  using assms by (simp_all add: chunk_call_def read_frame_def h_buf_def)

lemma read_chunks_ok:
  fixes h :: "'e heap"
  assumes "wf_ads_def d" and "req_ok h r" and "set cs \<subseteq> set (get_chunks r)"
    and "distinct (map chunk_buffer cs)" and "all_bufs buf_initialized h (get_chunks r)"
  shows "\<exists>rc h'. read_chunks d lib r cs h = Some (rc, h') \<and> req_ok h' r \<and> read_frame r h h'
    \<and> all_bufs buf_initialized h' (get_chunks r)
    \<and> ((\<forall>(h :: 'e heap) c. fst (chunk_call d lib h c) = 0) \<longrightarrow> rc = 0)
    \<and> (rc \<noteq> 0 \<longrightarrow> all_invalid h' (get_chunks r))
    \<and> (rc = 0 \<longrightarrow> all_valid h' cs \<and> (\<forall>c \<in> set cs. \<exists>e. chunk_read_at d lib h h' c e)
         \<and> (\<forall>bid. bid \<notin> chunk_buffer ` set cs \<longrightarrow> h_bufs h' bid = h_bufs h bid))"
  using assms(2-5)
proof (induction cs arbitrary: h)
  case Nil
  then show ?case by (simp add: all_valid_def all_bufs_def)
next
  case (Cons c cs)
  have c: "c \<in> set (get_chunks r)" using Cons.prems(2) by simp
  show ?case
  proof (rule read_chunk_ok [OF Cons.prems(1) c Cons.prems(4), of d lib])
    fix returns rc h1
    assume one: "read_chunk d lib r c h = Some (returns, rc, h1)"
      and ok1: "req_ok h1 r" and frame1: "read_frame r h h1" and init1: "all_bufs buf_initialized h1 (get_chunks r)"
      and ret: "returns \<Longrightarrow> rc = ads_rc_to_epicsads_error d (fst (chunk_call d lib h c))
           \<and> fst (chunk_call d lib h c) \<noteq> 0 \<and> all_invalid h1 (get_chunks r)"
      and cont: "\<not> returns \<Longrightarrow> rc = 0 \<and> fst (chunk_call d lib h c) = 0
           \<and> buf_state (h_buf h1 (chunk_buffer c)) = Buf_Valid
           \<and> buf_buffer (h_buf h1 (chunk_buffer c)) =
               buf_buffer (store_full (fst (snd (chunk_call d lib h c))) (h_buf h (chunk_buffer c)))
           \<and> (\<forall>bid. bid \<noteq> chunk_buffer c \<longrightarrow> h_bufs h1 bid = h_bufs h bid)"
    show ?thesis
    proof (cases returns)
      case True
      with ret [OF True] ads_rc_nonzero [OF assms(1)] one ok1 frame1 init1 show ?thesis by auto
    next
      case False
      have other: "h_bufs h1 bid = h_bufs h bid" if "bid \<noteq> chunk_buffer c" for bid
        using cont [OF False] that by blast
      obtain rc' h' where run: "read_chunks d lib r cs h1 = Some (rc', h')" and ok': "req_ok h' r"
        and frame': "read_frame r h1 h'" and init': "all_bufs buf_initialized h' (get_chunks r)"
        and succ: "(\<forall>(h :: 'e heap) c. fst (chunk_call d lib h c) = 0) \<longrightarrow> rc' = 0"
        and bad: "rc' \<noteq> 0 \<longrightarrow> all_invalid h' (get_chunks r)"
        and good: "rc' = 0 \<longrightarrow> all_valid h' cs \<and> (\<forall>c \<in> set cs. \<exists>e. chunk_read_at d lib h1 h' c e)
         \<and> (\<forall>bid. bid \<notin> chunk_buffer ` set cs \<longrightarrow> h_bufs h' bid = h_bufs h1 bid)"
        using Cons.IH [OF ok1 _ _ init1] Cons.prems(2,3) by auto
      have fresh: "chunk_buffer c \<notin> chunk_buffer ` set cs" using Cons.prems(3) by simp
      have later: "chunk_read_at d lib h h' c' e" if "c' \<in> set cs" "chunk_read_at d lib h1 h' c' e" for c' e
      proof -
        have "chunk_buffer c' \<noteq> chunk_buffer c" using fresh that(1) by (metis imageI)
        then have "h_bufs h1 (chunk_buffer c') = h_bufs h (chunk_buffer c')" by (rule other)
        with that(2) chunk_call_frame(2) [OF frame1 this] show ?thesis
          by (simp add: chunk_read_at_def h_buf_def)
      qed
      have here: "chunk_read_at d lib h h' c (h_env h)" and "buf_state (h_buf h' (chunk_buffer c)) = Buf_Valid"
        if "rc' = 0"
        using cont [OF False] good that fresh
        by (auto simp: chunk_read_at_def h_buf_def split: prod.splits)
      then show ?thesis
        using one run False ok' read_frame_trans [OF frame1 frame'] init' succ bad good later here other
        by (auto simp: all_valid_def all_bufs_def) metis+
    qed
  qed
qed

lemma sum_read_ok:
  fixes h :: "'e heap"
  assumes "wf_ads_def d" and "req_ok h r" and "req_initialized r" and "all_bufs buf_initialized h (get_chunks r)"
  shows "\<exists>rc h'. sum_read d lib h r = Some (rc, h') \<and> req_ok h' r \<and> read_frame r h h'
    \<and> all_bufs buf_initialized h' (get_chunks r)
    \<and> ((\<forall>(h :: 'e heap) c. fst (chunk_call d lib h c) = 0) \<longrightarrow> rc = 0)
    \<and> (rc \<noteq> 0 \<longrightarrow> all_invalid h' (get_chunks r))
    \<and> (rc = 0 \<longrightarrow> all_valid h' (get_chunks r) \<and> (\<forall>c \<in> set (get_chunks r). \<exists>e. chunk_read_at d lib h h' c e))"
proof -
  have "distinct (map chunk_buffer (get_chunks r))" using assms(2) by (simp add: req_ok_def chunks_ok_def)
  from read_chunks_ok [OF assms(1,2) subset_refl this assms(4), of lib] show ?thesis
    using assms(3) by (auto simp: sum_read_def)
qed

text \<open>
  C21. Reading is all or nothing in what it makes visible: for an initialised request whose
  invariant holds, \<open>read\<close> runs into no undefined behaviour, whatever the ADS library answers. If
  it returns 0, every buffer is valid and holds the answer to its own request; if it returns an
  error, every buffer of the request is invalid, also those that were read before the failure. It
  changes nothing but its own buffers, and the invariant still holds.
\<close>

theorem sum_read_all_or_nothing:
  assumes "wf_ads_def d" and "req_ok h r" and "req_initialized r" and "all_bufs buf_initialized h (get_chunks r)"
  shows "\<exists>rc h'. sum_read d lib h r = Some (rc, h') \<and> req_ok h' r
    \<and> (if rc = 0 then all_valid h' (get_chunks r)
            \<and> (\<forall>c \<in> set (get_chunks r). \<exists>e. chunk_read_at d lib h h' c e)
       else all_invalid h' (get_chunks r))
    \<and> all_bufs buf_initialized h' (get_chunks r)
    \<and> h_vars h' = h_vars h \<and> h_conn h' = h_conn h
    \<and> (\<forall>bid. bid \<notin> set (req_buffers r) \<longrightarrow> h_bufs h' bid = h_bufs h bid)"
proof -
  obtain rc h' where "sum_read d lib h r = Some (rc, h') \<and> req_ok h' r \<and> read_frame r h h'
    \<and> all_bufs buf_initialized h' (get_chunks r)
    \<and> (rc \<noteq> 0 \<longrightarrow> all_invalid h' (get_chunks r))
    \<and> (rc = 0 \<longrightarrow> all_valid h' (get_chunks r) \<and> (\<forall>c \<in> set (get_chunks r). \<exists>e. chunk_read_at d lib h h' c e))"
    using sum_read_ok [OF assms, of lib] by blast
  then show ?thesis by (intro exI [of _ rc] exI [of _ h']) (simp add: read_frame_def)
qed

text \<open>The request of the example, initialised, for concrete instances.\<close>

definition example_initialized :: "ads_variable \<Rightarrow> nat heap \<Rightarrow> sum_read_request \<Rightarrow> bool" where
  "example_initialized v0 h r \<longleftrightarrow> req_ok h r \<and> req_allocated r \<and> req_initialized r
     \<and> set (req_variables r) = {3, 4} \<and> all_bufs buf_initialized h (get_chunks r)
     \<and> (\<forall>c \<in> set (get_chunks r). chunk_request c = map (var_request h) (chunk_variables c))
     \<and> (\<forall>v. \<exists>pos. h_vars h v = set_buffer_reader pos v0) \<and> h_conn h = h_conn example_heap"

lemma example_initialized_exists:
  assumes "example_var_ok v0"
  shows "\<exists>h r. example_initialized v0 h r"
proof -
  obtain h r where e: "example_allocated v0 h r" using example_allocated_exists [OF assms] by blast
  obtain rc r' where i: "initialize h r = (rc, r')" by (cases "initialize h r") auto
  have ok: "req_ok h r" "req_allocated r" using e by (simp_all add: example_allocated_def)
  note s = initialize_ok [OF ok i]
  have "rc = 0" using s e example_allocated_resolved [OF e assms] by (auto simp: example_allocated_def)
  with s have g: "get_chunks r' = map (complete_chunk h) (get_chunks r)" by blast
  have "example_initialized v0 h r'"
    using s e g \<open>rc = 0\<close>
    by (auto simp: example_initialized_def example_allocated_def all_bufs_def complete_chunk_def)
  then show ?thesis by blast
qed

theorem sum_read_all_or_nothing_witness:
  "\<exists>h r rc h'. set (req_variables r) = {3, 4} \<and> sum_read ads_def_documented example_lib h r = Some (rc, h')
     \<and> (if rc = 0 then all_valid h' (get_chunks r) else all_invalid h' (get_chunks r))"
proof -
  obtain h r where e: "example_initialized example_resolved h r"
    using example_initialized_exists [OF example_resolved_ok] by blast
  then have ok: "req_ok h r" "req_initialized r" "all_bufs buf_initialized h (get_chunks r)"
    by (simp_all add: example_initialized_def)
  obtain rc h' where "sum_read ads_def_documented example_lib h r = Some (rc, h') \<and>
      (if rc = 0 then all_valid h' (get_chunks r)
            \<and> (\<forall>c \<in> set (get_chunks r). \<exists>e. chunk_read_at ads_def_documented example_lib h h' c e)
       else all_invalid h' (get_chunks r))"
    using sum_read_all_or_nothing [OF wf_ads_def_documented ok, of example_lib] by blast
  with e show ?thesis
    by (intro exI [of _ h] exI [of _ r] exI [of _ rc] exI [of _ h']) (auto simp: example_initialized_def)
qed

end
