(* ===== verification/Variable_IO.thy ===== *)
theory Variable_IO
  imports Request_Read
begin

text \<open>
  The methods of \<open>ADSVariable\<close> in \<open>Variable.cpp\<close> that use the buffers and the connection:
  reading from the sum-read buffer, and reading and writing directly. \<open>None\<close> as the result of an
  operation is undefined behaviour; a null pointer is \<open>None\<close>, the memory a pointer refers to is its
  contents, of the size that was allocated.
\<close>

section \<open>Reading from the buffer\<close>

text \<open>
  \<open>size\<close> is the size the caller gives, \<open>buffer\<close> the contents of its memory. The result is the
  return code and the memory afterwards.
\<close>

definition read_from_buffer ::
  "ads_def \<Rightarrow> nat \<Rightarrow> nat \<Rightarrow> byte list option \<Rightarrow> 'e heap
     \<Rightarrow> (int \<times> byte list option \<times> 'e heap) option" where
  "read_from_buffer d vid size_arg buffer h =
     (let v = h_vars h vid; pos = var_buffer_reader v in
      if pos = EMPTY_BUFFER_DATA_POSITION then Some (EPICSADS_NO_DATA, buffer, h)
      else
        (case pos_buffer pos of
           None \<Rightarrow> Some (EPICSADS_ERROR, buffer, h)
         | Some bid \<Rightarrow>
             Option.bind (h_bufs h bid) (\<lambda>b.
               if buf_state b = Buf_Invalid then Some (EPICSADS_DISCONNECTED, buffer, h)
               else
                 let bytes_to_read = min size_arg (var_size v) in
                 Option.bind
                   (read_data (pos_off_result pos) (pos_off_data pos) bytes_to_read (Some 0) buffer b)
                   (\<lambda>(rc, read_result, buffer').
                     if rc \<noteq> 0 then Some (ads_rc_to_epicsads_error d rc, buffer', h)
                     else if read_result \<noteq> Some 0 then Some (EPICSADS_NO_DATA, buffer', h)
                     else if var_write_readback v \<and> var_last_written v \<noteq> []
                       then Option.bind (mem_write (the buffer') (var_last_written v)) (\<lambda>buffer''.
                              Some (0, Some buffer'', upd_var vid (\<lambda>v. v\<lparr>var_last_written := []\<rparr>) h))
                     else Some (0, buffer', h)))))"

section \<open>Writing and reading directly\<close>

definition var_write ::
  "ads_def \<Rightarrow> 'e ads_lib \<Rightarrow> nat \<Rightarrow> byte list option \<Rightarrow> nat \<Rightarrow> 'e heap \<Rightarrow> (int \<times> 'e heap) option" where
  "var_write d lib vid data size_arg h =
     (let v = h_vars h vid; a = var_addr v in
      case data of
        None \<Rightarrow> Some (EPICSADS_INV_PARAM, h)
      | Some src \<Rightarrow>
          if \<not> var_conn v then Some (EPICSADS_NOT_INITIALIZED, h)
          else if \<not> addr_name_is_resolved a then Some (EPICSADS_NOT_RESOLVED, h)
          else if size_arg > var_size v then Some (EPICSADS_OVERFLOW, h)
          else
            Option.bind (mem_read src 0 size_arg) (\<lambda>bytes.
            Option.bind (mem_write (replicate (var_size v) 0) bytes) (\<lambda>buffer.
              case AdsSyncWriteReqEx lib (h_env h) (conn_ads_port (h_conn h)) (ams_addr_of h vid)
                     (addr_index_group a) (addr_index_offset a) buffer of
                (rc, e1) \<Rightarrow>
                  (let h1 = h\<lparr>h_env := e1\<rparr> in
                   if rc \<noteq> 0 then Some (ads_rc_to_epicsads_error d rc, h1)
                   else Some (0, if var_write_readback v
                                 then upd_var vid (\<lambda>v. v\<lparr>var_last_written := buffer\<rparr>) h1 else h1)))))"

text \<open>
  The library may store up to \<open>bytes_to_read\<close> bytes into \<open>data\<close>; how many it stored is the
  out-parameter \<open>bytes_read\<close>.
\<close>

definition var_read ::
  "ads_def \<Rightarrow> 'e ads_lib \<Rightarrow> nat \<Rightarrow> byte list option \<Rightarrow> nat \<Rightarrow> nat \<Rightarrow> 'e heap
     \<Rightarrow> (int \<times> byte list option \<times> nat \<times> 'e heap) option" where
  "var_read d lib vid data size_arg bytes_read h =
     (let v = h_vars h vid; a = var_addr v in
      case data of
        None \<Rightarrow> Some (EPICSADS_INV_PARAM, data, bytes_read, h)
      | Some dst \<Rightarrow>
          if \<not> var_conn v then Some (EPICSADS_NOT_INITIALIZED, data, bytes_read, h)
          else if \<not> addr_name_is_resolved a then Some (EPICSADS_NOT_RESOLVED, data, bytes_read, h)
          else
            let bytes_to_read = min size_arg (var_size v) in
            (case AdsSyncReadReqEx2 lib (h_env h) (conn_ads_port (h_conn h)) (ams_addr_of h vid)
                    (addr_index_group a) (addr_index_offset a) bytes_to_read of
               (rc, resp, e1) \<Rightarrow>
                 Option.bind (mem_write dst (take bytes_to_read resp)) (\<lambda>dst'.
                   Some (if rc \<noteq> 0 then ads_rc_to_epicsads_error d rc else 0, Some dst',
                         min bytes_to_read (length resp), h\<lparr>h_env := e1\<rparr>))))"

section \<open>What the ADS device answers\<close>

text \<open>
  The documented behaviour of a sum-read: if the call succeeds, the answer is the return codes and
  the data of the requested variables; \<open>plc e addr q\<close> is what the device at \<open>addr\<close> answers to the
  request \<open>q\<close> in state \<open>e\<close>. Nothing is said about when a call succeeds.
\<close>

definition fits32 :: "symbol_info \<Rightarrow> bool" where
  "fits32 q \<longleftrightarrow> fst q < 2 ^ 32 \<and> fst (snd q) < 2 ^ 32 \<and> snd (snd q) < 2 ^ 32"

definition answers_sum_reads ::
  "ads_def \<Rightarrow> 'e ads_lib \<Rightarrow> ('e \<Rightarrow> ams_addr \<Rightarrow> symbol_info \<Rightarrow> nat \<times> byte list) \<Rightarrow> bool" where
  "answers_sum_reads d lib plc \<longleftrightarrow>
     (\<forall>e addr q. fst (plc e addr q) < 2 ^ 32 \<and> length (snd (plc e addr q)) = snd (snd q)) \<and>
     (\<forall>e port addr qs n rc resp e'.
        list_all fits32 qs \<longrightarrow> n = 4 * length qs + sum_list (map (snd \<circ> snd) qs) \<longrightarrow> n < 2 ^ 32 \<longrightarrow>
        AdsSyncReadWriteReqEx2 lib e port addr (ADSIGRP_SUMUP_READ d) (length qs) n
          (concat (map encode_symbol_info qs)) = (rc, resp, e') \<longrightarrow>
        rc = 0 \<longrightarrow> resp = sum_response (map (plc e addr) qs))"

text \<open>Every chunk's request is complete, as \<open>initialize\<close> leaves it.\<close>

definition complete_request :: "'e heap \<Rightarrow> sum_read_request \<Rightarrow> bool" where
  "complete_request h r \<longleftrightarrow>
     (\<forall>c \<in> set (get_chunks r). chunk_request c = map (var_request h) (chunk_variables c))"

text \<open>
  The variables of a request are addressed with 32-bit numbers and are not larger than 2 GiB, so
  that a chunk stays below 4 GiB.
\<close>

definition readable_vars :: "'e heap \<Rightarrow> sum_read_request \<Rightarrow> bool" where
  "readable_vars h r \<longleftrightarrow>
     (\<forall>vid \<in> set (req_variables r). fits32 (var_request h vid) \<and> h_size h vid \<le> 2 ^ 31)"

lemma chunk_in_req: "c \<in> set (get_chunks r) \<Longrightarrow> vid \<in> set (chunk_variables c) \<Longrightarrow> vid \<in> set (req_variables r)"
  by (auto simp: req_variables_def)

lemma chunk_small:
  assumes "req_ok h r" and "readable_vars h r" and "c \<in> set (get_chunks r)"
  shows "buf_buffer_size (h_buf h (chunk_buffer c)) < 2 ^ 32"
proof -
  let ?b = "h_buf h (chunk_buffer c)"
  have c: "chunk_ok h (req_max_vars r) c" using assms(1,3) by (simp add: req_ok_def chunks_ok_def)
  have inv: "buf_inv (h_size h) ?b" by (rule req_chunk_inv(1) [OF assms(1,3)])
  have "\<forall>vid \<in> set (chunk_variables c). h_size h vid \<le> 2 ^ 31"
    using assms(2) chunk_in_req [OF assms(3)] by (auto simp: readable_vars_def)
  then have "buf_next_data_offset ?b \<le> 999999 + 2 ^ 31"
    using c unfolding chunk_ok_def Let_def by blast
  then show ?thesis using inv by (simp add: buf_inv_def)
qed

section \<open>What a variable's slot holds after a sum-read\<close>

definition chunk_addr :: "'e heap \<Rightarrow> read_request_chunk \<Rightarrow> ams_addr" where
  "chunk_addr h c = (remote_ams_netid (h_conn h), chunk_ads_port c)"

definition chunk_answers ::
  "('e \<Rightarrow> ams_addr \<Rightarrow> symbol_info \<Rightarrow> nat \<times> byte list) \<Rightarrow> 'e heap \<Rightarrow> read_request_chunk \<Rightarrow> 'e
     \<Rightarrow> (nat \<times> byte list) list" where
  "chunk_answers plc h c e = map (plc e (chunk_addr h c)) (map (var_request h) (chunk_variables c))"

lemma plc_answer:
  assumes "answers_sum_reads d lib plc"
  shows "fst (plc e addr q) < 2 ^ 32" and "length (snd (plc e addr q)) = snd (snd q)"
  using assms unfolding answers_sum_reads_def by blast+

lemma chunk_answers_fit:
  assumes "answers_sum_reads d lib plc"
  shows "response_fits (map (h_size h) (chunk_variables c)) (chunk_answers plc h c e)"
  using plc_answer [OF assms] unfolding response_fits_def chunk_answers_def
  by (auto simp: list_all2_conv_all_nth var_request_def h_size_def split_def)

text \<open>The buffer holds the answer of the device.\<close>

lemma chunk_holds_answers:
  assumes plc: "answers_sum_reads d lib plc" and ok: "req_ok h r" and ready: "all_bufs buf_initialized h (get_chunks r)"
    and vars: "readable_vars h r" and compl: "complete_request h r" and c: "c \<in> set (get_chunks r)"
    and read: "chunk_read_at d lib h h' c e"
  shows "buf_buffer (h_buf h' (chunk_buffer c)) = Some (sum_response (chunk_answers plc h c e))"
proof -
  let ?b = "h_buf h (chunk_buffer c)" and ?qs = "map (var_request h) (chunk_variables c)"
  note inv = req_chunk_inv [OF ok c]
  have small: "buf_buffer_size ?b < 2 ^ 32" by (rule chunk_small [OF ok vars c])
  have size: "buf_buffer_size ?b = 4 * length ?qs + sum_list (map (snd \<circ> snd) ?qs)"
    using inv(1,2) by (simp add: buf_inv_def comp_def var_request_def h_size_def [abs_def])
  have req: "chunk_request c = ?qs" using compl c by (simp add: complete_request_def)
  obtain resp e1 where call: "chunk_call d lib (h\<lparr>h_env := e\<rparr>) c = (0, resp, e1)"
    and buf: "buf_buffer (h_buf h' (chunk_buffer c)) = buf_buffer (store_full resp ?b)"
    using read by (auto simp: chunk_read_at_def)
  have "list_all fits32 ?qs"
    using vars chunk_in_req [OF c] by (auto simp: list_all_iff readable_vars_def)
  moreover have "AdsSyncReadWriteReqEx2 lib e (conn_ads_port (h_conn h)) (chunk_addr h c)
      (ADSIGRP_SUMUP_READ d) (length ?qs) (buf_buffer_size ?b) (concat (map encode_symbol_info ?qs))
    = (0, resp, e1)"
    using call small by (simp add: chunk_call_def chunk_addr_def req)
  ultimately have resp: "resp = sum_response (chunk_answers plc h c e)"
    using plc size small unfolding answers_sum_reads_def chunk_answers_def by blast
  have "length resp = buf_buffer_size ?b"
    using length_sum_response [OF chunk_answers_fit [OF plc, of h c e]] inv(1,2)
    by (simp add: resp buf_inv_def)
  moreover have "buffer_ready (h_size h) ?b"
    using inv(1) ready c small by (simp add: buffer_ready_def all_bufs_def)
  ultimately show ?thesis using buf store_full_buffer resp by simp
qed

lemma chunk_slot:
  assumes plc: "answers_sum_reads d lib plc" and ok: "req_ok h r" and ready: "all_bufs buf_initialized h (get_chunks r)"
    and vars: "readable_vars h r" and compl: "complete_request h r" and c: "c \<in> set (get_chunks r)"
    and read: "chunk_read_at d lib h h' c e" and ok': "req_ok h' r" and frame: "read_frame r h h'"
    and i: "i < length (chunk_variables c)" and n: "n \<le> h_size h (chunk_variables c ! i)"
    and dst: "n \<le> length dst"
  shows "read_data i (slot_offset (h_size h) (h_buf h' (chunk_buffer c)) i) n (Some rr) (Some dst)
      (h_buf h' (chunk_buffer c))
    = Some (0, Some (fst (plc e (chunk_addr h c) (var_request h (chunk_variables c ! i)))),
        Some (take n (snd (plc e (chunk_addr h c) (var_request h (chunk_variables c ! i)))) @ drop n dst))"
proof -
  let ?b' = "h_buf h' (chunk_buffer c)" and ?rs = "chunk_answers plc h c e"
  have sz: "h_size h' = h_size h" using frame by (simp add: read_frame_def h_size_def [abs_def])
  note inv = req_chunk_inv [OF ok' c, unfolded sz]
  have buf: "buf_buffer ?b' = Some (sum_response ?rs)"
    by (rule chunk_holds_answers [OF plc ok ready vars compl c read])
  have rs: "?rs ! i = plc e (chunk_addr h c) (var_request h (chunk_variables c ! i))" "i < length ?rs"
    using i by (simp_all add: chunk_answers_def)
  have fits: "response_fits (map (h_size h) (buf_variables ?b')) ?rs"
    using chunk_answers_fit [OF plc] inv(2) by simp
  have small: "buf_buffer_size ?b' < 2 ^ 32"
    using inv(1) chunk_small [OF ok vars c] req_chunk_inv(1,2) [OF ok c] inv(2) by (simp add: buf_inv_def)
  have bi: "buf_initialized ?b'" using inv(1) buf by (simp add: buf_inv_def)
  have len: "length (sum_response ?rs) = buf_buffer_size ?b'"
    using length_sum_response [OF fits] inv(1) by (simp add: buf_inv_def)
  have rdy: "buffer_ready (h_size h) ?b'" using inv(1) bi small by (simp add: buffer_ready_def)
  have same: "store_full (sum_response ?rs) ?b' = ?b'"
    using store_full_buffer [OF rdy len] buf
    by (cases ?b') (simp add: store_full_def store_response_def)
  have nn: "n \<le> length (snd (?rs ! i))"
    using plc_answer(2) [OF plc] n rs by (simp add: var_request_def h_size_def)
  have slot: "fetch_slot i (slot_offset (h_size h) ?b' i) n ?b' = Some (fst (?rs ! i), take n (snd (?rs ! i)))"
    using sb.fetch_response [OF rdy fits rs(2) nn] same by (simp add: slot_offset_def take_map)
  have ib: "i < length (buf_variables ?b')" "n \<le> h_size h (buf_variables ?b' ! i)"
    using i n inv(2) by simp_all
  have "Some (le_decode (take 4 (drop (4 * i) (sum_response ?rs))),
      take n (drop (4 * length (buf_variables ?b') + slot_offset (h_size h) ?b' i) (sum_response ?rs)))
    = Some (fst (?rs ! i), take n (snd (?rs ! i)))"
    using fetch_slot_ok [OF inv(1) buf ib] slot by simp
  then show ?thesis
    using read_data_ok [OF inv(1) buf ib dst, of rr] rs(1) by simp
qed

end
