(* ===== verification/Variable_Props.thy ===== *)
theory Variable_Props
  imports Variable_IO
begin

text \<open>
  What reading and writing a variable guarantees: after a sum-read a variable yields exactly what
  the ADS device answered for it, reading is memory-safe except in one case, and a written value is
  returned by exactly one read.
\<close>

definition readback_pending :: "'e heap \<Rightarrow> nat \<Rightarrow> bool" where
  "readback_pending h vid \<longleftrightarrow> var_write_readback (h_vars h vid) \<and> var_last_written (h_vars h vid) \<noteq> []"

lemma req_reader:
  assumes "req_ok h r" and "c \<in> set (get_chunks r)" and "i < length (chunk_variables c)"
  shows "h_reader h (chunk_variables c ! i) = \<lparr> pos_buffer = Some (chunk_buffer c), pos_off_result = i,
           pos_off_data = slot_offset (h_size h) (h_buf h (chunk_buffer c)) i \<rparr>"
proof -
  have "chunk_ok h (req_max_vars r) c" using assms by (simp add: req_ok_def chunks_ok_def)
  with assms(3) show ?thesis by (simp add: chunk_ok_def Let_def)
qed

text \<open>A variable of a request is in one slot of one chunk.\<close>

lemma req_variable_slot:
  assumes "vid \<in> set (req_variables r)"
  obtains c i where "c \<in> set (get_chunks r)" and "i < length (chunk_variables c)" and "chunk_variables c ! i = vid"
  using assms by (auto simp: req_variables_def in_set_conv_nth)

text \<open>What reading does, once \<open>read_data\<close> has delivered.\<close>

lemma read_from_buffer_slot:
  assumes ok: "req_ok h r" and c: "c \<in> set (get_chunks r)" and i: "i < length (chunk_variables c)"
    and vid: "chunk_variables c ! i = vid" and valid: "buf_state (h_buf h (chunk_buffer c)) = Buf_Valid"
    and read: "read_data i (slot_offset (h_size h) (h_buf h (chunk_buffer c)) i) (min n (h_size h vid)) (Some 0)
        (Some dst) (h_buf h (chunk_buffer c)) = Some (0, Some code, Some out)"
  shows "read_from_buffer d vid n (Some dst) h =
    (if code \<noteq> 0 then Some (EPICSADS_NO_DATA, Some out, h)
     else if readback_pending h vid
       then Option.bind (mem_write out (var_last_written (h_vars h vid))) (\<lambda>out'.
              Some (0, Some out', upd_var vid (\<lambda>v. v\<lparr>var_last_written := []\<rparr>) h))
     else Some (0, Some out, h))"
  using req_reader [OF ok c i] req_chunk_inv(3) [OF ok c] vid valid read
  by (simp add: read_from_buffer_def Let_def h_reader_def h_size_def EMPTY_BUFFER_DATA_POSITION_def
      readback_pending_def)

lemma read_from_buffer_invalid:
  assumes ok: "req_ok h r" and c: "c \<in> set (get_chunks r)" and i: "i < length (chunk_variables c)"
    and vid: "chunk_variables c ! i = vid" and invalid: "buf_state (h_buf h (chunk_buffer c)) = Buf_Invalid"
  shows "read_from_buffer d vid n buffer h = Some (EPICSADS_DISCONNECTED, buffer, h)"
  using req_reader [OF ok c i] req_chunk_inv(3) [OF ok c] vid invalid
  by (simp add: read_from_buffer_def Let_def h_reader_def EMPTY_BUFFER_DATA_POSITION_def)

section \<open>What a buffer holds for a variable\<close>

text \<open>The return code and the data of a variable that its buffer holds at the moment.\<close>

definition slot_code :: "'e heap \<Rightarrow> nat \<Rightarrow> nat" where
  "slot_code h vid = (case pos_buffer (h_reader h vid) of
      None \<Rightarrow> 0
    | Some bid \<Rightarrow> le_decode (take 4 (drop (4 * pos_off_result (h_reader h vid)) (the (buf_buffer (h_buf h bid))))))"

definition slot_data :: "'e heap \<Rightarrow> nat \<Rightarrow> nat \<Rightarrow> byte list" where
  "slot_data h vid n = (case pos_buffer (h_reader h vid) of
      None \<Rightarrow> []
    | Some bid \<Rightarrow> take n (drop (4 * length (buf_variables (h_buf h bid)) + pos_off_data (h_reader h vid))
        (the (buf_buffer (h_buf h bid)))))"

definition data_valid :: "'e heap \<Rightarrow> nat \<Rightarrow> bool" where
  "data_valid h vid = (case pos_buffer (h_reader h vid) of
      None \<Rightarrow> False | Some bid \<Rightarrow> buf_state (h_buf h bid) = Buf_Valid)"

lemma read_from_buffer_eq:
  assumes ok: "req_ok h r" and init: "all_bufs buf_initialized h (get_chunks r)"
    and vid: "vid \<in> set (req_variables r)" and n: "n \<le> length dst"
  shows "read_from_buffer d vid n (Some dst) h =
    (if \<not> data_valid h vid then Some (EPICSADS_DISCONNECTED, Some dst, h)
     else
       let out = slot_data h vid (min n (h_size h vid)) @ drop (min n (h_size h vid)) dst in
       if slot_code h vid \<noteq> 0 then Some (EPICSADS_NO_DATA, Some out, h)
       else if readback_pending h vid
         then Option.bind (mem_write out (var_last_written (h_vars h vid))) (\<lambda>out'.
              Some (0, Some out', upd_var vid (\<lambda>v. v\<lparr>var_last_written := []\<rparr>) h))
       else Some (0, Some out, h))"
    and "length (slot_data h vid (min n (h_size h vid))) = min n (h_size h vid)"
proof -
  obtain c i where c: "c \<in> set (get_chunks r)" and i: "i < length (chunk_variables c)"
    and v: "chunk_variables c ! i = vid"
    by (rule req_variable_slot [OF vid])
  let ?b = "h_buf h (chunk_buffer c)" and ?m = "min n (h_size h vid)"
  note inv = req_chunk_inv [OF ok c] and rd = req_reader [OF ok c i, unfolded v]
  obtain mem where mem: "buf_buffer ?b = Some mem" "length mem = buf_buffer_size ?b"
    using inv(1) init c by (auto simp: buf_inv_def all_bufs_def)
  have ib: "i < length (buf_variables ?b)" "?m \<le> h_size h (buf_variables ?b ! i)" "?m \<le> length dst"
    using i n inv(2) v by simp_all
  have code: "slot_code h vid = le_decode (take 4 (drop (4 * i) mem))"
    and data: "slot_data h vid k = take k (drop (4 * length (buf_variables ?b) + slot_offset (h_size h) ?b i) mem)"
    and val: "data_valid h vid \<longleftrightarrow> buf_state ?b = Buf_Valid" for k
    using mem by (simp_all add: slot_code_def slot_data_def data_valid_def rd)
  have "slot_offset (h_size h) ?b i + ?m \<le> buf_next_data_offset ?b"
    using sum_list_take_Suc_le [OF ib(1), of "h_size h"] ib(2) inv(1) by (simp add: slot_offset_def buf_inv_def)
  then show "length (slot_data h vid ?m) = ?m" using mem(2) inv(1) by (simp add: data buf_inv_def)
  have read: "read_data i (slot_offset (h_size h) ?b i) ?m (Some 0) (Some dst) ?b
      = Some (0, Some (slot_code h vid), Some (slot_data h vid ?m @ drop ?m dst))"
    using read_data_ok [OF inv(1) mem(1) ib, of 0] by (simp add: code data)
  show "read_from_buffer d vid n (Some dst) h =
    (if \<not> data_valid h vid then Some (EPICSADS_DISCONNECTED, Some dst, h)
     else
       let out = slot_data h vid (min n (h_size h vid)) @ drop (min n (h_size h vid)) dst in
       if slot_code h vid \<noteq> 0 then Some (EPICSADS_NO_DATA, Some out, h)
       else if readback_pending h vid
         then Option.bind (mem_write out (var_last_written (h_vars h vid))) (\<lambda>out'.
              Some (0, Some out', upd_var vid (\<lambda>v. v\<lparr>var_last_written := []\<rparr>) h))
       else Some (0, Some out, h))"
  proof (cases "buf_state ?b")
    case Buf_Invalid
    then show ?thesis using read_from_buffer_invalid [OF ok c i v] val by simp
  next
    case Buf_Valid
    then show ?thesis using read_from_buffer_slot [OF ok c i v Buf_Valid read] val by (simp add: Let_def)
  qed
qed

section \<open>From the ADS device to the reader\<close>

text \<open>
  A buffer into which the answer to its chunk's request has been stored holds, for each variable, what the
  device answered.
\<close>

lemma chunk_read_slots:
  assumes plc: "answers_sum_reads d lib plc" and ok: "req_ok h r" and init: "all_bufs buf_initialized h (get_chunks r)"
    and vars: "readable_vars h r" and compl: "complete_request h r" and c: "c \<in> set (get_chunks r)"
    and read: "chunk_read_at d lib h h' c e" and ok': "req_ok h' r" and frame: "read_frame r h h'"
    and init': "all_bufs buf_initialized h' (get_chunks r)" and vid: "vid \<in> set (chunk_variables c)"
  shows "slot_code h' vid = fst (plc e (chunk_addr h c) (var_request h vid))"
    and "n \<le> h_size h vid \<Longrightarrow> slot_data h' vid n = take n (snd (plc e (chunk_addr h c) (var_request h vid)))"
    and "data_valid h' vid \<longleftrightarrow> buf_state (h_buf h' (chunk_buffer c)) = Buf_Valid"
proof -
  have sz: "h_size h' = h_size h" using frame by (simp add: read_frame_def h_size_def [abs_def])
  let ?b = "h_buf h' (chunk_buffer c)"
  note inv = req_chunk_inv [OF ok' c]
  obtain mem where mem: "buf_buffer ?b = Some mem"
    using inv(1) init' c by (auto simp: buf_inv_def all_bufs_def)
  obtain i where i: "i < length (chunk_variables c)" "chunk_variables c ! i = vid"
    using vid by (auto simp: in_set_conv_nth)
  let ?q = "plc e (chunk_addr h c) (var_request h vid)"
  note rd = req_reader [OF ok' c i(1), unfolded i(2)]
  have both: "slot_code h' vid = fst ?q \<and> slot_data h' vid n = take n (snd ?q)" if n: "n \<le> h_size h vid" for n
  proof -
    have ib: "i < length (buf_variables ?b)" "n \<le> h_size h' (buf_variables ?b ! i)"
      "n \<le> length (replicate n (0 :: byte))" using i inv(2) n sz by simp_all
    have "n \<le> h_size h (chunk_variables c ! i)" using n i(2) by simp
    from chunk_slot [OF plc ok init vars compl c read ok' frame i(1) this ib(3), of 0]
      read_data_ok [OF inv(1) mem ib, of 0] i(2) sz
    show ?thesis by (simp add: slot_code_def slot_data_def rd mem)
  qed
  from both [of 0] both show "slot_code h' vid = fst ?q" "n \<le> h_size h vid \<Longrightarrow> slot_data h' vid n = take n (snd ?q)"
    by simp_all
  show "data_valid h' vid \<longleftrightarrow> buf_state ?b = Buf_Valid" by (simp add: data_valid_def rd)
qed

lemma sum_read_slots:
  assumes "wf_ads_def d" and "answers_sum_reads d lib plc"
    and "req_ok h r" and "req_initialized r" and "all_bufs buf_initialized h (get_chunks r)"
    and "complete_request h r" and "readable_vars h r"
    and "sum_read d lib h r = Some (0, h')" and "c \<in> set (get_chunks r)"
  shows "\<exists>e. \<forall>vid \<in> set (chunk_variables c). data_valid h' vid
    \<and> slot_code h' vid = fst (plc e (chunk_addr h c) (var_request h vid))
    \<and> (\<forall>n \<le> h_size h vid. slot_data h' vid n = take n (snd (plc e (chunk_addr h c) (var_request h vid))))"
proof -
  have ok': "req_ok h' r" and frame: "read_frame r h h'" and valid: "all_valid h' (get_chunks r)"
    and init': "all_bufs buf_initialized h' (get_chunks r)" and read: "\<exists>e. chunk_read_at d lib h h' c e"
    using sum_read_ok [OF assms(1,3,4,5), of lib] assms(8,9) by auto
  from read obtain e where e: "chunk_read_at d lib h h' c e" by blast
  note slots = chunk_read_slots [OF assms(2,3,5,7,6,9) e ok' frame init']
  have "buf_state (h_buf h' (chunk_buffer c)) = Buf_Valid" using valid assms(9) by (simp add: all_valid_def all_bufs_def)
  with slots show ?thesis by (intro exI [of _ e]) simp
qed

text \<open>
  C19. End to end: when \<open>read\<close> of an initialised request has returned 0, each chunk is a consistent
  snapshot of the ADS device. There is one state of the device such that for every variable of the
  chunk, reading \<open>n\<close> bytes from its buffer yields the data that the device answers in that state
  for the index group, offset and size of this variable, cut to \<open>n\<close> bytes, with return code 0, or
  \<open>NO_DATA\<close> if the device reports an error for this variable.
\<close>

theorem sum_read_delivers:
  assumes "wf_ads_def d" and "answers_sum_reads d lib plc"
    and "req_ok h r" and "req_initialized r" and "all_bufs buf_initialized h (get_chunks r)"
    and "complete_request h r" and "readable_vars h r"
    and "sum_read d lib h r = Some (0, h')" and "c \<in> set (get_chunks r)"
  shows "\<exists>e. \<forall>vid \<in> set (chunk_variables c). \<forall>n dst.
    n \<le> length dst \<longrightarrow> \<not> readback_pending h vid \<longrightarrow>
    (case plc e (chunk_addr h c) (var_request h vid) of (code, bytes) \<Rightarrow>
       read_from_buffer d vid n (Some dst) h' =
         Some (if code = 0 then 0 else EPICSADS_NO_DATA,
               Some (take (min n (h_size h vid)) bytes @ drop (min n (h_size h vid)) dst), h'))"
proof -
  have ok': "req_ok h' r" and frame: "read_frame r h h'" and init': "all_bufs buf_initialized h' (get_chunks r)"
    using sum_read_ok [OF assms(1,3,4,5), of lib] assms(8) by auto
  have sz: "h_size h' = h_size h" and rb: "readback_pending h' = readback_pending h"
    using frame by (simp_all add: read_frame_def h_size_def [abs_def] readback_pending_def [abs_def])
  obtain e where e: "\<forall>vid \<in> set (chunk_variables c). data_valid h' vid
    \<and> slot_code h' vid = fst (plc e (chunk_addr h c) (var_request h vid))
    \<and> (\<forall>n \<le> h_size h vid. slot_data h' vid n = take n (snd (plc e (chunk_addr h c) (var_request h vid))))"
    using sum_read_slots [OF assms] by blast
  show ?thesis
  proof (intro exI [of _ e] ballI allI impI)
    fix vid n and dst :: "byte list"
    assume v: "vid \<in> set (chunk_variables c)" and n: "n \<le> length dst" and np: "\<not> readback_pending h vid"
    have "min n (h_size h vid) \<le> h_size h vid" by simp
    with e v have s: "data_valid h' vid" "slot_code h' vid = fst (plc e (chunk_addr h c) (var_request h vid))"
      "slot_data h' vid (min n (h_size h vid)) = take (min n (h_size h vid)) (snd (plc e (chunk_addr h c) (var_request h vid)))"
      by blast+
    show "case plc e (chunk_addr h c) (var_request h vid) of (code, bytes) \<Rightarrow>
       read_from_buffer d vid n (Some dst) h' =
         Some (if code = 0 then 0 else EPICSADS_NO_DATA,
               Some (take (min n (h_size h vid)) bytes @ drop (min n (h_size h vid)) dst), h')"
      unfolding read_from_buffer_eq(1) [OF ok' init' chunk_in_req [OF assms(9) v] n] sz rb
      using s np by (simp add: split_def Let_def)
  qed
qed

text \<open>
  A device on which every variable can be read and holds the bytes \<open>x\<close>: what the concrete instances
  use. The answer to a sum-read follows from the number of variables and the size alone.
\<close>

definition constant_plc :: "byte \<Rightarrow> nat \<Rightarrow> ams_addr \<Rightarrow> symbol_info \<Rightarrow> nat \<times> byte list" where
  "constant_plc x e addr q = (0, replicate (snd (snd q)) x)"

definition constant_lib :: "byte \<Rightarrow> nat ads_lib" where
  "constant_lib x = example_lib\<lparr>AdsSyncReadWriteReqEx2 :=
     (\<lambda>e p a g nelem n bs. (0, replicate (4 * nelem) 0 @ replicate (n - 4 * nelem) x, e + 1))\<rparr>"

lemma sum_response_constant:
  "sum_response (map (constant_plc x e addr) qs)
    = replicate (4 * length qs) 0 @ replicate (sum_list (map (snd \<circ> snd) qs)) x"
proof -
  have "le_encode n 0 = replicate n 0" for n by (induction n) simp_all
  then have "concat (map (\<lambda>(rc, d). le_encode 4 rc) (map (constant_plc x e addr) qs)) = replicate (4 * length qs) 0"
    by (induction qs) (simp_all add: constant_plc_def replicate_add)
  moreover have "concat (map snd (map (constant_plc x e addr) qs)) = replicate (sum_list (map (snd \<circ> snd) qs)) x"
    by (induction qs) (simp_all add: constant_plc_def replicate_add)
  ultimately show ?thesis by (simp add: sum_response_def)
qed

lemma constant_answers: "answers_sum_reads d (constant_lib x) (constant_plc x)"
  unfolding answers_sum_reads_def
  by (auto simp: constant_lib_def sum_response_constant) (simp_all add: constant_plc_def)

abbreviation sevens :: "nat \<Rightarrow> ams_addr \<Rightarrow> symbol_info \<Rightarrow> nat \<times> byte list" where
  "sevens \<equiv> constant_plc 7"

abbreviation sevens_lib :: "nat ads_lib" where
  "sevens_lib \<equiv> constant_lib 7"

lemmas sevens_def = constant_plc_def [of 7]
lemmas sevens_lib_def = constant_lib_def [of 7]
lemmas sevens_answers = constant_answers [of _ 7]

lemma example_initialized_ok:
  assumes "example_initialized v0 h r" and "example_var_ok v0"
  shows "req_ok h r" and "req_initialized r" and "all_bufs buf_initialized h (get_chunks r)"
    and "complete_request h r" and "readable_vars h r"
proof -
  have v: "h_addr h v = var_addr v0" "h_size h v = var_size v0" for v
    using assms(1) like_example(1,2) [of h v v0] by (simp_all add: example_initialized_def)
  then have "var_size (h_vars h v) = var_size v0" for v by (simp add: h_size_def)
  with v show "req_ok h r" "req_initialized r" "all_bufs buf_initialized h (get_chunks r)"
    "complete_request h r" "readable_vars h r"
    using assms
    by (auto simp: example_initialized_def complete_request_def readable_vars_def fits32_def var_request_def
        example_var_ok_def)
qed

lemma example_sum_read:
  assumes "example_initialized v0 h r" and "example_var_ok v0"
  shows "\<exists>h'. sum_read ads_def_documented sevens_lib h r = Some (0, h')"
proof -
  have "fst (chunk_call ads_def_documented sevens_lib h c) = 0" for h c
    by (simp add: chunk_call_def sevens_lib_def)
  with sum_read_ok [OF wf_ads_def_documented example_initialized_ok(1,2,3) [OF assms], of sevens_lib]
  show ?thesis by blast
qed

text \<open>The same request after a sum-read.\<close>

definition example_read :: "ads_variable \<Rightarrow> nat heap \<Rightarrow> sum_read_request \<Rightarrow> bool" where
  "example_read v0 h r \<longleftrightarrow> req_ok h r \<and> all_bufs buf_initialized h (get_chunks r)
     \<and> set (req_variables r) = {3, 4} \<and> is_connected h \<and> req_initialized r
     \<and> (\<forall>v. \<exists>pos. h_vars h v = set_buffer_reader pos v0)
     \<and> (\<forall>v \<in> {3, 4}. data_valid h v \<and> slot_code h v = 0
          \<and> (\<forall>n \<le> var_size v0. slot_data h v n = replicate n 7))"

lemma example_read_exists:
  assumes "example_var_ok v0"
  shows "\<exists>h r. example_read v0 h r"
proof -
  obtain h r where e: "example_initialized v0 h r" using example_initialized_exists [OF assms] by blast
  note ok = example_initialized_ok [OF e assms]
  obtain h' where run: "sum_read ads_def_documented sevens_lib h r = Some (0, h')"
    using example_sum_read [OF e assms] by blast
  have ok': "req_ok h' r" and frame: "read_frame r h h'" and init': "all_bufs buf_initialized h' (get_chunks r)"
    using sum_read_ok [OF wf_ads_def_documented ok(1,2,3), of sevens_lib] run by auto
  have size: "h_size h v = var_size v0" for v
    using e like_example(2) [of h v v0] by (simp add: example_initialized_def)
  have slots: "data_valid h' v \<and> slot_code h' v = 0 \<and> (\<forall>n \<le> var_size v0. slot_data h' v n = replicate n 7)"
    if vr: "v \<in> set (req_variables r)" for v
  proof -
    obtain c i where c: "c \<in> set (get_chunks r)" "i < length (chunk_variables c)" "chunk_variables c ! i = v"
      by (rule req_variable_slot [OF vr])
    then have "v \<in> set (chunk_variables c)" by force
    moreover have "snd (snd (var_request h v)) = var_size v0"
      using size by (simp add: var_request_def h_size_def)
    ultimately show ?thesis
      using sum_read_slots [OF wf_ads_def_documented sevens_answers ok run c(1)] size
      by (auto simp: sevens_def min_absorb1)
  qed
  have "example_read v0 h' r"
    using e ok' init' frame slots
    by (auto simp: example_read_def example_initialized_def read_frame_def is_connected_def example_heap_def)
  then show ?thesis by blast
qed

theorem sum_read_delivers_witness:
  "\<exists>h r h' c. c \<in> set (get_chunks r) \<and> sum_read ads_def_documented sevens_lib h r = Some (0, h')
    \<and> 3 \<in> set (chunk_variables c)
    \<and> read_from_buffer ads_def_documented 3 10 (Some (replicate 10 0)) h' = Some (0, Some (replicate 10 7), h')"
proof -
  obtain h r where e: "example_initialized example_resolved h r"
    using example_initialized_exists [OF example_resolved_ok] by blast
  obtain h' where run: "sum_read ads_def_documented sevens_lib h r = Some (0, h')"
    using example_sum_read [OF e example_resolved_ok] by blast
  have three: "3 \<in> set (req_variables r)" and size: "h_size h 3 = 10"
    using e like_example(2) [of h 3 example_resolved]
    by (auto simp: example_initialized_def example_resolved_def var_size_def resolve_def example_address_def
        example_variable_def)
  obtain c i where c: "c \<in> set (get_chunks r)" "i < length (chunk_variables c)" "chunk_variables c ! i = 3"
    by (rule req_variable_slot [OF three])
  then have v: "3 \<in> set (chunk_variables c)" using nth_mem by fastforce
  note ok = example_initialized_ok [OF e example_resolved_ok]
  obtain st where *: "\<forall>vid \<in> set (chunk_variables c). \<forall>n dst.
    n \<le> length dst \<longrightarrow> \<not> readback_pending h vid \<longrightarrow>
    (case sevens st (chunk_addr h c) (var_request h vid) of (code, bytes) \<Rightarrow>
       read_from_buffer ads_def_documented vid n (Some dst) h' =
         Some (if code = 0 then 0 else EPICSADS_NO_DATA,
               Some (take (min n (h_size h vid)) bytes @ drop (min n (h_size h vid)) dst), h'))"
    using sum_read_delivers [OF wf_ads_def_documented sevens_answers ok run c(1)] by blast
  have "sevens st (chunk_addr h c) (var_request h 3) = (0, replicate 10 7)"
    using size by (simp add: sevens_def var_request_def h_size_def)
  moreover have "\<not> readback_pending h 3"
    using e like_example(4) [of h 3 example_resolved]
    by (simp add: example_initialized_def readback_pending_def example_resolved_def example_variable_def)
  ultimately have "read_from_buffer ads_def_documented 3 10 (Some (replicate 10 0)) h' = Some (0, Some (replicate 10 7), h')"
    using * v size by force
  with c(1) run v show ?thesis by blast
qed

section \<open>Memory safety\<close>

text \<open>
  Reading a variable of an allocated request into \<open>dst\<close>, with a size that \<open>dst\<close> has, is memory
  safe with exactly one exception: it writes past the end of \<open>dst\<close> precisely when the data are
  valid, the device reported no error for the variable, and a written value is waiting to be read
  back that is longer than \<open>dst\<close>, because that value is copied without looking at the size. In all
  other cases the call is defined, keeps the size of \<open>dst\<close>, and answers 0, \<open>NO_DATA\<close> or
  \<open>DISCONNECTED\<close>, the last exactly when the buffer is marked invalid.
\<close>

theorem read_from_buffer_safety:
  assumes "req_ok h r" and "all_bufs buf_initialized h (get_chunks r)"
    and "vid \<in> set (req_variables r)" and "n \<le> length dst"
  shows "(read_from_buffer d vid n (Some dst) h = None \<longleftrightarrow>
            data_valid h vid \<and> slot_code h vid = 0 \<and> readback_pending h vid
            \<and> length dst < length (var_last_written (h_vars h vid)))
    \<and> (\<forall>rc out h'. read_from_buffer d vid n (Some dst) h = Some (rc, out, h') \<longrightarrow>
          (\<exists>dst'. out = Some dst' \<and> length dst' = length dst)
          \<and> rc \<in> {0, EPICSADS_NO_DATA, EPICSADS_DISCONNECTED}
          \<and> (rc = EPICSADS_DISCONNECTED \<longleftrightarrow> \<not> data_valid h vid)
          \<and> (rc = EPICSADS_NO_DATA \<longrightarrow> slot_code h vid \<noteq> 0))"
proof -
  let ?m = "min n (h_size h vid)"
  note eq = read_from_buffer_eq [OF assms]
  have len: "length (slot_data h vid ?m @ drop ?m dst) = length dst" using eq(2) assms(4) by simp
  have bind: "Option.bind (mem_write out bytes) (\<lambda>out'. Some (0, Some out', h2)) =
      (if length bytes \<le> length out then Some (0, Some (bytes @ drop (length bytes) out), h2) else None)"
    for out bytes and h2 :: "'a heap"
    by (simp add: mem_write_def)
  show ?thesis unfolding eq(1) Let_def bind using len by auto
qed

theorem read_from_buffer_safety_witness:
  "\<exists>h r. set (req_variables r) = {3, 4} \<and> req_ok (h :: nat heap) r
     \<and> read_from_buffer ads_def_documented 3 10 (Some (replicate 10 0)) h \<noteq> None"
proof -
  obtain h r where e: "example_initialized example_resolved h r"
    using example_initialized_exists [OF example_resolved_ok] by blast
  note ok = example_initialized_ok [OF e example_resolved_ok]
  have three: "3 \<in> set (req_variables r)" using e by (simp add: example_initialized_def)
  have "\<not> readback_pending h 3"
    using e like_example(4) [of h 3 example_resolved]
    by (simp add: example_initialized_def readback_pending_def example_resolved_def example_variable_def)
  then have "read_from_buffer ads_def_documented 3 10 (Some (replicate 10 0)) h \<noteq> None"
    using read_from_buffer_safety [OF ok(1,3) three, of 10 "replicate 10 0" ads_def_documented] by simp
  with e ok(1) show ?thesis unfolding example_initialized_def by blast
qed

section \<open>Writing\<close>

lemma var_write_eq:
  assumes "var_conn (h_vars h vid)" and "addr_name_is_resolved (h_addr h vid)"
    and "n \<le> h_size h vid" and "n \<le> length src"
  shows "var_write d lib vid (Some src) n h =
    (case AdsSyncWriteReqEx lib (h_env h) (conn_ads_port (h_conn h)) (ams_addr_of h vid)
            (addr_index_group (h_addr h vid)) (addr_index_offset (h_addr h vid))
            (take n src @ replicate (h_size h vid - n) 0) of
       (rc, e1) \<Rightarrow>
         if rc \<noteq> 0 then Some (ads_rc_to_epicsads_error d rc, h\<lparr>h_env := e1\<rparr>)
         else Some (0, if var_write_readback (h_vars h vid)
           then upd_var vid (\<lambda>v. v\<lparr>var_last_written := take n src @ replicate (h_size h vid - n) 0\<rparr>)
                  (h\<lparr>h_env := e1\<rparr>)
           else h\<lparr>h_env := e1\<rparr>))"
proof -
  have r: "mem_read src 0 n = Some (take n src)" using assms(4) by simp
  have w: "mem_write (replicate (var_size (h_vars h vid)) 0) (take n src)
      = Some (take n src @ replicate (var_size (h_vars h vid) - n) 0)"
    using assms(3,4) by (simp add: mem_write_def h_size_def min_absorb2)
  show ?thesis
    using assms(1-3) unfolding h_size_def h_addr_def by (simp add: var_write_def Let_def r w not_less)
qed

text \<open>The invariant does not depend on what was written last.\<close>

lemma same_view_last_written [simp]: "same_view v (v\<lparr>var_last_written := bs\<rparr>)"
  by (simp add: same_view_def var_size_def)

lemma req_ok_cong_vars:
  assumes "req_ok h r" and "h_bufs h' = h_bufs h" and "h_next_buf h' = h_next_buf h"
    and "\<And>v. same_view (h_vars h v) (h_vars h' v)"
  shows "req_ok h' r"
  using assms(1) chunks_ok_cong [of h "req_max_vars r" "get_chunks r" h'] assms(2-4)
  by (auto simp: req_ok_def)

lemma upd_last_written:
  fixes h :: "'e heap" and vid :: nat
  defines "h1 bs e \<equiv> upd_var vid (\<lambda>v. v\<lparr>var_last_written := bs\<rparr>) (h\<lparr>h_env := e\<rparr>)"
  shows "req_ok h r \<Longrightarrow> req_ok (h1 bs e) r" and "h_buf (h1 bs e) = h_buf h"
    and "h_size (h1 bs e) = h_size h" and "h_reader (h1 bs e) = h_reader h"
    and "all_bufs P (h1 bs e) cs = all_bufs P h cs" and "data_valid (h1 bs e) = data_valid h"
    and "slot_code (h1 bs e) = slot_code h" and "slot_data (h1 bs e) = slot_data h"
    and "readback_pending (h1 bs e) vid = (var_write_readback (h_vars h vid) \<and> bs \<noteq> [])"
proof -
  show buf: "h_buf (h1 bs e) = h_buf h" and "h_size (h1 bs e) = h_size h" and rd: "h_reader (h1 bs e) = h_reader h"
    by (auto simp: h1_def h_buf_def h_size_def h_reader_def fun_eq_iff var_size_def)
  show "req_ok h r \<Longrightarrow> req_ok (h1 bs e) r"
    by (erule req_ok_cong_vars) (simp_all add: h1_def)
  show "all_bufs P (h1 bs e) cs = all_bufs P h cs" "data_valid (h1 bs e) = data_valid h"
    "slot_code (h1 bs e) = slot_code h" "slot_data (h1 bs e) = slot_data h"
    by (simp_all only: all_bufs_def data_valid_def [abs_def] slot_code_def [abs_def] slot_data_def [abs_def]
        buf rd)
  show "readback_pending (h1 bs e) vid = (var_write_readback (h_vars h vid) \<and> bs \<noteq> [])"
    by (simp add: h1_def readback_pending_def)
qed

lemma written_read_back:
  assumes "req_ok h r" and "all_bufs buf_initialized h (get_chunks r)" and "vid \<in> set (req_variables r)"
    and "var_conn (h_vars h vid)" and "addr_name_is_resolved (h_addr h vid)"
    and "var_write_readback (h_vars h vid)" and "0 < h_size h vid"
    and "n \<le> h_size h vid" and "n \<le> length src"
    and "var_write d lib vid (Some src) n h = Some (0, h1)" and "wf_ads_def d"
    and "data_valid h vid" and "slot_code h vid = 0"
    and "m \<le> length dst" and "h_size h vid \<le> length dst" and "k \<le> length dst2"
  shows "\<exists>h2. read_from_buffer d vid m (Some dst) h1 =
      Some (0, Some (take n src @ replicate (h_size h vid - n) 0 @ drop (h_size h vid) dst), h2)
    \<and> read_from_buffer d vid k (Some dst2) h2 =
      Some (0, Some (slot_data h vid (min k (h_size h vid)) @ drop (min k (h_size h vid)) dst2), h2)"
proof -
  let ?w = "take n src @ replicate (h_size h vid - n) 0" and ?m = "min m (h_size h vid)"
  obtain e where h1: "h1 = upd_var vid (\<lambda>v. v\<lparr>var_last_written := ?w\<rparr>) (h\<lparr>h_env := e\<rparr>)"
    using assms(10) var_write_eq [OF assms(4,5,8,9)] assms(6) ads_rc_nonzero [OF assms(11)]
    by (auto split: prod.splits if_splits)
  have len: "length ?w = h_size h vid" "?w \<noteq> []" using assms(7,8,9) by auto
  note u1 = upd_last_written [where h = h and vid = vid and bs = ?w and e = e, folded h1]
  let ?h2 = "upd_var vid (\<lambda>v. v\<lparr>var_last_written := []\<rparr>) (h\<lparr>h_env := e\<rparr>)"
  have h2: "upd_var vid (\<lambda>v. v\<lparr>var_last_written := []\<rparr>) h1 = ?h2"
    by (simp add: h1 upd_var_def)
  note u2 = upd_last_written [where h = h and vid = vid and bs = "[]" and e = e]
  have i1: "all_bufs buf_initialized h1 (get_chunks r)" using assms(2) u1 by simp
  note r1 = read_from_buffer_eq(1) [OF u1(1) [OF assms(1)] i1 assms(3,14), of d]
    read_from_buffer_eq(2) [OF u1(1) [OF assms(1)] i1 assms(3,14)]
  have lo: "length (slot_data h vid ?m @ drop ?m dst) = length dst" using r1(2) u1 assms(14) by simp
  have first: "read_from_buffer d vid m (Some dst) h1 = Some (0, Some (?w @ drop (h_size h vid) dst), ?h2)"
  proof -
    have "drop (h_size h vid) (slot_data h vid ?m @ drop ?m dst) = drop (h_size h vid) dst"
      using r1(2) u1(3,8) by simp
    moreover have "var_last_written (h_vars h1 vid) = ?w" by (simp add: h1)
    moreover have "readback_pending h1 vid" using u1(9) assms(6) len by simp
    ultimately show ?thesis
      using r1(1) u1 assms(12,13,15) len lo h2 by (simp add: Let_def)
  qed
  have i2: "all_bufs buf_initialized ?h2 (get_chunks r)" using assms(2) u2 by simp
  have second: "read_from_buffer d vid k (Some dst2) ?h2 =
      Some (0, Some (slot_data h vid (min k (h_size h vid)) @ drop (min k (h_size h vid)) dst2), ?h2)"
    using read_from_buffer_eq(1) [OF u2(1) [OF assms(1)] i2 assms(3,16), of d] u2 assms(12,13)
    by (simp add: Let_def)
  show ?thesis using first second by auto
qed

text \<open>
  C25. A written value is read back exactly once. A write of \<open>n\<close> bytes sends all bytes of the variable, those
  behind the \<open>n\<close> given ones as zeros (the header's comment promises the smaller of the two sizes). If it
  succeeds and the variable has read-back, the first read with room for the variable returns just
  these bytes, all of them even if the reader asked for fewer, whatever the sum-read buffer still
  holds; the second read returns the data of the sum-read buffer again, no more than asked for.
\<close>

theorem write_read_back_once:
  assumes "req_ok h r" and "all_bufs buf_initialized h (get_chunks r)" and "vid \<in> set (req_variables r)"
    and "var_conn (h_vars h vid)" and "addr_name_is_resolved (h_addr h vid)"
    and "var_write_readback (h_vars h vid)" and "0 < h_size h vid"
    and "n \<le> h_size h vid" and "n \<le> length src"
    and "var_write d lib vid (Some src) n h = Some (0, h1)" and "wf_ads_def d"
    and "data_valid h vid" and "slot_code h vid = 0"
    and "m \<le> length dst" and "h_size h vid \<le> length dst" and "k \<le> length dst2"
  shows "AdsSyncWriteReqEx lib (h_env h) (conn_ads_port (h_conn h)) (ams_addr_of h vid) (addr_index_group (h_addr h vid))
      (addr_index_offset (h_addr h vid)) (take n src @ replicate (h_size h vid - n) 0) = (0, h_env h1)
    \<and> (\<exists>h2. read_from_buffer d vid m (Some dst) h1 =
          Some (0, Some (take n src @ replicate (h_size h vid - n) 0 @ drop (h_size h vid) dst), h2)
        \<and> read_from_buffer d vid k (Some dst2) h2 =
          Some (0, Some (slot_data h vid (min k (h_size h vid)) @ drop (min k (h_size h vid)) dst2), h2))"
proof
  show "AdsSyncWriteReqEx lib (h_env h) (conn_ads_port (h_conn h)) (ams_addr_of h vid) (addr_index_group (h_addr h vid))
      (addr_index_offset (h_addr h vid)) (take n src @ replicate (h_size h vid - n) 0) = (0, h_env h1)"
    using var_write_eq [OF assms(4,5,8,9), of d lib] assms(6,10) ads_rc_nonzero [OF assms(11)]
    by (auto simp: upd_var_def split: prod.splits if_splits)
qed (rule written_read_back [OF assms])

theorem write_read_back_once_witness:
  "\<exists>h h1 h2. var_write ads_def_documented sevens_lib 3 (Some [1, 2]) 2 h = Some (0, h1)
     \<and> read_from_buffer ads_def_documented 3 10 (Some (replicate 10 0)) h1
         = Some (0, Some ([1, 2] @ replicate 8 0), h2)
     \<and> read_from_buffer ads_def_documented 3 10 (Some (replicate 10 0)) h2
         = Some (0, Some (replicate 10 7), h2)"
proof -
  let ?v0 = "example_resolved\<lparr>var_write_readback := True\<rparr>"
  have v0: "example_var_ok ?v0" "var_size ?v0 = 10"
    by (simp_all add: example_var_ok_def example_resolved_def example_variable_def example_address_def
        resolve_def var_size_def)
  obtain h r where e: "example_read ?v0 h r" using example_read_exists [OF v0(1)] by blast
  then have ok: "req_ok h r" "all_bufs buf_initialized h (get_chunks r)" and three: "3 \<in> set (req_variables r)"
    and st: "data_valid h 3" "slot_code h 3 = 0" and data: "slot_data h 3 10 = replicate 10 7"
    using v0(2) by (simp_all add: example_read_def)
  note l = like_example [of h 3 ?v0]
  have conn: "var_conn (h_vars h 3)" and wr: "var_write_readback (h_vars h 3)"
    and res: "addr_name_is_resolved (h_addr h 3)" and size: "h_size h 3 = 10"
    using e l v0 by (simp_all add: example_read_def example_var_ok_def)
  have lo: "0 < h_size h 3" "2 \<le> h_size h 3" "2 \<le> length [1, 2 :: byte]"
    "10 \<le> length (replicate 10 (0 :: byte))" "h_size h 3 \<le> length (replicate 10 (0 :: byte))"
    by (simp_all add: size)
  obtain h1 where w: "var_write ads_def_documented sevens_lib 3 (Some [1, 2]) 2 h = Some (0, h1)"
    using var_write_eq [OF conn res lo(2,3), of ads_def_documented sevens_lib] wr
    by (simp add: sevens_lib_def example_lib_def)
  from write_read_back_once [OF ok three conn res wr lo(1,2,3) w wf_ads_def_documented st lo(4,5,4)]
  obtain h2 where "read_from_buffer ads_def_documented 3 10 (Some (replicate 10 0)) h1
         = Some (0, Some ([1, 2] @ replicate 8 0), h2)"
      "read_from_buffer ads_def_documented 3 10 (Some (replicate 10 0)) h2
         = Some (0, Some (replicate 10 7), h2)"
    by (auto simp: size data)
  with w show ?thesis by blast
qed

end
