(* ===== verification/Small_Steps.thy ===== *)
theory Small_Steps
  imports Main
begin

text \<open>
  An operation of a thread in small steps. A thread is at a program point; \<open>may p i\<close> says which
  choices \<open>i\<close> it has there, \<open>step i p h\<close> is the point and the memory afterwards, \<open>None\<close> undefined
  behaviour. The locale relates the steps to the operation as one step: \<open>rest p h\<close> is what the
  remainder of the operation does from \<open>p\<close> when no other thread interferes.
\<close>

inductive steps ::
  "('p \<Rightarrow> nat \<Rightarrow> bool) \<Rightarrow> (nat \<Rightarrow> 'p \<Rightarrow> 'h \<Rightarrow> ('p \<times> 'h) option) \<Rightarrow> 'p \<Rightarrow> 'h \<Rightarrow> nat \<Rightarrow> 'p \<Rightarrow> 'h \<Rightarrow> bool"
  for may step where
  steps_nil: "steps may step p h 0 p h"
| steps_step: "may p i \<Longrightarrow> step i p h = Some (p1, h1) \<Longrightarrow> steps may step p1 h1 n p2 h2 \<Longrightarrow>
     steps may step p h (Suc n) p2 h2"

text \<open>The last step of a run.\<close>

lemma steps_last:
  "steps may step p h n p' h' \<Longrightarrow> n \<noteq> 0 \<Longrightarrow>
     \<exists>k q h1 i. steps may step p h k q h1 \<and> may q i \<and> step i q h1 = Some (p', h')"
proof (induction rule: steps.induct)
  case (steps_step p i h p1 h1 n p2 h2)
  show ?case
  proof (cases "n = 0")
    case True
    with steps_step.hyps(3) have "p2 = p1" "h2 = h1" by (auto elim: steps.cases)
    with steps_step.hyps(1,2) steps_nil [of may step p h] show ?thesis by blast
  next
    case False
    with steps_step.IH obtain k q h3 j where q: "steps may step p1 h1 k q h3" "may q j" "step j q h3 = Some (p2, h2)"
      by blast
    have "steps may step p h (Suc k) q h3" using steps_step.hyps(1,2) q(1) by (rule steps.steps_step)
    with q(2,3) show ?thesis by blast
  qed
qed simp

locale small_steps =
  fixes may :: "'p \<Rightarrow> nat \<Rightarrow> bool" and step :: "nat \<Rightarrow> 'p \<Rightarrow> 'h \<Rightarrow> ('p \<times> 'h) option"
    and ok :: "'p \<Rightarrow> 'h \<Rightarrow> bool" and rank :: "'p \<Rightarrow> 'h \<Rightarrow> nat"
    and result :: "'p \<Rightarrow> 'r option" and rest :: "'p \<Rightarrow> 'h \<Rightarrow> ('r \<times> 'h) option"
  assumes may_step: "ok p h \<Longrightarrow> result p = None \<Longrightarrow> \<exists>i. may p i"
    and step_ok: "ok p h \<Longrightarrow> may p i \<Longrightarrow> step i p h = Some (p', h') \<Longrightarrow> ok p' h'"
    and step_rank: "ok p h \<Longrightarrow> may p i \<Longrightarrow> step i p h = Some (p', h') \<Longrightarrow> rank p' h' < rank p h"
    and step_rest: "ok p h \<Longrightarrow> may p i \<Longrightarrow> rest p h = Option.bind (step i p h) (\<lambda>(p', h'). rest p' h')"
    and result_rest: "result p = Some x \<Longrightarrow> rest p h = Some (x, h)"
begin

lemma steps_keep:
  "steps may step p h n p' h' \<Longrightarrow> ok p h \<Longrightarrow> ok p' h' \<and> rest p' h' = rest p h \<and> n + rank p' h' \<le> rank p h"
proof (induction rule: steps.induct)
  case (steps_nil p h)
  then show ?case by simp
next
  case (steps_step p i h p1 h1 n p2 h2)
  from step_ok [OF steps_step(5,1,2)] step_rank [OF steps_step(5,1,2)] step_rest [OF steps_step(5,1)]
    steps_step(2,4) show ?case by simp
qed

text \<open>Every way to go to the end has the result of the operation as one step.\<close>

lemma steps_result:
  "steps may step p h n p' h' \<Longrightarrow> ok p h \<Longrightarrow> result p' = Some x \<Longrightarrow> rest p h = Some (x, h')"
  using steps_keep [of p h n p' h'] result_rest by metis

text \<open>If the operation as one step is defined, no step on the way is undefined, and there is an end.\<close>

lemma steps_complete:
  "rest p h \<noteq> None \<Longrightarrow> ok p h \<Longrightarrow> \<exists>n p' h' x. steps may step p h n p' h' \<and> result p' = Some x \<and> n \<le> rank p h"
proof (induction "rank p h" arbitrary: p h rule: less_induct)
  case less
  show ?case
  proof (cases "result p")
    case (Some x)
    with steps_nil [of may step p h] show ?thesis by (metis le0)
  next
    case None
    then obtain i where i: "may p i" using may_step [OF less.prems(2)] by blast
    obtain p1 h1 where s: "step i p h = Some (p1, h1)" and "rest p1 h1 \<noteq> None"
      using less.prems(1) step_rest [OF less.prems(2) i] by (cases "step i p h") auto
    moreover have r: "rank p1 h1 < rank p h" by (rule step_rank [OF less.prems(2) i s])
    ultimately obtain n p' h' x where n: "steps may step p1 h1 n p' h'" "result p' = Some x" "n \<le> rank p1 h1"
      using less.hyps step_ok [OF less.prems(2) i s] by blast
    have "steps may step p h (Suc n) p' h'" using i s n(1) by (rule steps_step)
    moreover have "Suc n \<le> rank p h" using n(3) r by simp
    ultimately show ?thesis using n(2) by blast
  qed
qed

text \<open>If no step is undefined, the operation as one step is defined.\<close>

lemma rest_defined:
  assumes "\<And>p h i. ok p h \<Longrightarrow> may p i \<Longrightarrow> step i p h \<noteq> None"
  shows "ok p h \<Longrightarrow> rest p h \<noteq> None"
proof (induction "rank p h" arbitrary: p h rule: less_induct)
  case less
  show ?case
  proof (cases "result p")
    case (Some x)
    with result_rest show ?thesis by fastforce
  next
    case None
    then obtain i where i: "may p i" using may_step [OF less.prems] by blast
    obtain p1 h1 where s: "step i p h = Some (p1, h1)" using assms [OF less.prems i] by auto
    from less.hyps [OF step_rank [OF less.prems i s] step_ok [OF less.prems i s]] step_rest [OF less.prems i] s
    show ?thesis by simp
  qed
qed

lemma defined_step:
  "rest p h \<noteq> None \<Longrightarrow> ok p h \<Longrightarrow> may p i \<Longrightarrow> step i p h \<noteq> None"
  using step_rest [of p h i] by (cases "step i p h") auto

end

end
