(* ===== verification/Read_Steps.thy ===== *)
theory Read_Steps
  imports Variable_Props Small_Steps
begin

text \<open>
  \<open>SumReadRequest::read\<close> and \<open>ADSVariable::read_from_buffer\<close> in the steps that other threads can
  see: each access to memory that both use is a step of its own. The ADS library stores the answer
  byte by byte, in any order, through the pointer that it was given, and \<open>memcpy\<close> copies byte by
  byte, in any order; the four bytes of a return code are loaded at once. Accesses to memory that
  only one of the threads uses, and to members that do not change after \<open>allocate\<close>, are part of
  the step before.
\<close>

section \<open>The scan thread in \<open>read\<close>\<close>

text \<open>
  The points of \<open>read\<close>: at the head of the loop over the chunks that are left; before the lock of
  the connection's mutex; in the ADS call, which has got the answer and has the bytes \<open>todo\<close> left
  to store; in \<open>set_buffers_state\<close>, with the chunks that are left; at the end.
\<close>

datatype read_pc =
    Read_Start
  | Read_Loop "read_request_chunk list"
  | Read_Call read_request_chunk "read_request_chunk list"
  | Read_Store read_request_chunk "read_request_chunk list" int "byte list" "nat list"
  | Read_Invalid int "read_request_chunk list"
  | Read_Return int

definition store_byte :: "nat \<Rightarrow> byte \<Rightarrow> sum_read_buffer \<Rightarrow> sum_read_buffer option" where
  "store_byte i x b =
     (case buf_buffer b of
        None \<Rightarrow> None
      | Some bs \<Rightarrow> if i < length bs then Some (b\<lparr>buf_buffer := Some (bs[i := x])\<rparr>) else None)"

fun read_step ::
  "ads_def \<Rightarrow> 'e ads_lib \<Rightarrow> sum_read_request \<Rightarrow> nat \<Rightarrow> read_pc \<Rightarrow> 'e heap \<Rightarrow> (read_pc \<times> 'e heap) option" where
  "read_step d lib r i Read_Start h =
     Some (if \<not> req_initialized r then Read_Return EPICSADS_INV_CALL else Read_Loop (get_chunks r), h)"
| "read_step d lib r i (Read_Loop []) h = Some (Read_Return 0, h)"
| "read_step d lib r i (Read_Loop (c # cs)) h =
     Option.bind (save_buffer (h_buf h (chunk_buffer c))) (\<lambda>b.
       Some (if \<not> buf_initialized b then Read_Return EPICSADS_NOT_INITIALIZED else Read_Call c cs,
             set_buf (chunk_buffer c) b h))"
| "read_step d lib r i (Read_Call c cs) h =
     (let b = h_buf h (chunk_buffer c);
          nelem = get_num_variables b;
          read_buffer_size = u32 (buf_buffer_size b);
          write_buffer_size = u32 (length (chunk_request c) * 12);
          write_buffer = concat (map encode_symbol_info (chunk_request c))
      in (case AdsSyncReadWriteReqEx2 lib (h_env h) (conn_ads_port (h_conn h))
                 (remote_ams_netid (h_conn h), chunk_ads_port c) (ADSIGRP_SUMUP_READ d) nelem
                 read_buffer_size (take write_buffer_size write_buffer) of
            (rc, resp, e1) \<Rightarrow>
              Some (Read_Store c cs rc resp [0..<min read_buffer_size (length resp)], h\<lparr>h_env := e1\<rparr>)))"
| "read_step d lib r i (Read_Store c cs rc resp todo) h =
     (if i \<in> set todo
      then Option.bind (store_byte i (resp ! i) (h_buf h (chunk_buffer c))) (\<lambda>b.
             Some (Read_Store c cs rc resp (remove1 i todo), set_buf (chunk_buffer c) b h))
      else if rc \<noteq> 0 then Some (Read_Invalid (ads_rc_to_epicsads_error d rc) (get_chunks r), h)
      else Some (Read_Loop cs,
                 set_buf (chunk_buffer c) ((h_buf h (chunk_buffer c))\<lparr>buf_state := Buf_Valid\<rparr>) h))"
| "read_step d lib r i (Read_Invalid rc []) h = Some (Read_Return rc, h)"
| "read_step d lib r i (Read_Invalid rc (c # cs)) h =
     Some (Read_Invalid rc cs,
           set_buf (chunk_buffer c) ((h_buf h (chunk_buffer c))\<lparr>buf_state := Buf_Invalid\<rparr>) h)"
| "read_step d lib r i (Read_Return rc) h = Some (Read_Return rc, h)"

text \<open>The choices: the byte that is stored next, while there is one left.\<close>

fun read_may :: "read_pc \<Rightarrow> nat \<Rightarrow> bool" where
  "read_may (Read_Store c cs rc resp todo) i \<longleftrightarrow> todo = [] \<or> i \<in> set todo"
| "read_may (Read_Return rc) i \<longleftrightarrow> False"
| "read_may _ i \<longleftrightarrow> True"

fun read_result :: "read_pc \<Rightarrow> int option" where
  "read_result (Read_Return rc) = Some rc"
| "read_result _ = None"

section \<open>A handler in \<open>read_from_buffer\<close>\<close>

text \<open>
  The points of \<open>read_from_buffer\<close>, with the variable, the size and the contents of the memory of
  the caller: at the start; before \<open>read_data\<close>, when the buffer has been found valid; with the read
  lock, before the return code is loaded; with the read lock, in \<open>memcpy\<close>, with the bytes \<open>todo\<close>
  left to copy; after \<open>read_data\<close>; at the end.
\<close>

datatype hand_pc =
    Hand_Idle
  | Hand_Start nat nat "byte list"
  | Hand_Read nat nat "byte list"
  | Hand_Result nat nat "byte list"
  | Hand_Data nat nat "byte list" nat "nat list"
  | Hand_Finish nat nat "byte list" nat
  | Hand_Return nat nat int "byte list"

text \<open>The buffer that a variable's position points to, and the bytes of it that are read.\<close>

definition reader_buf :: "'e heap \<Rightarrow> nat \<Rightarrow> sum_read_buffer option" where
  "reader_buf h vid = Option.bind (pos_buffer (h_reader h vid)) (h_bufs h)"

definition data_index :: "'e heap \<Rightarrow> nat \<Rightarrow> sum_read_buffer \<Rightarrow> nat \<Rightarrow> nat" where
  "data_index h vid b i = start_of_data_offset b + pos_off_data (h_reader h vid) + i"

fun hand_step ::
  "ads_def \<Rightarrow> nat \<Rightarrow> hand_pc \<Rightarrow> 'e heap \<Rightarrow> (hand_pc \<times> 'e heap) option" where
  "hand_step d i Hand_Idle h = Some (Hand_Idle, h)"
| "hand_step d i (Hand_Start vid n dst) h =
     (let pos = h_reader h vid in
      if pos = EMPTY_BUFFER_DATA_POSITION then Some (Hand_Return vid n EPICSADS_NO_DATA dst, h)
      else if pos_buffer pos = None then Some (Hand_Return vid n EPICSADS_ERROR dst, h)
      else Option.bind (reader_buf h vid) (\<lambda>b.
        Some (if buf_state b = Buf_Invalid then Hand_Return vid n EPICSADS_DISCONNECTED dst
              else Hand_Read vid n dst, h)))"
| "hand_step d i (Hand_Read vid n dst) h =
     (let pos = h_reader h vid; bytes_to_read = min n (h_size h vid) in
      Option.bind (reader_buf h vid) (\<lambda>b.
        Some (if buf_buffer b = None
                then Hand_Return vid n (ads_rc_to_epicsads_error d EPICSADS_NOT_INITIALIZED) dst
              else if u16 (pos_off_result pos) \<ge> buf_next_result_offset b
                then Hand_Return vid n (ads_rc_to_epicsads_error d EPICSADS_OUT_OF_RANGE) dst
              else if u64 (pos_off_data pos + bytes_to_read) > buf_next_data_offset b
                then Hand_Return vid n (ads_rc_to_epicsads_error d EPICSADS_OUT_OF_RANGE) dst
              else Hand_Result vid n dst, h)))"
| "hand_step d i (Hand_Result vid n dst) h =
     Option.bind (reader_buf h vid) (\<lambda>b.
     Option.bind (buf_buffer b) (\<lambda>buffer.
     Option.bind (mem_read buffer (4 * u16 (pos_off_result (h_reader h vid))) 4) (\<lambda>rc.
       if data_index h vid b 0 \<le> length buffer
       then Some (Hand_Data vid n dst (le_decode rc) [0..<min n (h_size h vid)], h)
       else None)))"
| "hand_step d i (Hand_Data vid n dst code todo) h =
     (if i \<in> set todo
      then Option.bind (reader_buf h vid) (\<lambda>b.
           Option.bind (buf_buffer b) (\<lambda>buffer.
             if data_index h vid b i < length buffer \<and> i < length dst
             then Some (Hand_Data vid n (dst[i := buffer ! data_index h vid b i]) code (remove1 i todo), h)
             else None))
      else Some (Hand_Finish vid n dst code, h))"
| "hand_step d i (Hand_Finish vid n dst code) h =
     (let v = h_vars h vid in
      if code \<noteq> 0 then Some (Hand_Return vid n EPICSADS_NO_DATA dst, h)
      else if var_write_readback v \<and> var_last_written v \<noteq> []
        then Option.bind (mem_write dst (var_last_written v)) (\<lambda>dst'.
               Some (Hand_Return vid n 0 dst', upd_var vid (\<lambda>v. v\<lparr>var_last_written := []\<rparr>) h))
      else Some (Hand_Return vid n 0 dst, h))"
| "hand_step d i (Hand_Return vid n rc dst) h = Some (Hand_Return vid n rc dst, h)"

fun hand_may :: "hand_pc \<Rightarrow> nat \<Rightarrow> bool" where
  "hand_may (Hand_Data vid n dst code todo) i \<longleftrightarrow> todo = [] \<or> i \<in> set todo"
| "hand_may Hand_Idle i \<longleftrightarrow> False"
| "hand_may (Hand_Return vid n rc dst) i \<longleftrightarrow> False"
| "hand_may _ i \<longleftrightarrow> True"

fun hand_result :: "hand_pc \<Rightarrow> (int \<times> byte list) option" where
  "hand_result (Hand_Return vid n rc dst) = Some (rc, dst)"
| "hand_result _ = None"

end
