(* ===== verification/Step_Refinement.thy ===== *)
theory Step_Refinement
  imports Read_Steps
begin

text \<open>
  The small steps of \<open>read_from_buffer\<close> and of \<open>read\<close>, taken without interference, are the
  operations as the rest of the development has them in one step: same results, same memory, same
  undefined behaviour, for every order in which bytes are stored and copied.
\<close>

section \<open>Bytes in any order\<close>

definition put_bytes :: "nat list \<Rightarrow> (nat \<Rightarrow> 'a) \<Rightarrow> 'a list \<Rightarrow> 'a list" where
  "put_bytes todo f xs = map (\<lambda>i. if i \<in> set todo then f i else xs ! i) [0..<length xs]"

lemma length_put_bytes [simp]: "length (put_bytes todo f xs) = length xs"
  by (simp add: put_bytes_def)

lemma nth_put_bytes [simp]:
  "i < length xs \<Longrightarrow> put_bytes todo f xs ! i = (if i \<in> set todo then f i else xs ! i)"
  by (simp add: put_bytes_def)

lemma put_bytes_Nil [simp]: "put_bytes [] f xs = xs"
  by (simp add: put_bytes_def map_nth)

lemma put_bytes_one:
  "i \<in> set todo \<Longrightarrow> i < length xs \<Longrightarrow> put_bytes (remove1 i todo) f (xs[i := f i]) = put_bytes todo f xs"
  by (intro nth_equalityI) (auto simp: nth_list_update dest: set_remove1_subset [THEN subsetD])

lemma put_bytes_upt:
  "m \<le> length xs \<Longrightarrow> put_bytes [0..<m] f xs = map f [0..<m] @ drop m xs"
  by (intro nth_equalityI) (auto simp: nth_append)

lemma map_nth_upt: "off + m \<le> length xs \<Longrightarrow> map (\<lambda>i. xs ! (off + i)) [0..<m] = take m (drop off xs)"
  by (intro nth_equalityI) auto

lemma all_upto:
  assumes "0 < m"
  shows "(\<forall>i \<in> set [0..<m]. a + i < k \<and> i < l) \<longleftrightarrow> a + m \<le> k \<and> m \<le> (l :: nat)"
proof
  assume "\<forall>i \<in> set [0..<m]. a + i < k \<and> i < l"
  moreover have "m - 1 \<in> set [0..<m]" using assms by simp
  ultimately have "a + (m - 1) < k \<and> m - 1 < l" by blast
  with assms show "a + m \<le> k \<and> m \<le> l" by auto
qed auto

section \<open>Handlers\<close>

text \<open>What the remainder of \<open>read_from_buffer\<close> does from each of its points.\<close>

definition rest_finish :: "nat \<Rightarrow> byte list \<Rightarrow> nat \<Rightarrow> 'e heap \<Rightarrow> ((int \<times> byte list) \<times> 'e heap) option" where
  "rest_finish vid dst code h =
     (if code \<noteq> 0 then Some ((EPICSADS_NO_DATA, dst), h)
      else if readback_pending h vid
        then Option.bind (mem_write dst (var_last_written (h_vars h vid))) (\<lambda>dst'.
               Some ((0, dst'), upd_var vid (\<lambda>v. v\<lparr>var_last_written := []\<rparr>) h))
      else Some ((0, dst), h))"

definition rest_data ::
  "nat \<Rightarrow> byte list \<Rightarrow> nat \<Rightarrow> nat list \<Rightarrow> 'e heap \<Rightarrow> ((int \<times> byte list) \<times> 'e heap) option" where
  "rest_data vid dst code todo h =
     (if todo = [] then rest_finish vid dst code h
      else Option.bind (reader_buf h vid) (\<lambda>b. Option.bind (buf_buffer b) (\<lambda>buffer.
        if \<forall>i \<in> set todo. data_index h vid b i < length buffer \<and> i < length dst
        then rest_finish vid (put_bytes todo (\<lambda>i. buffer ! data_index h vid b i) dst) code h
        else None)))"

definition rest_result :: "nat \<Rightarrow> nat \<Rightarrow> byte list \<Rightarrow> 'e heap \<Rightarrow> ((int \<times> byte list) \<times> 'e heap) option" where
  "rest_result vid n dst h =
     Option.bind (reader_buf h vid) (\<lambda>b. Option.bind (buf_buffer b) (\<lambda>buffer.
     Option.bind (mem_read buffer (4 * u16 (pos_off_result (h_reader h vid))) 4) (\<lambda>rc.
       if data_index h vid b 0 \<le> length buffer
       then rest_data vid dst (le_decode rc) [0..<min n (h_size h vid)] h else None)))"

definition rest_read ::
  "ads_def \<Rightarrow> nat \<Rightarrow> nat \<Rightarrow> byte list \<Rightarrow> 'e heap \<Rightarrow> ((int \<times> byte list) \<times> 'e heap) option" where
  "rest_read d vid n dst h =
     Option.bind (reader_buf h vid) (\<lambda>b.
     Option.bind (read_data (pos_off_result (h_reader h vid)) (pos_off_data (h_reader h vid))
         (min n (h_size h vid)) (Some 0) (Some dst) b) (\<lambda>(rc, code, out).
       if rc \<noteq> 0 then Some ((ads_rc_to_epicsads_error d rc, the out), h)
       else rest_finish vid (the out) (the code) h))"

fun hand_rest :: "ads_def \<Rightarrow> hand_pc \<Rightarrow> 'e heap \<Rightarrow> ((int \<times> byte list) \<times> 'e heap) option" where
  "hand_rest d Hand_Idle h = None"
| "hand_rest d (Hand_Start vid n dst) h =
     map_option (\<lambda>(rc, out, h'). ((rc, the out), h')) (read_from_buffer d vid n (Some dst) h)"
| "hand_rest d (Hand_Read vid n dst) h = rest_read d vid n dst h"
| "hand_rest d (Hand_Result vid n dst) h = rest_result vid n dst h"
| "hand_rest d (Hand_Data vid n dst code todo) h = rest_data vid dst code todo h"
| "hand_rest d (Hand_Finish vid n dst code) h = rest_finish vid dst code h"
| "hand_rest d (Hand_Return vid n rc dst) h = Some ((rc, dst), h)"

text \<open>Copying byte by byte is \<open>memcpy\<close>.\<close>

lemma rest_data_memcpy:
  assumes "reader_buf h vid = Some b" and "buf_buffer b = Some buffer" and "data_index h vid b 0 \<le> length buffer"
  shows "rest_data vid dst code [0..<m] h =
    Option.bind (mem_read buffer (data_index h vid b 0) m) (\<lambda>d.
      Option.bind (mem_write dst d) (\<lambda>dst'. rest_finish vid dst' code h))"
proof (cases "m = 0")
  case True
  then show ?thesis using assms by (simp add: rest_data_def mem_read_def mem_write_def)
next
  case False
  define a where "a = data_index h vid b 0"
  have idx: "data_index h vid b i = a + i" for i by (simp add: data_index_def a_def)
  have all: "(\<forall>i \<in> {0..<m}. a + i < length buffer \<and> i < length dst)
      \<longleftrightarrow> a + m \<le> length buffer \<and> m \<le> length dst"
    using all_upto [of m a] False by simp
  have "rest_data vid dst code [0..<m] h =
      (if a + m \<le> length buffer \<and> m \<le> length dst
       then rest_finish vid (take m (drop a buffer) @ drop m dst) code h else None)"
    using assms(1,2) False by (simp add: rest_data_def all idx put_bytes_upt map_nth_upt)
  then show ?thesis unfolding a_def [symmetric] by (auto simp: mem_read_def mem_write_def)
qed

text \<open>Each step leaves the result of the remainder as it is.\<close>

lemma read_data_outs:
  "read_data off_result off_data n (Some r) (Some dst) b = Some (rc, code, out) \<Longrightarrow> \<exists>c o1. code = Some c \<and> out = Some o1"
  by (auto simp: read_data_def mem_write_def split: option.splits if_splits bind_splits)

lemma read_from_buffer_outs:
  "read_from_buffer d vid n (Some dst) h = Some (rc, out, h') \<Longrightarrow> \<exists>o1. out = Some o1"
  by (auto simp: read_from_buffer_def Let_def mem_write_def dest!: read_data_outs
      split: option.splits if_splits bind_splits)

lemma rest_start:
  "hand_rest d (Hand_Start vid n dst) h = Option.bind (hand_step d i (Hand_Start vid n dst) h) (\<lambda>(p, h'). hand_rest d p h')"
proof -
  let ?pos = "h_reader h vid"
  consider "?pos = EMPTY_BUFFER_DATA_POSITION" | "?pos \<noteq> EMPTY_BUFFER_DATA_POSITION" "pos_buffer ?pos = None"
    | bid where "?pos \<noteq> EMPTY_BUFFER_DATA_POSITION" "pos_buffer ?pos = Some bid" "h_bufs h bid = None"
    | bid b where "?pos \<noteq> EMPTY_BUFFER_DATA_POSITION" "pos_buffer ?pos = Some bid" "h_bufs h bid = Some b"
    by (cases "pos_buffer ?pos"; cases "h_bufs h (the (pos_buffer ?pos))") auto
  then show ?thesis
  proof cases
    case (4 bid b)
    show ?thesis
    proof (cases "read_data (pos_off_result ?pos) (pos_off_data ?pos) (min n (h_size h vid)) (Some 0) (Some dst) b")
      case None
      with 4 show ?thesis
        by (simp add: read_from_buffer_def reader_buf_def h_reader_def h_size_def rest_read_def Let_def)
    next
      case (Some x)
      then obtain rc code out where x: "read_data (pos_off_result ?pos) (pos_off_data ?pos) (min n (h_size h vid))
          (Some 0) (Some dst) b = Some (rc, Some code, Some out)"
        by (cases x) (use read_data_outs in blast)
      with 4 show ?thesis
        by (simp add: read_from_buffer_def reader_buf_def h_reader_def h_size_def rest_read_def Let_def
            rest_finish_def readback_pending_def mem_write_def)
    qed
  qed (simp_all add: read_from_buffer_def reader_buf_def h_reader_def Let_def)
qed

lemma rest_read_step:
  "rest_read d vid n dst h = Option.bind (hand_step d i (Hand_Read vid n dst) h) (\<lambda>(p, h'). hand_rest d p h')"
proof (cases "reader_buf h vid")
  case None
  then show ?thesis by (simp add: rest_read_def)
next
  case b: (Some b)
  show ?thesis
  proof (cases "buf_buffer b")
    case None
    with b show ?thesis
      by (simp add: rest_read_def read_data_def EPICSADS_NOT_INITIALIZED_def)
  next
    case (Some buffer)
    have idx: "data_index h vid b 0 = start_of_data_offset b + pos_off_data (h_reader h vid)"
      by (simp add: data_index_def)
    show ?thesis
      using b Some rest_data_memcpy [OF b Some]
      by (auto simp: rest_read_def read_data_def Let_def rest_result_def EPICSADS_OUT_OF_RANGE_def mem_read_def idx)
  qed
qed

lemma rest_data_step:
  assumes "todo = [] \<or> i \<in> set todo"
  shows "rest_data vid dst code todo h
    = Option.bind (hand_step d i (Hand_Data vid n dst code todo) h) (\<lambda>(p, h'). hand_rest d p h')"
proof (cases "todo = []")
  case True
  then show ?thesis by (simp add: rest_data_def)
next
  case False
  with assms have i: "i \<in> set todo" by simp
  show ?thesis
  proof (cases "Option.bind (reader_buf h vid) buf_buffer")
    case None
    with i False show ?thesis by (cases "reader_buf h vid") (simp_all add: rest_data_def)
  next
    case (Some buffer)
    then obtain b where b: "reader_buf h vid = Some b" "buf_buffer b = Some buffer"
      by (auto simp: bind_eq_Some_conv)
    let ?in = "\<lambda>i. data_index h vid b i < length buffer \<and> i < length dst" and ?f = "\<lambda>i. buffer ! data_index h vid b i"
    show ?thesis
    proof (cases "?in i")
      case False
      with i b \<open>todo \<noteq> []\<close> show ?thesis by (auto simp: rest_data_def)
    next
      case True
      have all: "(\<forall>j \<in> set (remove1 i todo). ?in j) \<longleftrightarrow> (\<forall>j \<in> set todo. ?in j)"
        using True by (metis in_set_remove1 set_remove1_subset subsetD)
      have put: "put_bytes (remove1 i todo) ?f (dst[i := ?f i]) = put_bytes todo ?f dst"
        using i True by (intro put_bytes_one) auto
      have last: "dst[i := ?f i] = put_bytes todo ?f dst \<and> (\<forall>j \<in> set todo. ?in j)" if "remove1 i todo = []"
        using put all that by auto
      show ?thesis using i b True \<open>todo \<noteq> []\<close> all put last by (simp add: rest_data_def)
    qed
  qed
qed

text \<open>The number of steps that are left at most.\<close>

fun hand_rank :: "hand_pc \<Rightarrow> 'e heap \<Rightarrow> nat" where
  "hand_rank (Hand_Start vid n dst) h = min n (h_size h vid) + 5"
| "hand_rank (Hand_Read vid n dst) h = min n (h_size h vid) + 4"
| "hand_rank (Hand_Result vid n dst) h = min n (h_size h vid) + 3"
| "hand_rank (Hand_Data vid n dst code todo) h = length todo + 2"
| "hand_rank (Hand_Finish vid n dst code) h = 1"
| "hand_rank _ h = 0"

lemma hand_step_rank:
  assumes "hand_may p i" and "hand_step d i p h = Some (p', h')"
  shows "hand_rank p' h' < hand_rank p h"
proof (cases p)
  case (Hand_Data vid n dst code todo)
  then show ?thesis
    using assms length_pos_if_in_set [of i todo]
    by (auto simp: bind_eq_Some_conv length_remove1 split: if_splits)
qed (use assms in \<open>auto simp: Let_def bind_eq_Some_conv split: if_splits\<close>)

lemma hand_step_busy:
  "hand_may p i \<Longrightarrow> hand_step d i p h = Some (p', h') \<Longrightarrow> p' \<noteq> Hand_Idle"
  by (cases p) (auto simp: Let_def bind_eq_Some_conv split: if_splits)

lemma hand_rest_step:
  assumes "hand_may p i"
  shows "hand_rest d p h = Option.bind (hand_step d i p h) (\<lambda>(p', h'). hand_rest d p' h')"
proof (cases p)
  case (Hand_Start vid n dst)
  then show ?thesis using rest_start by blast
next
  case (Hand_Read vid n dst)
  then show ?thesis using rest_read_step [of d vid n dst h i] by simp
next
  case (Hand_Data vid n dst code todo)
  then show ?thesis using rest_data_step [of todo i vid dst code h d n] assms by simp
qed (use assms in \<open>auto simp: rest_result_def rest_finish_def readback_pending_def Let_def bind_eq_Some_conv
    mem_write_def split: option.splits bind_splits if_splits\<close>)

text \<open>The variable and the size of the call.\<close>

fun hand_call :: "hand_pc \<Rightarrow> (nat \<times> nat) option" where
  "hand_call Hand_Idle = None"
| "hand_call (Hand_Start vid n dst) = Some (vid, n)"
| "hand_call (Hand_Read vid n dst) = Some (vid, n)"
| "hand_call (Hand_Result vid n dst) = Some (vid, n)"
| "hand_call (Hand_Data vid n dst code todo) = Some (vid, n)"
| "hand_call (Hand_Finish vid n dst code) = Some (vid, n)"
| "hand_call (Hand_Return vid n rc dst) = Some (vid, n)"

lemma hand_step_call: "hand_step d i p h = Some (p', h') \<Longrightarrow> hand_call p' = hand_call p"
  by (cases p) (auto simp: Let_def bind_eq_Some_conv split: if_splits)

lemma hand_steps_call: "steps hand_may (hand_step d) p h k p' h' \<Longrightarrow> hand_call p' = hand_call p"
  by (induction rule: steps.induct) (auto dest: hand_step_call)

interpretation hand: small_steps hand_may "hand_step d" "\<lambda>p h. p \<noteq> Hand_Idle" hand_rank hand_result "hand_rest d" for d
proof
  show "\<exists>i. hand_may p i" if "p \<noteq> Hand_Idle" "hand_result p = None" for p
  proof (cases p)
    case (Hand_Data vid n dst code todo)
    then show ?thesis by (cases todo) (auto intro: exI [of _ "hd todo"])
  qed (use that in auto)
  show "hand_rest d p h = Some (x, h)" if "hand_result p = Some x" for p x h
    using that by (cases p) auto
qed (use hand_step_rank hand_step_busy hand_rest_step in blast)+

section \<open>The scan thread\<close>

text \<open>What the remainder of \<open>read\<close> does from each of its points.\<close>

definition rest_store ::
  "ads_def \<Rightarrow> 'e ads_lib \<Rightarrow> sum_read_request \<Rightarrow> read_request_chunk \<Rightarrow> read_request_chunk list \<Rightarrow> int \<Rightarrow> byte list
     \<Rightarrow> nat list \<Rightarrow> 'e heap \<Rightarrow> (int \<times> 'e heap) option" where
  "rest_store d lib r c cs rc resp todo h =
     (let b = h_buf h (chunk_buffer c);
          b1 = b\<lparr>buf_buffer := map_option (put_bytes todo (\<lambda>i. resp ! i)) (buf_buffer b)\<rparr>;
          h1 = set_buf (chunk_buffer c) b1 h
      in if rc \<noteq> 0 then Some (ads_rc_to_epicsads_error d rc, set_buffers_state Buf_Invalid r h1)
         else read_chunks d lib r cs (set_buf (chunk_buffer c) (b1\<lparr>buf_state := Buf_Valid\<rparr>) h1))"

fun read_rest ::
  "ads_def \<Rightarrow> 'e ads_lib \<Rightarrow> sum_read_request \<Rightarrow> read_pc \<Rightarrow> 'e heap \<Rightarrow> (int \<times> 'e heap) option" where
  "read_rest d lib r Read_Start h = sum_read d lib h r"
| "read_rest d lib r (Read_Loop cs) h = read_chunks d lib r cs h"
| "read_rest d lib r (Read_Call c cs) h =
     (case chunk_call d lib h c of (rc, resp, e1) \<Rightarrow>
        rest_store d lib r c cs rc resp
          [0..<min (u32 (buf_buffer_size (h_buf h (chunk_buffer c)))) (length resp)] (h\<lparr>h_env := e1\<rparr>))"
| "read_rest d lib r (Read_Store c cs rc resp todo) h = rest_store d lib r c cs rc resp todo h"
| "read_rest d lib r (Read_Invalid rc cs) h =
     Some (rc, foldl (\<lambda>h c. set_buf (chunk_buffer c) ((h_buf h (chunk_buffer c))\<lparr>buf_state := Buf_Invalid\<rparr>) h) h cs)"
| "read_rest d lib r (Read_Return rc) h = Some (rc, h)"

text \<open>
  The invariant: the request is well-formed, its buffers are allocated, and the bytes that are left
  to store are in the buffer.
\<close>

fun read_pc_ok :: "sum_read_request \<Rightarrow> read_pc \<Rightarrow> 'e heap \<Rightarrow> bool" where
  "read_pc_ok r (Read_Loop cs) h \<longleftrightarrow> req_initialized r \<and> suffix cs (get_chunks r)"
| "read_pc_ok r (Read_Call c cs) h \<longleftrightarrow> req_initialized r \<and> suffix (c # cs) (get_chunks r)"
| "read_pc_ok r (Read_Store c cs rc resp todo) h \<longleftrightarrow> req_initialized r \<and> suffix (c # cs) (get_chunks r)
     \<and> distinct todo \<and> (\<forall>i \<in> set todo. i < length resp \<and> i < u32 (buf_buffer_size (h_buf h (chunk_buffer c))))"
| "read_pc_ok r (Read_Invalid rc cs) h \<longleftrightarrow> req_initialized r \<and> suffix cs (get_chunks r)"
| "read_pc_ok r _ h \<longleftrightarrow> True"

definition read_ok :: "sum_read_request \<Rightarrow> read_pc \<Rightarrow> 'e heap \<Rightarrow> bool" where
  "read_ok r p h \<longleftrightarrow> req_ok h r \<and> all_bufs buf_initialized h (get_chunks r) \<and> read_pc_ok r p h"

definition chunk_steps :: "'e heap \<Rightarrow> read_request_chunk \<Rightarrow> nat" where
  "chunk_steps h c = buf_buffer_size (h_buf h (chunk_buffer c)) + 3"

definition loop_steps :: "sum_read_request \<Rightarrow> read_request_chunk list \<Rightarrow> 'e heap \<Rightarrow> nat" where
  "loop_steps r cs h = sum_list (map (chunk_steps h) cs) + length (get_chunks r) + 2"

fun read_rank :: "sum_read_request \<Rightarrow> read_pc \<Rightarrow> 'e heap \<Rightarrow> nat" where
  "read_rank r Read_Start h = loop_steps r (get_chunks r) h + 1"
| "read_rank r (Read_Loop cs) h = loop_steps r cs h"
| "read_rank r (Read_Call c cs) h = buf_buffer_size (h_buf h (chunk_buffer c)) + 2 + loop_steps r cs h"
| "read_rank r (Read_Store c cs rc resp todo) h = length todo + 1 + loop_steps r cs h"
| "read_rank r (Read_Invalid rc cs) h = length cs + 1"
| "read_rank r (Read_Return rc) h = 0"

lemma suffix_Cons_in: "suffix (c # cs) xs \<Longrightarrow> c \<in> set xs"
  and suffix_Cons_tl: "suffix (c # cs) xs \<Longrightarrow> suffix cs xs"
  by (auto simp: suffix_def)

lemma loop_steps_set_buf:
  "buf_buffer_size b = buf_buffer_size (h_buf h bid) \<Longrightarrow> loop_steps r cs (set_buf bid b h) = loop_steps r cs h"
proof -
  assume "buf_buffer_size b = buf_buffer_size (h_buf h bid)"
  then have "chunk_steps (set_buf bid b h) = chunk_steps h" by (simp add: fun_eq_iff chunk_steps_def)
  then show ?thesis by (simp add: loop_steps_def)
qed

lemma loop_steps_env [simp]: "loop_steps r cs (h\<lparr>h_env := e\<rparr>) = loop_steps r cs h"
  by (simp add: loop_steps_def chunk_steps_def [abs_def])

text \<open>A step that replaces the buffer of a chunk of the request.\<close>

lemma read_ok_set_buf:
  assumes "req_ok h r" and "all_bufs buf_initialized h (get_chunks r)" and "c \<in> set (get_chunks r)"
    and "buf_inv (h_size h) b" and "same_layout (h_buf h (chunk_buffer c)) b" and "buf_initialized b"
  shows "req_ok (set_buf (chunk_buffer c) b h) r" and "all_bufs buf_initialized (set_buf (chunk_buffer c) b h) (get_chunks r)"
    and "buf_buffer_size b = buf_buffer_size (h_buf h (chunk_buffer c))"
proof -
  show "req_ok (set_buf (chunk_buffer c) b h) r" by (rule req_ok_set_buf [OF assms(1,3,4,5)])
  show "all_bufs buf_initialized (set_buf (chunk_buffer c) b h) (get_chunks r)"
    by (rule all_bufs_set_buf [OF assms(2,6)])
  show "buf_buffer_size b = buf_buffer_size (h_buf h (chunk_buffer c))"
    using assms(4,5) req_chunk_inv(1) [OF assms(1,3)] by (simp add: buf_inv_def same_layout_def)
qed

lemma read_okD:
  assumes "read_ok r p h" and "c \<in> set (get_chunks r)"
  obtains bs where "buf_inv (h_size h) (h_buf h (chunk_buffer c))" and "buf_initialized (h_buf h (chunk_buffer c))"
    and "buf_variables (h_buf h (chunk_buffer c)) = chunk_variables c"
    and "length (chunk_request c) = length (chunk_variables c)" and "length (chunk_variables c) < 65536"
    and "h_bufs h (chunk_buffer c) = Some (h_buf h (chunk_buffer c))"
    and "buf_buffer (h_buf h (chunk_buffer c)) = Some bs" and "length bs = buf_buffer_size (h_buf h (chunk_buffer c))"
proof -
  have ok: "req_ok h r" and init: "buf_initialized (h_buf h (chunk_buffer c))"
    using assms by (auto simp: read_ok_def all_bufs_def)
  note inv = req_chunk_inv [OF ok assms(2)]
  then obtain bs where "buf_buffer (h_buf h (chunk_buffer c)) = Some bs"
      "length bs = buf_buffer_size (h_buf h (chunk_buffer c))" "length (chunk_variables c) < 65536"
    using init by (auto simp: buf_inv_def)
  with inv init that show ?thesis by blast
qed

lemma u32_le: "u32 n \<le> n"
  by (simp add: u32_def)

text \<open>What each step does to the memory.\<close>

lemma step_loop:
  assumes "read_ok r (Read_Loop (c # cs)) h"
  obtains b where "save_buffer (h_buf h (chunk_buffer c)) = Some b" and "buf_inv (h_size h) b"
    and "same_layout (h_buf h (chunk_buffer c)) b" and "buf_buffer b = buf_buffer (h_buf h (chunk_buffer c))"
    and "buf_state b = buf_state (h_buf h (chunk_buffer c))" and "buf_initialized b"
    and "read_step d lib r i (Read_Loop (c # cs)) h = Some (Read_Call c cs, set_buf (chunk_buffer c) b h)"
proof -
  have c: "c \<in> set (get_chunks r)" using assms by (auto simp: read_ok_def suffix_Cons_in)
  from read_okD [OF assms c] obtain bs where o: "buf_inv (h_size h) (h_buf h (chunk_buffer c))"
    "buf_initialized (h_buf h (chunk_buffer c))" by blast
  obtain b where b: "save_buffer (h_buf h (chunk_buffer c)) = Some b" and "buf_inv (h_size h) b"
    "buf_buffer b = buf_buffer (h_buf h (chunk_buffer c))" "buf_state b = buf_state (h_buf h (chunk_buffer c))"
    "buf_initialized b"
    using save_buffer_ok [OF o(1)] o(2) by auto
  with save_buffer_layout [OF b] that show ?thesis by simp
qed

lemma step_call:
  assumes "read_ok r (Read_Call c cs) h" and "chunk_call d lib h c = (rc, resp, e1)"
  shows "read_step d lib r i (Read_Call c cs) h =
    Some (Read_Store c cs rc resp [0..<min (u32 (buf_buffer_size (h_buf h (chunk_buffer c)))) (length resp)],
      h\<lparr>h_env := e1\<rparr>)"
proof -
  have c: "c \<in> set (get_chunks r)" using assms(1) by (auto simp: read_ok_def suffix_Cons_in)
  from read_okD [OF assms(1) c] obtain bs where "buf_inv (h_size h) (h_buf h (chunk_buffer c))"
    "buf_variables (h_buf h (chunk_buffer c)) = chunk_variables c"
    "length (chunk_request c) = length (chunk_variables c)" "length (chunk_variables c) < 65536" by metis
  with assms(2) show ?thesis by (simp add: chunk_call_def Let_def mult.commute)
qed

lemma step_store:
  assumes "read_ok r (Read_Store c cs rc resp todo) h" and "i \<in> set todo"
  obtains bs where "buf_buffer (h_buf h (chunk_buffer c)) = Some bs" and "i < length bs"
    and "buf_inv (h_size h) ((h_buf h (chunk_buffer c))\<lparr>buf_buffer := Some (bs[i := resp ! i])\<rparr>)"
    and "read_step d lib r i (Read_Store c cs rc resp todo) h =
      Some (Read_Store c cs rc resp (remove1 i todo),
        set_buf (chunk_buffer c) ((h_buf h (chunk_buffer c))\<lparr>buf_buffer := Some (bs[i := resp ! i])\<rparr>) h)"
proof -
  have c: "c \<in> set (get_chunks r)" using assms(1) by (auto simp: read_ok_def suffix_Cons_in)
  from read_okD [OF assms(1) c] obtain bs where o: "buf_inv (h_size h) (h_buf h (chunk_buffer c))"
    and bs: "buf_buffer (h_buf h (chunk_buffer c)) = Some bs" "length bs = buf_buffer_size (h_buf h (chunk_buffer c))" by metis
  have "i < u32 (length bs)" using assms bs(2) by (auto simp: read_ok_def)
  then have i: "i < length bs" using u32_le [of "length bs"] by simp
  have "buf_inv (h_size h) ((h_buf h (chunk_buffer c))\<lparr>buf_buffer := Some (bs[i := resp ! i])\<rparr>)"
    using o bs by (simp add: buf_inv_def)
  with bs i assms(2) that show ?thesis by (simp add: store_byte_def)
qed

lemma fill_put_bytes:
  "n \<le> length bs \<Longrightarrow> put_bytes [0..<min n (length resp)] (\<lambda>i. resp ! i) bs = fill n resp bs"
  by (intro nth_equalityI) (auto simp: fill_def Let_def nth_append)

lemma set_buf_same: "h_bufs h bid = Some b \<Longrightarrow> set_buf bid b h = h"
  by (simp add: set_buf_def fun_upd_idem)

lemma set_buf_twice [simp]: "set_buf bid b (set_buf bid b' h) = set_buf bid b h"
  by (simp add: set_buf_def)

lemma set_buf_env [simp]: "(set_buf bid b h)\<lparr>h_env := e\<rparr> = set_buf bid b (h\<lparr>h_env := e\<rparr>)"
  by (simp add: set_buf_def)

text \<open>Each step leaves the result of the remainder as it is.\<close>

lemma rest_loop:
  assumes ok: "read_ok r (Read_Loop (c # cs)) h"
    and b: "save_buffer (h_buf h (chunk_buffer c)) = Some b" "buf_inv (h_size h) b"
      "same_layout (h_buf h (chunk_buffer c)) b" "buf_initialized b"
  shows "read_chunks d lib r (c # cs) h = read_rest d lib r (Read_Call c cs) (set_buf (chunk_buffer c) b h)"
proof -
  have c: "c \<in> set (get_chunks r)" using ok by (auto simp: read_ok_def suffix_Cons_in)
  let ?n = "u32 (buf_buffer_size b)" and ?bid = "chunk_buffer c"
  from read_okD [OF ok c] have vs: "buf_variables b = chunk_variables c"
    "length (chunk_request c) = length (chunk_variables c)" "length (chunk_variables c) < 65536"
    using b(3) by (auto simp: same_layout_def)
  have size: "buf_buffer_size (h_buf h ?bid) = buf_buffer_size b" using b(3) by (simp add: same_layout_def)
  obtain bs where bs: "buf_buffer b = Some bs" "length bs = buf_buffer_size b" using b(2,4) by (auto simp: buf_inv_def)
  obtain rc resp e1 where call: "chunk_call d lib h c = (rc, resp, e1)" by (cases "chunk_call d lib h c") auto
  then have call': "chunk_call d lib (set_buf ?bid b h) c = (rc, resp, e1)" by (simp add: chunk_call_def size)
  have fill: "put_bytes [0..<min ?n (length resp)] (\<lambda>i. resp ! i) bs = fill ?n resp bs"
    using bs(2) u32_le by (intro fill_put_bytes) simp
  have st: "store_response ?n resp b = b\<lparr>buf_buffer := Some (put_bytes [0..<min ?n (length resp)] (\<lambda>i. resp ! i) bs)\<rparr>"
    using bs(1) fill by (simp add: store_response_def)
  have "read_chunk d lib r c h =
     (if rc \<noteq> 0 then Some (True, ads_rc_to_epicsads_error d rc,
        set_buffers_state Buf_Invalid r (set_buf ?bid (store_response ?n resp b) (h\<lparr>h_env := e1\<rparr>)))
      else Some (False, 0, set_buf ?bid ((store_response ?n resp b)\<lparr>buf_state := Buf_Valid\<rparr>) (h\<lparr>h_env := e1\<rparr>)))"
    using call b vs size by (simp add: read_chunk_def chunk_call_def Let_def mult.commute)
  then show ?thesis
    using call' bs(1) by (simp add: rest_store_def Let_def st)
qed

lemma rest_store_step:
  assumes ok: "read_ok r (Read_Store c cs rc resp todo) h" and may: "todo = [] \<or> i \<in> set todo"
  shows "rest_store d lib r c cs rc resp todo h
    = Option.bind (read_step d lib r i (Read_Store c cs rc resp todo) h) (\<lambda>(p, h'). read_rest d lib r p h')"
proof (cases "i \<in> set todo")
  case True
  obtain bs where bs: "buf_buffer (h_buf h (chunk_buffer c)) = Some bs" and i: "i < length bs"
    and s: "read_step d lib r i (Read_Store c cs rc resp todo) h =
      Some (Read_Store c cs rc resp (remove1 i todo),
        set_buf (chunk_buffer c) ((h_buf h (chunk_buffer c))\<lparr>buf_buffer := Some (bs[i := resp ! i])\<rparr>) h)"
    using step_store [OF ok True] by metis
  show ?thesis
    unfolding s using bs put_bytes_one [OF True i, of "\<lambda>i. resp ! i"] by (simp add: rest_store_def Let_def)
next
  case False
  with may have todo: "todo = []" by simp
  have c: "c \<in> set (get_chunks r)" using ok by (auto simp: read_ok_def suffix_Cons_in)
  from read_okD [OF ok c] have b: "h_bufs h (chunk_buffer c) = Some (h_buf h (chunk_buffer c))" by blast
  have "(h_buf h (chunk_buffer c))\<lparr>buf_buffer := map_option (put_bytes [] f) (buf_buffer (h_buf h (chunk_buffer c)))\<rparr>
      = h_buf h (chunk_buffer c)" for f
    by (simp add: put_bytes_Nil [abs_def] option.map_ident)
  with todo set_buf_same [OF b] show ?thesis
    by (simp add: rest_store_def Let_def set_buffers_state_def)
qed

lemma read_rest_step:
  assumes "read_ok r p h" and "read_may p i"
  shows "read_rest d lib r p h = Option.bind (read_step d lib r i p h) (\<lambda>(p', h'). read_rest d lib r p' h')"
proof (cases p)
  case Read_Start
  then show ?thesis by (simp add: sum_read_def)
next
  case (Read_Loop cs)
  show ?thesis
  proof (cases cs)
    case (Cons c cs)
    from step_loop [OF assms(1) [unfolded Read_Loop Cons], of d lib i] obtain b
      where b: "save_buffer (h_buf h (chunk_buffer c)) = Some b" "buf_inv (h_size h) b"
        "same_layout (h_buf h (chunk_buffer c)) b" "buf_initialized b"
        and s: "read_step d lib r i (Read_Loop (c # cs)) h = Some (Read_Call c cs, set_buf (chunk_buffer c) b h)"
      by metis
    show ?thesis
      unfolding Read_Loop Cons s using rest_loop [OF assms(1) [unfolded Read_Loop Cons] b] by simp
  qed (simp add: Read_Loop)
next
  case (Read_Call c cs)
  obtain rc resp e1 where call: "chunk_call d lib h c = (rc, resp, e1)" by (cases "chunk_call d lib h c") auto
  show ?thesis
    unfolding Read_Call step_call [OF assms(1) [unfolded Read_Call] call] using call by simp
next
  case (Read_Store c cs rc resp todo)
  with assms show ?thesis using rest_store_step [of r c cs rc resp todo h i d lib] by simp
next
  case (Read_Invalid rc cs)
  then show ?thesis by (cases cs) simp_all
next
  case (Read_Return rc)
  with assms(2) show ?thesis by simp
qed

text \<open>Each step is defined, keeps the invariant and comes closer to the end.\<close>

lemma read_step_ok:
  assumes ok: "read_ok r p h" and may: "read_may p i"
  shows "\<exists>p' h'. read_step d lib r i p h = Some (p', h') \<and> read_ok r p' h' \<and> read_rank r p' h' < read_rank r p h"
proof (cases p)
  case Read_Start
  then show ?thesis using ok by (auto simp: read_ok_def)
next
  case (Read_Loop cs)
  show ?thesis
  proof (cases cs)
    case Nil
    with Read_Loop ok show ?thesis by (auto simp: read_ok_def loop_steps_def)
  next
    case (Cons c cs1)
    note o = ok [unfolded Read_Loop Cons]
    have c: "c \<in> set (get_chunks r)" using o by (auto simp: read_ok_def suffix_Cons_in)
    from step_loop [OF o, of d lib i] obtain b where b: "buf_inv (h_size h) b"
        "same_layout (h_buf h (chunk_buffer c)) b" "buf_initialized b"
      and s: "read_step d lib r i (Read_Loop (c # cs1)) h = Some (Read_Call c cs1, set_buf (chunk_buffer c) b h)"
      by metis
    have r: "req_ok h r" "all_bufs buf_initialized h (get_chunks r)" using ok by (simp_all add: read_ok_def)
    note k = read_ok_set_buf [OF r c b]
    show ?thesis
      unfolding Read_Loop Cons s using k o
      by (simp add: read_ok_def loop_steps_set_buf) (simp add: loop_steps_def chunk_steps_def)
  qed
next
  case (Read_Call c cs)
  obtain rc resp e1 where call: "chunk_call d lib h c = (rc, resp, e1)" by (cases "chunk_call d lib h c") auto
  let ?n = "buf_buffer_size (h_buf h (chunk_buffer c))"
  have n: "min (u32 ?n) (length resp) \<le> ?n" using u32_le [of ?n] by simp
  have idx: "\<forall>i \<in> set [0..<min (u32 ?n) (length resp)]. i < length resp \<and> i < u32 ?n"
    by simp
  have "read_ok r (Read_Store c cs rc resp [0..<min (u32 ?n) (length resp)]) (h\<lparr>h_env := e1\<rparr>)"
    using ok idx unfolding Read_Call read_ok_def by simp
  moreover have "read_rank r (Read_Store c cs rc resp [0..<min (u32 ?n) (length resp)]) (h\<lparr>h_env := e1\<rparr>)
      < read_rank r (Read_Call c cs) h" using n by simp
  ultimately show ?thesis
    unfolding Read_Call step_call [OF ok [unfolded Read_Call] call] by blast
next
  case (Read_Store c cs rc resp todo)
  note o = ok [unfolded Read_Store]
  have c: "c \<in> set (get_chunks r)" and r: "req_ok h r" "all_bufs buf_initialized h (get_chunks r)"
    using o by (auto simp: read_ok_def suffix_Cons_in)
  show ?thesis
  proof (cases "i \<in> set todo")
    case True
    let ?b = "h_buf h (chunk_buffer c)"
    obtain bs where inv: "buf_inv (h_size h) (?b\<lparr>buf_buffer := Some (bs[i := resp ! i])\<rparr>)"
      and s: "read_step d lib r i (Read_Store c cs rc resp todo) h =
        Some (Read_Store c cs rc resp (remove1 i todo),
          set_buf (chunk_buffer c) (?b\<lparr>buf_buffer := Some (bs[i := resp ! i])\<rparr>) h)"
      using step_store [OF o True] by metis
    have "same_layout ?b (?b\<lparr>buf_buffer := Some (bs[i := resp ! i])\<rparr>)"
      "buf_initialized (?b\<lparr>buf_buffer := Some (bs[i := resp ! i])\<rparr>)"
      using r(2) c by (simp_all add: same_layout_def all_bufs_def)
    note k = read_ok_set_buf [OF r c inv this]
    have "length (remove1 i todo) < length todo" using True length_pos_if_in_set [OF True] by (simp add: length_remove1)
    then show ?thesis
      unfolding Read_Store s using k o True
      by (auto simp: read_ok_def loop_steps_set_buf)
  next
    case False
    let ?b = "(h_buf h (chunk_buffer c))\<lparr>buf_state := Buf_Valid\<rparr>"
    have "same_layout (h_buf h (chunk_buffer c)) ?b" "buf_initialized ?b" "buf_inv (h_size h) ?b"
      using r(2) c req_chunk_inv(1) [OF r(1) c] by (simp_all add: all_bufs_def)
    note k = read_ok_set_buf [OF r c this(3,1,2)]
    have todo: "todo = []" using may False Read_Store by simp
    show ?thesis
      unfolding Read_Store using False k r o
      by (auto simp: read_ok_def todo loop_steps_set_buf suffix_Cons_tl) (simp add: loop_steps_def)
  qed
next
  case (Read_Invalid rc cs)
  show ?thesis
  proof (cases cs)
    case Nil
    with Read_Invalid ok show ?thesis by (simp add: read_ok_def)
  next
    case (Cons c cs1)
    have c: "c \<in> set (get_chunks r)" and r: "req_ok h r" "all_bufs buf_initialized h (get_chunks r)"
      using ok Read_Invalid Cons by (auto simp: read_ok_def suffix_Cons_in)
    let ?b = "(h_buf h (chunk_buffer c))\<lparr>buf_state := Buf_Invalid\<rparr>"
    have "same_layout (h_buf h (chunk_buffer c)) ?b" "buf_initialized ?b" "buf_inv (h_size h) ?b"
      using r(2) c req_chunk_inv(1) [OF r(1) c] by (simp_all add: all_bufs_def)
    note k = read_ok_set_buf [OF r c this(3,1,2)]
    show ?thesis using ok Read_Invalid Cons k by (auto simp: read_ok_def suffix_Cons_tl)
  qed
next
  case (Read_Return rc)
  with may show ?thesis by simp
qed

interpretation reader: small_steps read_may "read_step d lib r" "read_ok r" "read_rank r" read_result
  "read_rest d lib r" for d :: ads_def and lib :: "'e ads_lib" and r
proof
  show "\<exists>i. read_may p i" if "read_ok r p h" "read_result p = None" for p and h :: "'e heap"
  proof (cases p)
    case (Read_Store c cs rc resp todo)
    then show ?thesis by (cases todo) (auto intro: exI [of _ "hd todo"])
  qed (use that in auto)
  show "read_rest d lib r p h = Some (x, h)" if "read_result p = Some x" for p x h
    using that by (cases p) auto
  show "read_ok r p' h'" "read_rank r p' h' < read_rank r p h"
    if "read_ok r p h" "read_may p i" "read_step d lib r i p h = Some (p', h')" for p i p' and h h' :: "'e heap"
    using read_step_ok [OF that(1,2), of d lib] that(3) by auto
qed (rule read_rest_step)

section \<open>The operations and their steps\<close>

lemma read_rank_start:
  "read_rank r Read_Start h
    = sum_list (map (\<lambda>c. buf_buffer_size (h_buf h (chunk_buffer c)) + 4) (get_chunks r)) + 3"
proof -
  have "sum_list (map (\<lambda>c. buf_buffer_size (h_buf h (chunk_buffer c)) + 4) cs)
      = sum_list (map (chunk_steps h) cs) + length cs" for cs
    by (induction cs) (simp_all add: chunk_steps_def)
  then show ?thesis by (simp add: loop_steps_def)
qed

text \<open>
  C22. The fine-grained steps of \<open>SumReadRequest::read\<close>, when no other thread interferes, are \<open>read\<close>:
  from the start there is a run to the end, every run has at most as many steps as the buffers have
  bytes plus four per chunk and three, no step of any run is undefined, and every run that comes to the end
  returns what \<open>sum_read\<close> returns and leaves the memory that \<open>sum_read\<close> leaves, for every order in
  which the ADS library stores the bytes of an answer.
\<close>

theorem read_steps_correct:
  assumes "req_ok h r" and "all_bufs buf_initialized h (get_chunks r)"
  shows "(\<exists>n rc h'. steps read_may (read_step d lib r) Read_Start h n (Read_Return rc) h')
    \<and> (\<forall>n p h'. steps read_may (read_step d lib r) Read_Start h n p h' \<longrightarrow>
         n \<le> sum_list (map (\<lambda>c. buf_buffer_size (h_buf h (chunk_buffer c)) + 4) (get_chunks r)) + 3
         \<and> (\<forall>i. read_may p i \<longrightarrow> read_step d lib r i p h' \<noteq> None)
         \<and> (\<forall>rc. p = Read_Return rc \<longrightarrow> sum_read d lib h r = Some (rc, h')))"
proof -
  have ok: "read_ok r Read_Start h" using assms by (simp add: read_ok_def)
  note rank = read_rank_start [of r h]
  have "read_rest d lib r Read_Start h \<noteq> None"
    using reader.rest_defined [OF _ ok, of d lib] read_step_ok by fastforce
  then obtain n p' h' rc where "steps read_may (read_step d lib r) Read_Start h n p' h'" "read_result p' = Some rc"
    using reader.steps_complete [OF _ ok] by blast
  then have ex: "\<exists>n rc h'. steps read_may (read_step d lib r) Read_Start h n (Read_Return rc) h'"
    by (cases p') auto
  show ?thesis
  proof (intro conjI allI impI ex)
    fix n p h' assume run: "steps read_may (read_step d lib r) Read_Start h n p h'"
    have every: "read_ok r p h'" "n \<le> read_rank r Read_Start h"
      using reader.steps_keep [OF run ok] by simp_all
    show "n \<le> sum_list (map (\<lambda>c. buf_buffer_size (h_buf h (chunk_buffer c)) + 4) (get_chunks r)) + 3"
      using every(2) rank by simp
    show "read_step d lib r i p h' \<noteq> None" if "read_may p i" for i
      using read_step_ok [OF every(1) that, of d lib] by auto
    show "sum_read d lib h r = Some (rc, h')" if "p = Read_Return rc" for rc
      using reader.steps_result [OF run ok, of rc] that by simp
  qed
qed

theorem read_steps_correct_witness:
  "\<exists>h r n rc h'. set (req_variables r) = {3, 4}
     \<and> steps read_may (read_step ads_def_documented sevens_lib r) Read_Start h n (Read_Return rc) h'
     \<and> sum_read ads_def_documented sevens_lib h r = Some (rc, h')"
proof -
  obtain h r where e: "example_initialized example_resolved h r"
    using example_initialized_exists [OF example_resolved_ok] by blast
  note ok = example_initialized_ok [OF e example_resolved_ok]
  note * = read_steps_correct [OF ok(1,3), of ads_def_documented sevens_lib]
  obtain n rc h' where "steps read_may (read_step ads_def_documented sevens_lib r) Read_Start h n (Read_Return rc) h'"
    using * by blast
  moreover from this have "sum_read ads_def_documented sevens_lib h r = Some (rc, h')" using * by blast
  ultimately show ?thesis using e unfolding example_initialized_def by blast
qed

text \<open>A handler alone comes to the end with the result of \<open>read_from_buffer\<close>.\<close>

lemma hand_run:
  assumes "read_from_buffer d vid n (Some dst) h = Some (rc, Some out, h')"
  shows "\<exists>k. steps hand_may (hand_step d) (Hand_Start vid n dst) h k (Hand_Return vid n rc out) h'"
proof -
  let ?p = "Hand_Start vid n dst"
  have rest: "hand_rest d ?p h = Some ((rc, out), h')" using assms by simp
  then obtain k p' h1 x where run: "steps hand_may (hand_step d) ?p h k p' h1" "hand_result p' = Some x"
    using hand.steps_complete [of d ?p h] by auto
  have "hand_rest d ?p h = Some (x, h1)" by (rule hand.steps_result [OF run(1) _ run(2)]) simp
  with rest have "x = (rc, out)" "h1 = h'" by (simp_all del: hand_rest.simps)
  moreover have "hand_call p' = Some (vid, n)" using hand_steps_call [OF run(1)] by simp
  ultimately show ?thesis using run by (cases p') auto
qed

text \<open>
  C23. The fine-grained steps of \<open>read_from_buffer\<close>, when no other thread interferes, are
  \<open>read_from_buffer\<close>: a run from the start has at most five steps more than bytes are copied; every
  run that comes to the end returns the code and leaves the memory that \<open>read_from_buffer\<close> returns and
  leaves, for every order in which \<open>memcpy\<close> copies; and there is such a run, none of whose steps is
  undefined, precisely when \<open>read_from_buffer\<close> has no undefined behaviour.
\<close>

theorem read_from_buffer_steps_correct:
  "(read_from_buffer d vid n (Some dst) h \<noteq> None \<longleftrightarrow>
      (\<exists>k rc out h'. steps hand_may (hand_step d) (Hand_Start vid n dst) h k (Hand_Return vid n rc out) h'))
   \<and> (\<forall>k p h'. steps hand_may (hand_step d) (Hand_Start vid n dst) h k p h' \<longrightarrow>
        k \<le> min n (h_size h vid) + 5
        \<and> (read_from_buffer d vid n (Some dst) h \<noteq> None \<longrightarrow> (\<forall>i. hand_may p i \<longrightarrow> hand_step d i p h' \<noteq> None))
        \<and> (\<forall>rc out. p = Hand_Return vid n rc out \<longrightarrow>
              read_from_buffer d vid n (Some dst) h = Some (rc, Some out, h')))"
proof -
  let ?p = "Hand_Start vid n dst"
  have rest: "hand_rest d ?p h = Some ((rc, out), h') \<longleftrightarrow> read_from_buffer d vid n (Some dst) h = Some (rc, Some out, h')"
    for rc out h'
    using read_from_buffer_outs [of d vid n dst h] by (cases "read_from_buffer d vid n (Some dst) h") auto
  have def: "hand_rest d ?p h \<noteq> None \<longleftrightarrow> read_from_buffer d vid n (Some dst) h \<noteq> None" by auto
  have result: "read_from_buffer d vid n (Some dst) h = Some (rc, Some out, h')"
    if "steps hand_may (hand_step d) ?p h k (Hand_Return vid' n' rc out) h'" for k vid' n' rc out h'
    using hand.steps_result [OF that, of "(rc, out)"] rest by simp
  have keep: "p \<noteq> Hand_Idle \<and> hand_rest d p h' = hand_rest d ?p h \<and> k + hand_rank p h' \<le> hand_rank ?p h"
    if "steps hand_may (hand_step d) ?p h k p h'" for k p h'
    using hand.steps_keep [OF that] by simp
  show ?thesis
  proof (intro conjI allI impI)
    show "read_from_buffer d vid n (Some dst) h \<noteq> None \<longleftrightarrow>
      (\<exists>k rc out h'. steps hand_may (hand_step d) ?p h k (Hand_Return vid n rc out) h')"
    proof
      assume "read_from_buffer d vid n (Some dst) h \<noteq> None"
      then obtain rc out h' where "read_from_buffer d vid n (Some dst) h = Some (rc, Some out, h')"
        using read_from_buffer_outs by fastforce
      from hand_run [OF this] show "\<exists>k rc out h'. steps hand_may (hand_step d) ?p h k (Hand_Return vid n rc out) h'"
        by blast
    qed (use result in fastforce)
  next
    fix k p h' assume run: "steps hand_may (hand_step d) ?p h k p h'"
    show "k \<le> min n (h_size h vid) + 5" using keep [OF run] by simp
    show "hand_step d i p h' \<noteq> None" if "read_from_buffer d vid n (Some dst) h \<noteq> None" "hand_may p i" for i
      using hand.defined_step [of d p h' i] keep [OF run] def that by simp
    show "read_from_buffer d vid n (Some dst) h = Some (rc, Some out, h')" if "p = Hand_Return vid n rc out" for rc out
      using run that result by simp
  qed
qed

theorem read_from_buffer_steps_correct_witness:
  "\<exists>h r k out h'. set (req_variables r) = {3, 4} \<and> k \<le> (15 :: nat)
     \<and> steps hand_may (hand_step ads_def_documented) (Hand_Start 3 10 (replicate 10 0)) (h :: nat heap) k
         (Hand_Return 3 10 0 out) h'
     \<and> read_from_buffer ads_def_documented 3 10 (Some (replicate 10 0)) h = Some (0, Some out, h')
     \<and> out = replicate 10 7"
proof -
  obtain h :: "nat heap" and r where e: "example_read example_resolved h r"
    using example_read_exists [OF example_resolved_ok] by blast
  have three: "3 \<in> set (req_variables r)" and size: "h_size h 3 = 10" and ok: "req_ok h r" "all_bufs buf_initialized h (get_chunks r)"
    and np: "\<not> readback_pending h 3" and v: "data_valid h 3" "slot_code h 3 = 0" "slot_data h 3 10 = replicate 10 7"
    using e like_example(2,4) [of h 3 example_resolved]
    by (auto simp: example_read_def example_resolved_def var_size_def resolve_def example_address_def
        example_variable_def readback_pending_def)
  have read: "read_from_buffer ads_def_documented 3 10 (Some (replicate 10 0)) h = Some (0, Some (replicate 10 7), h)"
    using read_from_buffer_eq(1) [OF ok three, of 10 "replicate 10 0"] size np v by (simp add: Let_def)
  note * = read_from_buffer_steps_correct [of ads_def_documented 3 10 "replicate 10 0" h]
  obtain k rc out h' where run: "steps hand_may (hand_step ads_def_documented) (Hand_Start 3 10 (replicate 10 0)) h k
      (Hand_Return 3 10 rc out) h'"
    using * read by blast
  then have "k \<le> min 10 (h_size h 3) + 5" "read_from_buffer ads_def_documented 3 10 (Some (replicate 10 0)) h = Some (rc, Some out, h')"
    using * by blast+
  with run read size three show ?thesis using e unfolding example_read_def by fastforce
qed

end
