(* ===== verification/Handlers.thy ===== *)
theory Handlers
  imports Variable_Props
begin

text \<open>
  The read and write handlers of \<open>ADSPortDriver.cpp\<close> and the table in which its constructor
  registers them. The templates are functions of the C++ types (\<open>ctype\<close>); floating-point values
  are their bit patterns, and the conversions between the two floating-point types are parameters.
  A local variable without initialiser is a parameter (\<open>garbage\<close>), and so is the value that a
  \<open>Result\<close> of the autoparam library (a submodule) has before it is set (\<open>unset\<close>).
\<close>

datatype asyn_status = asynSuccess | asynError | asyn_rc int

text \<open>\<open>static_cast<asynStatus>(rc)\<close>: only 0 is success.\<close>

definition asyn_of_rc :: "int \<Rightarrow> asyn_status" where
  "asyn_of_rc rc = (if rc = 0 then asynSuccess else asyn_rc rc)"

section \<open>Reading\<close>

text \<open>
  What all read handlers begin with. A variable without connection is a null pointer that is
  dereferenced.
\<close>

definition not_readable :: "nat \<Rightarrow> 'e heap \<Rightarrow> bool option" where
  "not_readable vid h =
     (let v = h_vars h vid in
      if addr_operation (var_addr v) = Write \<and> \<not> var_write_readback v then Some True
      else if \<not> var_conn v then None
      else Some (\<not> is_connected h))"

text \<open>
  Reading into memory \<open>dst\<close> with the given size: \<open>None\<close> in the result stands for a handler that
  returns \<open>asynError\<close>, \<open>Some\<close> has the memory afterwards.
\<close>

definition handler_read ::
  "ads_def \<Rightarrow> nat \<Rightarrow> nat \<Rightarrow> byte list \<Rightarrow> 'e heap \<Rightarrow> (byte list option \<times> 'e heap) option" where
  "handler_read d vid size_arg dst h =
     Option.bind (not_readable vid h) (\<lambda>no.
       if no then Some (None, h)
       else
         Option.bind (read_from_buffer d vid size_arg (Some dst) h) (\<lambda>(status, out, h1).
           if status \<noteq> 0 then Some (None, h1) else Some (out, h1)))"

definition integerRead ::
  "ads_def \<Rightarrow> ctype \<Rightarrow> ctype \<Rightarrow> byte list \<Rightarrow> int \<Rightarrow> nat \<Rightarrow> 'e heap
     \<Rightarrow> (asyn_status \<times> int \<times> 'e heap) option" where
  "integerRead d plc epics garbage unset vid h =
     Option.bind (handler_read d vid (ctype_size plc) garbage h) (\<lambda>(val, h1).
       case val of
         None \<Rightarrow> Some (asynError, unset, h1)
       | Some bytes \<Rightarrow> Some (asynSuccess, ctype_convert epics (ctype_decode plc bytes), h1))"

definition digitalRead ::
  "ads_def \<Rightarrow> ctype \<Rightarrow> byte list \<Rightarrow> 32 word \<Rightarrow> 32 word \<Rightarrow> nat \<Rightarrow> 'e heap
     \<Rightarrow> (asyn_status \<times> 32 word \<times> 'e heap) option" where
  "digitalRead d plc garbage unset bit_mask vid h =
     Option.bind (handler_read d vid (ctype_size plc) garbage h) (\<lambda>(val, h1).
       case val of
         None \<Rightarrow> Some (asynError, unset, h1)
       | Some bytes \<Rightarrow> Some (asynSuccess, Bit_Operations.and (word_of_int (ctype_decode plc bytes)) bit_mask, h1))"

definition floatRead ::
  "ads_def \<Rightarrow> (ctype \<Rightarrow> int \<Rightarrow> int) \<Rightarrow> ctype \<Rightarrow> byte list \<Rightarrow> int \<Rightarrow> nat \<Rightarrow> 'e heap
     \<Rightarrow> (asyn_status \<times> int \<times> 'e heap) option" where
  "floatRead d to_double plc garbage unset vid h =
     Option.bind (handler_read d vid (ctype_size plc) garbage h) (\<lambda>(val, h1).
       case val of
         None \<Rightarrow> Some (asynError, unset, h1)
       | Some bytes \<Rightarrow> Some (asynSuccess, to_double plc (ctype_decode plc bytes), h1))"

text \<open>
  The memory of the array and its capacity in elements are the caller's. \<open>bytesToRead\<close> is a
  \<open>size_t\<close> that is passed as \<open>uint32_t\<close>.
\<close>

definition arrayRead ::
  "ads_def \<Rightarrow> ctype \<Rightarrow> byte list \<Rightarrow> nat \<Rightarrow> nat \<Rightarrow> 'e heap \<Rightarrow> (asyn_status \<times> byte list \<times> 'e heap) option" where
  "arrayRead d plc val_data val_max_size vid h =
     Option.bind (not_readable vid h) (\<lambda>no.
       if no then Some (asynError, val_data, h)
       else
         let nelem = addr_nelem (h_addr h vid); bytesToRead = u64 (ctype_size plc * nelem) in
         if val_max_size < nelem then Some (asynError, val_data, h)
         else
           Option.bind (read_from_buffer d vid (u32 bytesToRead) (Some val_data) h) (\<lambda>(status, out, h1).
             Some (if status \<noteq> 0 then asynError else asynSuccess, the out, h1)))"

text \<open>The bytes with which \<open>val\<close> is filled (\<open>fillFrom\<close>), if any.\<close>

definition stringRead ::
  "ads_def \<Rightarrow> nat \<Rightarrow> 'e heap \<Rightarrow> (asyn_status \<times> byte list option \<times> 'e heap) option" where
  "stringRead d vid h =
     (let bytesToRead = addr_nelem (h_addr h vid) in
      Option.bind (handler_read d vid bytesToRead (replicate bytesToRead 0) h) (\<lambda>(val, h1).
        case val of
          None \<Rightarrow> Some (asynError, None, h1)
        | Some bytes \<Rightarrow> Some (asynSuccess, Some bytes, h1)))"

section \<open>Writing\<close>

definition handler_write ::
  "ads_def \<Rightarrow> 'e ads_lib \<Rightarrow> nat \<Rightarrow> byte list \<Rightarrow> nat \<Rightarrow> 'e heap \<Rightarrow> (asyn_status \<times> 'e heap) option" where
  "handler_write d lib vid src size_arg h =
     Option.bind (var_write d lib vid (Some src) size_arg h) (\<lambda>(status, h1).
       Some (if status \<noteq> 0 then asynError else asynSuccess, h1))"

text \<open>The address of the parameter \<open>val\<close> of type \<open>epics\<close> is handed over, with the size of \<open>plc\<close>.\<close>

definition integerWrite ::
  "ads_def \<Rightarrow> 'e ads_lib \<Rightarrow> ctype \<Rightarrow> ctype \<Rightarrow> nat \<Rightarrow> int \<Rightarrow> 'e heap \<Rightarrow> (asyn_status \<times> 'e heap) option" where
  "integerWrite d lib plc epics vid val h =
     handler_write d lib vid (ctype_encode epics val) (ctype_size plc) h"

definition floatWrite ::
  "ads_def \<Rightarrow> 'e ads_lib \<Rightarrow> (ctype \<Rightarrow> int \<Rightarrow> int) \<Rightarrow> ctype \<Rightarrow> nat \<Rightarrow> int \<Rightarrow> 'e heap
     \<Rightarrow> (asyn_status \<times> 'e heap) option" where
  "floatWrite d lib from_double plc vid val h =
     handler_write d lib vid (ctype_encode plc (from_double plc val)) (ctype_size plc) h"

definition digitalWrite ::
  "ads_def \<Rightarrow> 'e ads_lib \<Rightarrow> ctype \<Rightarrow> byte list \<Rightarrow> 32 word \<Rightarrow> nat \<Rightarrow> 32 word \<Rightarrow> 32 word \<Rightarrow> 'e heap
     \<Rightarrow> (asyn_status \<times> 'e heap) option" where
  "digitalWrite d lib plc garbage unset vid val bit_mask h =
     Option.bind
       (if bit_mask \<noteq> 0xFFFFFFFF then
          Option.bind (digitalRead d plc garbage unset 0xFFFFFFFF vid h) (\<lambda>(_, currentRead, h1).
            Some (Bit_Operations.and (Bit_Operations.or currentRead (Bit_Operations.and val bit_mask))
                    (Bit_Operations.or val (Bit_Operations.not bit_mask)), h1))
        else Some (val, h))
       (\<lambda>(valueToWrite, h1).
          handler_write d lib vid (ctype_encode plc (uint valueToWrite)) (ctype_size plc) h1)"

definition arrayWrite ::
  "ads_def \<Rightarrow> 'e ads_lib \<Rightarrow> ctype \<Rightarrow> nat \<Rightarrow> byte list \<Rightarrow> 'e heap \<Rightarrow> (asyn_status \<times> 'e heap) option" where
  "arrayWrite d lib plc vid val_data h =
     handler_write d lib vid val_data (u32 (u64 (ctype_size plc * addr_nelem (h_addr h vid)))) h"

definition stringWrite ::
  "ads_def \<Rightarrow> 'e ads_lib \<Rightarrow> nat \<Rightarrow> byte list \<Rightarrow> 'e heap \<Rightarrow> (asyn_status \<times> 'e heap) option" where
  "stringWrite d lib vid val_data h = handler_write d lib vid val_data (addr_nelem (h_addr h vid)) h"

section \<open>The registered handlers\<close>

text \<open>
  The instances of the templates that are registered for a function: PLC type and EPICS type of the
  reading and of the writing handler.
\<close>

datatype handler =
    Integer_handler ctype ctype | Digital_handler ctype | Float_handler ctype
  | Array_handler ctype ctype | String_handler

definition type_str :: "ADSDataType \<Rightarrow> string" where
  "type_str t = sm_get [] ads_datatypes_str t"

definition handlers :: "(string \<times> handler) list" where
  "handlers =
    [(type_str T_BOOL, Integer_handler I8 I32), (type_str T_SINT, Integer_handler I8 I32),
     (type_str T_BYTE, Integer_handler I8 I32), (type_str T_USINT, Integer_handler U8 I32),
     (type_str T_INT, Integer_handler I16 I32), (type_str T_WORD, Integer_handler U16 I32),
     (type_str T_UINT, Integer_handler U16 I32), (type_str T_DINT, Integer_handler I32 I32),
     (type_str T_DWORD, Integer_handler U32 I64), (type_str T_UDINT, Integer_handler U32 I64),
     (type_str T_LINT, Integer_handler I64 I64),
     (type_str T_REAL, Float_handler F32), (type_str T_LREAL, Float_handler F64),
     (type_str T_BOOL @ ''_digi'', Digital_handler U8), (type_str T_BYTE @ ''_digi'', Digital_handler U8),
     (type_str T_USINT @ ''_digi'', Digital_handler U8), (type_str T_WORD @ ''_digi'', Digital_handler U16),
     (type_str T_UINT @ ''_digi'', Digital_handler U16), (type_str T_DWORD @ ''_digi'', Digital_handler U32),
     (type_str T_UDINT @ ''_digi'', Digital_handler U32),
     (type_str T_BOOL @ ''[]'', Array_handler I8 I8), (type_str T_SINT @ ''[]'', Array_handler I8 I8),
     (type_str T_BYTE @ ''[]'', Array_handler I8 I8), (type_str T_USINT @ ''[]'', Array_handler U8 I8),
     (type_str T_INT @ ''[]'', Array_handler I16 I16), (type_str T_WORD @ ''[]'', Array_handler I16 I16),
     (type_str T_UINT @ ''[]'', Array_handler U16 I16), (type_str T_DINT @ ''[]'', Array_handler I32 I32),
     (type_str T_UDINT @ ''[]'', Array_handler U32 I32), (type_str T_LINT @ ''[]'', Array_handler I64 I64),
     (type_str T_REAL @ ''[]'', Array_handler F32 F32), (type_str T_LREAL @ ''[]'', Array_handler F64 F64),
     (type_str T_STRING, String_handler)]"

text \<open>The size of the PLC type that a handler reads and writes.\<close>

fun handler_size :: "handler \<Rightarrow> nat" where
  "handler_size (Integer_handler plc epics) = ctype_size plc"
| "handler_size (Digital_handler plc) = ctype_size plc"
| "handler_size (Float_handler plc) = ctype_size plc"
| "handler_size (Array_handler plc epics) = ctype_size plc"
| "handler_size String_handler = 1"

section \<open>The dispatch of \<open>performIOIntr\<close>\<close>

text \<open>
  \<open>performIOIntr\<close> does not use the registered handlers but chooses again, by the name of the
  function and the data type; \<open>None\<close> is the default branch that does nothing.
\<close>

definition io_intr_array :: "ADSDataType \<Rightarrow> handler option" where
  "io_intr_array t =
     (if t \<in> {T_BOOL, T_BYTE, T_SINT} then Some (Array_handler I8 I8)
      else if t = T_INT then Some (Array_handler I16 I16)
      else if t = T_DINT then Some (Array_handler I32 I32)
      else if t = T_LINT then Some (Array_handler I64 I64)
      else if t = T_REAL then Some (Array_handler F32 F32)
      else if t = T_LREAL then Some (Array_handler F64 F64)
      else if t = T_USINT then Some (Array_handler U8 I8)
      else if t \<in> {T_WORD, T_UINT} then Some (Array_handler U16 I16)
      else if t \<in> {T_DWORD, T_UDINT} then Some (Array_handler U32 I32)
      else if t = T_STRING then Some String_handler
      else None)"

definition io_intr_digital :: "ADSDataType \<Rightarrow> handler option" where
  "io_intr_digital t =
     (if t \<in> {T_BOOL, T_BYTE, T_USINT} then Some (Digital_handler U8)
      else if t \<in> {T_WORD, T_UINT} then Some (Digital_handler U16)
      else if t \<in> {T_DWORD, T_UDINT} then Some (Digital_handler U32)
      else None)"

definition io_intr_scalar :: "ADSDataType \<Rightarrow> handler option" where
  "io_intr_scalar t =
     (if t \<in> {T_BOOL, T_BYTE, T_SINT} then Some (Integer_handler I8 I32)
      else if t = T_INT then Some (Integer_handler I16 I32)
      else if t = T_DINT then Some (Integer_handler I32 I32)
      else if t = T_LINT then Some (Integer_handler I64 I64)
      else if t = T_REAL then Some (Float_handler F32)
      else if t = T_LREAL then Some (Float_handler F64)
      else if t = T_USINT then Some (Integer_handler U8 I32)
      else if t \<in> {T_WORD, T_UINT} then Some (Integer_handler U16 I32)
      else if t \<in> {T_DWORD, T_UDINT} then Some (Integer_handler U64 I64)
      else None)"

definition io_intr_handler :: "string \<Rightarrow> ADSDataType \<Rightarrow> handler option" where
  "io_intr_handler func t =
     (if contains func ''[]'' \<or> contains func ''STRING'' then io_intr_array t
      else if contains func ''_digi'' then io_intr_digital t
      else io_intr_scalar t)"

text \<open>
  What is handed to autoparam: \<open>setParam\<close> or \<open>doCallbacksArray\<close> for a variable, and
  \<open>callParamCallbacks\<close> for all parameters that were set.
\<close>

datatype io_event =
    Set_int nat asyn_status int
  | Set_digital nat asyn_status "32 word"
  | Set_float nat asyn_status int
  | Set_octet nat asyn_status "byte list option"
  | Array_callbacks nat asyn_status "byte list"
  | Param_callbacks

text \<open>
  \<open>performArrayCallbacks\<close>: a fresh buffer of \<open>nelem\<close> zeroed elements; callbacks only if the hash of
  its contents differs from the hash of the last time.
\<close>

definition performArrayCallbacks ::
  "ads_def \<Rightarrow> (byte list \<Rightarrow> int) \<Rightarrow> ctype \<Rightarrow> ctype \<Rightarrow> nat \<Rightarrow> nat \<Rightarrow> 'e heap \<Rightarrow> (io_event list \<times> 'e heap) option" where
  "performArrayCallbacks d epicsMemHash plc epics vid nelem h =
     Option.bind (arrayRead d plc (replicate (nelem * ctype_size epics) 0) nelem vid h)
       (\<lambda>(status, readArray, h1).
          case updateDataHash (epicsMemHash readArray) (h_vars h1 vid) of (changed, v') \<Rightarrow>
            Some (if changed then [Array_callbacks vid status readArray] else [], upd_var vid (\<lambda>_. v') h1))"

text \<open>
  One variable of the loop; \<open>garbage\<close> is what the uninitialised local variable of a read handler
  contains, \<open>unset_int\<close> and \<open>unset_word\<close> are values of a \<open>Result\<close> that was not set.
\<close>

record io_env =
  io_hash :: "byte list \<Rightarrow> int"
  io_to_double :: "ctype \<Rightarrow> int \<Rightarrow> int"
  io_garbage :: "nat \<Rightarrow> byte list"        \<comment> \<open>of the given size\<close>
  io_unset_int :: int
  io_unset_word :: "32 word"

definition io_intr_var ::
  "ads_def \<Rightarrow> io_env \<Rightarrow> nat \<Rightarrow> string \<Rightarrow> 'e heap \<Rightarrow> (io_event list \<times> 'e heap) option" where
  "io_intr_var d env vid func h =
     (case io_intr_handler func (addr_data_type (h_addr h vid)) of
        None \<Rightarrow> Some ([], h)
      | Some (Integer_handler plc epics) \<Rightarrow>
          map_option (\<lambda>(st, x, h1). ([Set_int vid st x], h1))
            (integerRead d plc epics (io_garbage env (ctype_size plc)) (io_unset_int env) vid h)
      | Some (Digital_handler plc) \<Rightarrow>
          map_option (\<lambda>(st, x, h1). ([Set_digital vid st x], h1))
            (digitalRead d plc (io_garbage env (ctype_size plc)) (io_unset_word env) 0xFFFF vid h)
      | Some (Float_handler plc) \<Rightarrow>
          map_option (\<lambda>(st, x, h1). ([Set_float vid st x], h1))
            (floatRead d (io_to_double env) plc (io_garbage env (ctype_size plc)) (io_unset_int env) vid h)
      | Some (Array_handler plc epics) \<Rightarrow>
          performArrayCallbacks d (io_hash env) plc epics vid (addr_nelem (h_addr h vid)) h
      | Some String_handler \<Rightarrow>
          map_option (\<lambda>(st, x, h1). ([Set_octet vid st x], h1)) (stringRead d vid h))"

text \<open>The loop over the variables with interrupt records (number and function).\<close>

fun io_intr_loop ::
  "ads_def \<Rightarrow> io_env \<Rightarrow> (nat \<times> string) list \<Rightarrow> 'e heap \<Rightarrow> (io_event list \<times> 'e heap) option" where
  "io_intr_loop d env [] h = Some ([], h)"
| "io_intr_loop d env ((vid, func) # vars) h =
     Option.bind (io_intr_var d env vid func h) (\<lambda>(ev, h1).
     Option.bind (io_intr_loop d env vars h1) (\<lambda>(evs, h2). Some (ev @ evs, h2)))"

definition performIOIntr ::
  "ads_def \<Rightarrow> io_env \<Rightarrow> (nat \<times> string) list \<Rightarrow> 'e heap \<Rightarrow> (io_event list \<times> 'e heap) option" where
  "performIOIntr d env vars h = map_option (\<lambda>(evs, h1). (evs @ [Param_callbacks], h1)) (io_intr_loop d env vars h)"

end
