(* ===== verification/Handler_Props.thy ===== *)
theory Handler_Props
  imports Handlers
begin

text \<open>
  What the handlers guarantee: they fit the types the address parser accepts, integers and digital
  values survive the way to the ADS device and back, and the I/O interrupt loop is memory safe;
  and where the dispatch of that loop departs from the registered handlers.
\<close>

section \<open>The table of handlers\<close>

lemma data_type_autoparam_known:
  "(func, hdl) \<in> set handlers \<Longrightarrow> \<exists>t. parse_data_type_autoparam func = Inr t
     \<and> sm_find ads_datatype_sizes t = Some (handler_size hdl)"
  by (simp only: handlers_def list.set insert_iff empty_iff prod.inject)
    (elim disjE; simp add: parse_data_type_autoparam_def type_str_def sm_get_def ads_datatypes_str_def
      str_find_def npos_def ads_datatype_sizes_def)

text \<open>
  C34. The handlers fit the types: the name of every function for which handlers are registered
  is accepted by the address parser, and the PLC type that its handlers read and write has exactly
  the size that the data type of the parsed name has in \<open>ads_datatype_sizes\<close>. No function is
  registered twice.
\<close>

theorem handlers_fit_types:
  "distinct (map fst handlers) \<and>
   list_all (\<lambda>(func, hdl). case parse_data_type_autoparam func of
       Inl e \<Rightarrow> False | Inr t \<Rightarrow> sm_find ads_datatype_sizes t = Some (handler_size hdl)) handlers"
proof
  show "distinct (map fst handlers)"
    by (simp add: handlers_def type_str_def sm_get_def ads_datatypes_str_def)
  show "list_all (\<lambda>(func, hdl). case parse_data_type_autoparam func of
       Inl e \<Rightarrow> False | Inr t \<Rightarrow> sm_find ads_datatype_sizes t = Some (handler_size hdl)) handlers"
    using data_type_autoparam_known by (fastforce simp: list_all_iff)
qed

text \<open>
  Two handlers deliver the same if they are the same template and read the same number of bytes as
  a value of the same sign; for arrays, whose bytes are handed on as they are, the size suffices.
\<close>

fun same_delivery :: "handler \<Rightarrow> handler \<Rightarrow> bool" where
  "same_delivery (Integer_handler p e) (Integer_handler p' e') \<longleftrightarrow> p = p' \<and> e = e'"
| "same_delivery (Digital_handler p) (Digital_handler p') \<longleftrightarrow> p = p'"
| "same_delivery (Float_handler p) (Float_handler p') \<longleftrightarrow> p = p'"
| "same_delivery (Array_handler p e) (Array_handler p' e') \<longleftrightarrow>
     ctype_size p = ctype_size p' \<and> ctype_size e = ctype_size e'"
| "same_delivery String_handler String_handler \<longleftrightarrow> True"
| "same_delivery _ _ \<longleftrightarrow> False"

lemma contains_dword:
  "\<not> contains ''DWORD'' ''[]''" "\<not> contains ''DWORD'' ''STRING''" "\<not> contains ''DWORD'' ''_digi''"
  "\<not> contains ''UDINT'' ''[]''" "\<not> contains ''UDINT'' ''STRING''" "\<not> contains ''UDINT'' ''_digi''"
  by (simp_all add: contains_def str_find_def npos_def)

text \<open>
  The second dispatch agrees with the first but for two functions: for every function with
  registered handlers, the branch that \<open>performIOIntr\<close> chooses for it reads and delivers the same
  as the registered read handler, except for the scalar functions \<open>DWORD\<close> and \<open>UDINT\<close>, which it
  reads as an 8-byte integer although the variable and the registered handler have 4 bytes.
\<close>

theorem io_intr_dispatch:
  "list_all (\<lambda>(func, hdl). case parse_data_type_autoparam func of
       Inl e \<Rightarrow> False
     | Inr t \<Rightarrow> (case io_intr_handler func t of
          None \<Rightarrow> False
        | Some hdl' \<Rightarrow>
            if func = ''DWORD'' \<or> func = ''UDINT''
            then hdl = Integer_handler U32 I64 \<and> hdl' = Integer_handler U64 I64
            else same_delivery hdl hdl')) handlers"
  by (simp add: handlers_def parse_data_type_autoparam_def type_str_def sm_get_def ads_datatypes_str_def
      str_find_def npos_def contains_def io_intr_handler_def io_intr_array_def io_intr_digital_def io_intr_scalar_def)

section \<open>Reading an allowed variable\<close>

text \<open>A variable that its record may read: connected, and a read variable or one with read-back.\<close>

definition readable :: "'e heap \<Rightarrow> nat \<Rightarrow> bool" where
  "readable h vid \<longleftrightarrow> var_conn (h_vars h vid) \<and> is_connected h
     \<and> (addr_operation (h_addr h vid) = Read \<or> var_write_readback (h_vars h vid))"

lemma not_readable_eq:
  "var_conn (h_vars h vid) \<Longrightarrow> not_readable vid h = Some (\<not> readable h vid)"
  by (cases "addr_operation (h_addr h vid)") (auto simp: not_readable_def readable_def h_addr_def Let_def)

lemma handler_read_eq:
  assumes "var_conn (h_vars h vid)"
  shows "handler_read d vid n dst h =
    (if \<not> readable h vid then Some (None, h)
     else Option.bind (read_from_buffer d vid n (Some dst) h)
       (\<lambda>(status, out, h1). if status \<noteq> 0 then Some (None, h1) else Some (out, h1)))"
  using not_readable_eq [OF assms] by (simp add: handler_read_def)

text \<open>
  For concrete instances: a scalar variable of \<open>n\<close> bytes in a request that has just been read.
\<close>

definition scalar_var :: "ADSDataType \<Rightarrow> nat \<Rightarrow> operation \<Rightarrow> bool \<Rightarrow> ads_variable" where
  "scalar_var t n opn readback = example_resolved\<lparr>var_elem_size := n, var_write_readback := readback,
     var_addr := (var_addr example_resolved)\<lparr>addr_data_type := t, addr_operation := opn, addr_nelem := 1\<rparr>\<rparr>"

lemma scalar_var_simps [simp]:
  "var_addr (scalar_var t n opn readback) =
     (var_addr example_resolved)\<lparr>addr_data_type := t, addr_operation := opn, addr_nelem := 1\<rparr>"
  "var_write_readback (scalar_var t n opn readback) = readback" "var_conn (scalar_var t n opn readback)"
  "var_last_written (scalar_var t n opn readback) = []" "addr_name_is_resolved (var_addr example_resolved)"
  by (simp_all add: scalar_var_def example_resolved_def example_variable_def resolve_def example_address_def)

lemma scalar_var_size [simp]: "n \<le> 8 \<Longrightarrow> var_size (scalar_var t n opn readback) = n"
  by (simp add: scalar_var_def var_size_def)

lemma scalar_var_ok: "n \<le> 8 \<Longrightarrow> example_var_ok (scalar_var t n opn readback)"
  using example_resolved_ok unfolding example_var_ok_def
  by (simp add: scalar_var_def example_resolved_def example_variable_def var_size_def)

lemma scalar_read:
  assumes "n \<le> 8" and "opn = Read \<or> readback"
  obtains h r where "req_ok (h :: nat heap) r" and "all_bufs buf_initialized h (get_chunks r)"
    and "3 \<in> set (req_variables r)" and "readable h 3" and "data_valid h 3" and "slot_code h 3 = 0"
    and "slot_data h 3 n = replicate n 7" and "h_size h 3 = n" and "addr_data_type (h_addr h 3) = t"
    and "addr_operation (h_addr h 3) = opn" and "addr_nelem (h_addr h 3) = 1"
    and "addr_name_is_resolved (h_addr h 3)" and "var_write_readback (h_vars h 3) = readback"
    and "var_last_written (h_vars h 3) = []" and "var_conn (h_vars h 3)"
proof -
  let ?v0 = "scalar_var t n opn readback"
  obtain h r where e: "example_read ?v0 h r" using example_read_exists [OF scalar_var_ok [OF assms(1)]] by blast
  note l = like_example [of h 3 ?v0]
  show ?thesis
    using e l assms scalar_var_size [OF assms(1), of t opn readback]
    by (intro that [of h r]) (auto simp: example_read_def readable_def)
qed

text \<open>
  The dispatch of \<open>DWORD\<close> and \<open>UDINT\<close> shows: for such a variable, whose data in the buffer are
  valid, the value that \<open>performIOIntr\<close> hands on consists of the 4 bytes of the variable and, as its
  upper half, of whatever the uninitialised local variable contained.
\<close>

theorem io_intr_dword_garbage:
  assumes "req_ok h r" and "all_bufs buf_initialized h (get_chunks r)" and "vid \<in> set (req_variables r)"
    and "readable h vid" and "data_valid h vid" and "slot_code h vid = 0" and "\<not> readback_pending h vid"
    and "h_size h vid = 4" and "func = ''DWORD'' \<or> func = ''UDINT''"
    and "addr_data_type (h_addr h vid) \<in> {T_DWORD, T_UDINT}"
    and "io_garbage env 8 = low @ upper" and "length low = 4" and "length upper = 4"
  shows "io_intr_var d env vid func h =
    Some ([Set_int vid asynSuccess (ctype_convert I64 (ctype_decode U64 (slot_data h vid 4 @ upper)))], h)"
proof -
  have hd: "io_intr_handler func (addr_data_type (h_addr h vid)) = Some (Integer_handler U64 I64)"
    using assms(9,10) by (auto simp: io_intr_handler_def io_intr_scalar_def contains_dword)
  have conn: "var_conn (h_vars h vid)" using assms(4) by (simp add: readable_def)
  have n: "8 \<le> length (low @ upper)" using assms(12,13) by simp
  have "handler_read d vid 8 (low @ upper) h = Some (Some (slot_data h vid 4 @ upper), h)"
  proof -
    have "read_from_buffer d vid 8 (Some (low @ upper)) h = Some (0, Some (slot_data h vid 4 @ upper), h)"
      unfolding read_from_buffer_eq(1) [OF assms(1-3) n] using assms(5-8,12) by simp
    then show ?thesis using assms(4) by (simp add: handler_read_eq [OF conn])
  qed
  then show ?thesis using hd assms(11) by (simp add: io_intr_var_def integerRead_def)
qed

definition example_env :: io_env where
  "example_env = \<lparr> io_hash = (\<lambda>bs. int (length bs)), io_to_double = (\<lambda>t x. x),
     io_garbage = (\<lambda>n. replicate n 255), io_unset_int = 0, io_unset_word = 0 \<rparr>"

theorem io_intr_dword_garbage_witness:
  "\<exists>h :: nat heap. slot_data h 3 4 = replicate 4 7
     \<and> io_intr_var ads_def_documented example_env 3 ''DWORD'' h
         = Some ([Set_int 3 asynSuccess (- 4177066233)], h)"
proof (rule scalar_read [of 4 Read False T_DWORD])
  show "4 \<le> (8 :: nat)" "Read = Read \<or> False" by simp_all
next
  fix h :: "nat heap" and r
  assume h: "req_ok h r" "all_bufs buf_initialized h (get_chunks r)" "3 \<in> set (req_variables r)" "readable h 3"
    "data_valid h 3" "slot_code h 3 = 0" and data: "slot_data h 3 4 = replicate 4 7" and size: "h_size h 3 = 4"
    and t: "addr_data_type (h_addr h 3) = T_DWORD" and rb: "var_write_readback (h_vars h 3) = False"
  have g: "io_garbage example_env 8 = replicate 4 255 @ replicate 4 255" and t': "addr_data_type (h_addr h 3) \<in> {T_DWORD, T_UDINT}"
    and np: "\<not> readback_pending h 3" and f: "''DWORD'' = ''DWORD'' \<or> ''DWORD'' = ''UDINT''"
    and len: "length (replicate 4 (255 :: byte)) = 4"
    using t rb by (simp_all add: example_env_def readback_pending_def flip: replicate_add)
  have bytes: "slot_data h 3 4 @ replicate 4 255 = [7, 7, 7, 7, 255, 255, 255, 255]"
    unfolding data by (simp add: eval_nat_numeral)
  have "ctype_convert I64 (ctype_decode U64 (slot_data h 3 4 @ replicate 4 255)) = - 4177066233"
    unfolding bytes
    by (simp add: ctype_convert_def ctype_encode_def ctype_decode_def ctype_signed_def
        sint_decode_def uint_decode_def int_decode_encode)
  with io_intr_dword_garbage [OF h np size f t' g len len] data show ?thesis by auto
qed

section \<open>Integers there and back\<close>

lemma handler_write_success:
  "handler_write d lib vid src n h = Some (asynSuccess, h1) \<longleftrightarrow> var_write d lib vid (Some src) n h = Some (0, h1)"
  by (auto simp: handler_write_def bind_eq_Some_conv)

lemma var_write_frame:
  assumes "var_conn (h_vars h vid)" and "addr_name_is_resolved (h_addr h vid)"
    and "n \<le> h_size h vid" and "n \<le> length src" and "var_write d lib vid (Some src) n h = Some (rc, h1)"
  shows "readable h1 = readable h" and "h_size h1 = h_size h" and "h_bufs h1 = h_bufs h"
  using assms(5) var_write_eq [OF assms(1-4), of d lib]
  by (auto simp: readable_def h_addr_def h_size_def var_size_def is_connected_def fun_eq_iff
      split: prod.splits if_splits)

text \<open>
  C31. An integer makes the round trip: after a successful \<open>integerWrite\<close> to a variable with
  read-back whose size is that of the PLC type, the next \<open>integerRead\<close> succeeds and returns the value,
  converted to the PLC type and back as C++ converts integers; a value that both types can hold
  comes back unchanged.
\<close>

theorem integer_write_read:
  assumes "req_ok h r" and "all_bufs buf_initialized h (get_chunks r)" and "vid \<in> set (req_variables r)"
    and "readable h vid" and "addr_name_is_resolved (h_addr h vid)" and "var_write_readback (h_vars h vid)"
    and "h_size h vid = ctype_size plc" and "ctype_size plc \<le> ctype_size epics"
    and "wf_ads_def d" and "data_valid h vid" and "slot_code h vid = 0" and "length garbage = ctype_size plc"
    and "integerWrite d lib plc epics vid v h = Some (asynSuccess, h1)"
  shows "\<exists>h2. integerRead d plc epics garbage unset vid h1
      = Some (asynSuccess, ctype_convert epics (ctype_convert plc v), h2)
    \<and> (ctype_range plc v \<and> ctype_range epics v \<longrightarrow> ctype_convert epics (ctype_convert plc v) = v)"
proof -
  let ?src = "ctype_encode epics v" and ?n = "ctype_size plc"
  have conn: "var_conn (h_vars h vid)" using assms(4) by (simp add: readable_def)
  have n: "?n \<le> h_size h vid" "?n \<le> length ?src" "0 < h_size h vid" using assms(7,8) by simp_all
  have w: "var_write d lib vid (Some ?src) ?n h = Some (0, h1)"
    using assms(13) by (simp add: integerWrite_def handler_write_success)
  have len: "?n \<le> length garbage" "h_size h vid \<le> length garbage" using assms(7,12) by simp_all
  obtain h2 where "read_from_buffer d vid ?n (Some garbage) h1 =
      Some (0, Some (take ?n ?src @ replicate (h_size h vid - ?n) 0 @ drop (h_size h vid) garbage), h2)"
    using written_read_back [OF assms(1-3) conn assms(5,6) n(3,1,2) w assms(9,10,11) len len(1)] by blast
  then have read: "read_from_buffer d vid ?n (Some garbage) h1 = Some (0, Some (take ?n ?src), h2)"
    using assms(7,12) by simp
  have "readable h1 vid" using var_write_frame(1) [OF conn assms(5) n(1,2) w] assms(4) by simp
  moreover from this have "var_conn (h_vars h1 vid)" by (simp add: readable_def)
  ultimately have "handler_read d vid ?n garbage h1 = Some (Some (take ?n ?src), h2)"
    using read by (simp add: handler_read_eq)
  moreover have "ctype_decode plc (take ?n ?src) = ctype_convert plc v"
    using ctype_decode_take [OF assms(8)] by (simp add: ctype_encode_def)
  ultimately show ?thesis by (simp add: integerRead_def ctype_convert_id)
qed

theorem integer_write_read_witness:
  "\<exists>(h :: nat heap) h1 h2.
     integerWrite ads_def_documented sevens_lib U16 I32 3 500 h = Some (asynSuccess, h1)
     \<and> integerRead ads_def_documented U16 I32 [0, 0] 0 3 h1 = Some (asynSuccess, 500, h2)"
proof (rule scalar_read [of 2 Write True T_UINT])
  show "2 \<le> (8 :: nat)" "Write = Read \<or> True" by simp_all
next
  fix h :: "nat heap" and r
  assume h: "req_ok h r" "all_bufs buf_initialized h (get_chunks r)" "3 \<in> set (req_variables r)" "readable h 3"
    and valid: "data_valid h 3" "slot_code h 3 = 0" and size: "h_size h 3 = 2"
    and res: "addr_name_is_resolved (h_addr h 3)" and rb: "var_write_readback (h_vars h 3) = True"
    and conn: "var_conn (h_vars h 3)"
  have sz: "h_size h 3 = ctype_size U16" "ctype_size U16 \<le> ctype_size I32" "length [0, 0 :: byte] = ctype_size U16"
    "ctype_size U16 \<le> h_size h 3" "ctype_size U16 \<le> length (ctype_encode I32 500)"
    using size by simp_all
  obtain h1 where "var_write ads_def_documented sevens_lib 3 (Some (ctype_encode I32 500)) (ctype_size U16) h = Some (0, h1)"
    unfolding var_write_eq [OF conn res sz(4,5)] by (simp add: sevens_lib_def example_lib_def)
  then have w: "integerWrite ads_def_documented sevens_lib U16 I32 3 500 h = Some (asynSuccess, h1)"
    by (simp add: integerWrite_def handler_write_success)
  have v: "ctype_range U16 500" "ctype_range I32 500"
    by (simp_all add: ctype_range_def ctype_signed_def uint_range_def sint_range_def)
  from integer_write_read [OF h res rb [simplified] sz(1,2) wf_ads_def_documented valid sz(3) w, of 0] v w
  show ?thesis by metis
qed

section \<open>Digital values\<close>

lemma masked_bits:
  fixes cur val m :: "32 word"
  shows "Bit_Operations.and (Bit_Operations.or cur (Bit_Operations.and val m))
      (Bit_Operations.or val (Bit_Operations.not m))
    = Bit_Operations.or (Bit_Operations.and cur (Bit_Operations.not m)) (Bit_Operations.and val m)"
  by (rule bit_eqI) (auto simp: bit_simps)

text \<open>
  C32. A masked digital write replaces exactly the bits of the mask: the value sent to the ADS
  device has the bits of \<open>val\<close> where the mask is set and the bits of the value read before elsewhere
  (for the full mask nothing is read). But when nothing can be read, as for every write variable
  without read-back, the other bits come from a result that was never set.
\<close>

theorem digital_write_masked:
  assumes "digitalRead d plc garbage unset 0xFFFFFFFF vid h = Some (st, cur, h1)"
  shows "digitalWrite d lib plc garbage unset vid val bit_mask h =
      handler_write d lib vid
        (ctype_encode plc (uint (if bit_mask = 0xFFFFFFFF then val
           else Bit_Operations.or (Bit_Operations.and cur (Bit_Operations.not bit_mask))
                  (Bit_Operations.and val bit_mask))))
        (ctype_size plc) (if bit_mask = 0xFFFFFFFF then h else h1)
    \<and> (addr_operation (h_addr h vid) = Write \<longrightarrow> \<not> var_write_readback (h_vars h vid) \<longrightarrow>
         st = asynError \<and> cur = unset)"
proof
  show "digitalWrite d lib plc garbage unset vid val bit_mask h =
      handler_write d lib vid
        (ctype_encode plc (uint (if bit_mask = 0xFFFFFFFF then val
           else Bit_Operations.or (Bit_Operations.and cur (Bit_Operations.not bit_mask))
                  (Bit_Operations.and val bit_mask))))
        (ctype_size plc) (if bit_mask = 0xFFFFFFFF then h else h1)"
    using assms by (simp add: digitalWrite_def masked_bits)
  show "addr_operation (h_addr h vid) = Write \<longrightarrow> \<not> var_write_readback (h_vars h vid) \<longrightarrow>
      st = asynError \<and> cur = unset"
    using assms by (auto simp: digitalRead_def handler_read_def not_readable_def h_addr_def)
qed

theorem digital_write_masked_witness:
  "\<exists>(h :: nat heap) h1. digitalRead ads_def_documented U16 [0, 0] 0 0xFFFFFFFF 3 h = Some (asynSuccess, 0x707, h1)
     \<and> digitalWrite ads_def_documented sevens_lib U16 [0, 0] 0 3 0xF0 0xFF h
         = handler_write ads_def_documented sevens_lib 3 (ctype_encode U16 0x7F0) 2 h1"
proof (rule scalar_read [of 2 Read False T_WORD])
  show "2 \<le> (8 :: nat)" "Read = Read \<or> False" by simp_all
next
  fix h :: "nat heap" and r
  assume h: "req_ok h r" "all_bufs buf_initialized h (get_chunks r)" "3 \<in> set (req_variables r)" "readable h 3"
    and valid: "data_valid h 3" "slot_code h 3 = 0" and data: "slot_data h 3 2 = replicate 2 7"
    and size: "h_size h 3 = 2" and rb: "var_write_readback (h_vars h 3) = False" and conn: "var_conn (h_vars h 3)"
  have len: "2 \<le> length [0, 0 :: byte]" by simp
  have bytes: "slot_data h 3 2 = [7, 7]" unfolding data by (simp add: eval_nat_numeral)
  have "read_from_buffer ads_def_documented 3 2 (Some [0, 0]) h = Some (0, Some [7, 7], h)"
    unfolding read_from_buffer_eq(1) [OF h(1-3) len] using valid size rb by (simp add: bytes readback_pending_def)
  then have "handler_read ads_def_documented 3 2 [0, 0] h = Some (Some [7, 7], h)"
    using h(4) by (simp add: handler_read_eq [OF conn])
  then have "digitalRead ads_def_documented U16 [0, 0] 0 0xFFFFFFFF 3 h = Some (asynSuccess, 0x707, h)"
    by (simp add: digitalRead_def ctype_decode_def ctype_signed_def uint_decode_def)
  from digital_write_masked [OF this, of sevens_lib "0xF0" "0xFF"] this show ?thesis by auto
qed

section \<open>Arrays\<close>

text \<open>
  C33. Writing an array ignores the size of the array: for a resolved variable whose size is that
  of its elements, \<open>arrayWrite\<close> reads past the end of the caller's memory exactly when that is
  shorter than all the elements of the PLC variable; when it is long enough, the ADS device gets
  exactly the first bytes of it, as many as the variable has.
\<close>

theorem array_write_reads_all:
  assumes "wf_ads_def d" and "var_conn (h_vars h vid)" and "addr_name_is_resolved (h_addr h vid)"
    and "h_size h vid = ctype_size plc * addr_nelem (h_addr h vid)"
  shows "(arrayWrite d lib plc vid val_data h = None \<longleftrightarrow> length val_data < h_size h vid)
    \<and> (h_size h vid \<le> length val_data \<longrightarrow>
        (case AdsSyncWriteReqEx lib (h_env h) (conn_ads_port (h_conn h)) (ams_addr_of h vid)
                (addr_index_group (h_addr h vid)) (addr_index_offset (h_addr h vid))
                (take (h_size h vid) val_data) of
           (rc, e1) \<Rightarrow> map_option (\<lambda>(st, h1). (st, h_env h1)) (arrayWrite d lib plc vid val_data h)
             = Some (if rc = 0 then asynSuccess else asynError, e1)))"
proof -
  have "h_size h vid < 2 ^ 32" by (simp add: h_size_def)
  then have n: "u32 (u64 (ctype_size plc * addr_nelem (h_addr h vid))) = h_size h vid"
    using assms(4) by simp
  have run: "arrayWrite d lib plc vid val_data h = handler_write d lib vid val_data (h_size h vid) h"
    by (simp only: arrayWrite_def n)
  show ?thesis
  proof (cases "h_size h vid \<le> length val_data")
    case True
    from var_write_eq [OF assms(2,3) order_refl True, of d lib] True ads_rc_nonzero [OF assms(1)]
    show ?thesis by (auto simp: run handler_write_def split: prod.splits if_splits)
  next
    case False
    then have "mem_read val_data 0 (h_size h vid) = None" by (simp add: mem_read_def)
    then have "var_write d lib vid (Some val_data) (h_size h vid) h = None"
      using assms(2,3) unfolding h_size_def h_addr_def by (simp add: var_write_def Let_def)
    with False show ?thesis by (simp add: run handler_write_def)
  qed
qed

theorem array_write_reads_all_witness:
  "arrayWrite ads_def_documented sevens_lib U16 3 [1, 2, 3, 4] (example_heap_of example_resolved) = None"
proof -
  let ?h = "example_heap_of example_resolved"
  have "var_conn (h_vars ?h 3)" "addr_name_is_resolved (h_addr ?h 3)"
    "h_size ?h 3 = ctype_size U16 * addr_nelem (h_addr ?h 3)" "h_size ?h 3 = 10"
    by (simp_all add: example_heap_of_def h_addr_def h_size_def example_resolved_def resolve_def
        example_address_def example_variable_def var_size_def)
  with array_write_reads_all [OF wf_ads_def_documented this(1-3), of sevens_lib "[1, 2, 3, 4]"]
  show ?thesis by simp
qed

section \<open>The loop over the interrupt variables\<close>

text \<open>How many bytes the read of \<open>performIOIntr\<close> has room for.\<close>

definition io_capacity :: "string \<Rightarrow> ads_address \<Rightarrow> nat" where
  "io_capacity func a =
     (case io_intr_handler func (addr_data_type a) of
        None \<Rightarrow> 0
      | Some (Integer_handler plc epics) \<Rightarrow> ctype_size plc
      | Some (Digital_handler plc) \<Rightarrow> ctype_size plc
      | Some (Float_handler plc) \<Rightarrow> ctype_size plc
      | Some (Array_handler plc epics) \<Rightarrow> ctype_size epics * addr_nelem a
      | Some String_handler \<Rightarrow> addr_nelem a)"

text \<open>
  A variable that the loop can handle: part of the request unless it is only written, with a
  connection, no larger than the memory that is read into, and a value to be read back that is no
  larger than the variable.
\<close>

definition io_var_ok :: "'e heap \<Rightarrow> sum_read_request \<Rightarrow> nat \<times> string \<Rightarrow> bool" where
  "io_var_ok h r x = (case x of (vid, func) \<Rightarrow>
     (vid \<in> set (req_variables r)
        \<or> addr_operation (h_addr h vid) = Write \<and> \<not> var_write_readback (h_vars h vid))
     \<and> var_conn (h_vars h vid)
     \<and> (io_intr_handler func (addr_data_type (h_addr h vid)) \<noteq> None \<longrightarrow>
          h_size h vid \<le> io_capacity func (h_addr h vid))
     \<and> length (var_last_written (h_vars h vid)) \<le> h_size h vid)"

definition io_env_ok :: "io_env \<Rightarrow> bool" where
  "io_env_ok env \<longleftrightarrow> (\<forall>n. length (io_garbage env n) = n)"

text \<open>What the loop may change of a variable: the value to be read back and the hash.\<close>

definition io_same :: "ads_variable \<Rightarrow> ads_variable \<Rightarrow> bool" where
  "io_same v v' \<longleftrightarrow>
     v'\<lparr>var_last_written := [], var_array_data_hash := 0\<rparr> = v\<lparr>var_last_written := [], var_array_data_hash := 0\<rparr>
     \<and> (var_last_written v' = var_last_written v \<or> var_last_written v' = [])"

definition io_frame :: "'e heap \<Rightarrow> 'e heap \<Rightarrow> bool" where
  "io_frame h h' \<longleftrightarrow> h_env h' = h_env h \<and> h_conn h' = h_conn h \<and> h_bufs h' = h_bufs h
     \<and> h_next_buf h' = h_next_buf h \<and> (\<forall>v. io_same (h_vars h v) (h_vars h' v))"

lemma io_same_refl [simp]: "io_same v v"
  by (simp add: io_same_def)

lemma io_same_trans: "io_same v v1 \<Longrightarrow> io_same v1 v2 \<Longrightarrow> io_same v v2"
  by (auto simp: io_same_def)

lemma io_same_upd [simp]:
  "io_same v (v\<lparr>var_last_written := []\<rparr>)" "io_same v (v\<lparr>var_array_data_hash := x\<rparr>)"
  by (simp_all add: io_same_def)

lemma io_same_view: "io_same v v' \<Longrightarrow> same_view v v' \<and> var_addr v' = var_addr v \<and> var_conn v' = var_conn v
    \<and> var_write_readback v' = var_write_readback v
    \<and> length (var_last_written v') \<le> length (var_last_written v)"
  by (cases v; cases v'; auto simp: io_same_def same_view_def var_size_def)

lemma io_frame_refl [simp]: "io_frame h h"
  by (simp add: io_frame_def)

lemma io_frame_trans: "io_frame h h1 \<Longrightarrow> io_frame h1 h2 \<Longrightarrow> io_frame h h2"
  unfolding io_frame_def using io_same_trans by (metis (no_types))

lemma io_frame_upd [simp]: "io_same (h_vars h vid) v' \<Longrightarrow> io_frame h (upd_var vid (\<lambda>_. v') h)"
  by (simp add: io_frame_def)

lemma io_frame_keeps:
  assumes "io_frame h h'"
  shows "req_ok h r \<Longrightarrow> req_ok h' r" and "all_bufs P h' cs = all_bufs P h cs"
    and "h_size h' = h_size h" and "h_addr h' = h_addr h"
    and "io_var_ok h r x \<Longrightarrow> io_var_ok h' r x"
proof -
  have v: "same_view (h_vars h v) (h_vars h' v)" "var_addr (h_vars h' v) = var_addr (h_vars h v)"
    "var_conn (h_vars h' v) = var_conn (h_vars h v)"
    "var_write_readback (h_vars h' v) = var_write_readback (h_vars h v)"
    "length (var_last_written (h_vars h' v)) \<le> length (var_last_written (h_vars h v))" for v
    using assms io_same_view unfolding io_frame_def by blast+
  show "req_ok h r \<Longrightarrow> req_ok h' r"
    using assms v(1) by (elim req_ok_cong_vars) (simp_all add: io_frame_def)
  show "all_bufs P h' cs = all_bufs P h cs"
    using assms by (simp add: all_bufs_def h_buf_def io_frame_def)
  show s: "h_size h' = h_size h" and a: "h_addr h' = h_addr h"
    using v by (auto simp: fun_eq_iff h_size_def h_addr_def same_view_def)
  show "io_var_ok h r x \<Longrightarrow> io_var_ok h' r x"
    using v(3-5) [of "fst x"] by (cases x) (auto simp: io_var_ok_def s a)
qed

lemma read_from_buffer_defined:
  assumes "req_ok h r" and "all_bufs buf_initialized h (get_chunks r)"
    and "vid \<in> set (req_variables r)" and "n \<le> length dst"
    and "length (var_last_written (h_vars h vid)) \<le> length dst"
  shows "\<exists>rc dst' h'. read_from_buffer d vid n (Some dst) h = Some (rc, Some dst', h')
    \<and> length dst' = length dst \<and> io_frame h h'"
proof -
  let ?m = "min n (h_size h vid)"
  note eq = read_from_buffer_eq [OF assms(1-4)]
  have len: "length (slot_data h vid ?m @ drop ?m dst) = length dst" using eq(2) assms(4) by simp
  have upd: "io_frame h (upd_var vid (\<lambda>v. v\<lparr>var_last_written := []\<rparr>) h)"
    by (simp add: io_frame_def)
  have w: "mem_write (slot_data h vid ?m @ drop ?m dst) (var_last_written (h_vars h vid)) =
      Some (var_last_written (h_vars h vid) @ drop (length (var_last_written (h_vars h vid)))
        (slot_data h vid ?m @ drop ?m dst))"
    using len assms(5) by simp
  show ?thesis unfolding eq(1) Let_def w using len assms(5) upd by auto
qed

lemma handler_read_defined:
  assumes "req_ok h r" and "all_bufs buf_initialized h (get_chunks r)"
    and "vid \<in> set (req_variables r)" and "n \<le> length dst"
    and "length (var_last_written (h_vars h vid)) \<le> length dst" and "var_conn (h_vars h vid)"
  shows "\<exists>val h'. handler_read d vid n dst h = Some (val, h') \<and> io_frame h h'"
proof -
  obtain rc dst' h' where "read_from_buffer d vid n (Some dst) h = Some (rc, Some dst', h')" "io_frame h h'"
    using read_from_buffer_defined [OF assms(1-5)] by blast
  then show ?thesis by (simp add: handler_read_eq [OF assms(6)])
qed

text \<open>The variable that an event is about, if it is about one.\<close>

fun io_event_vars :: "io_event \<Rightarrow> nat list" where
  "io_event_vars (Set_int vid st x) = [vid]"
| "io_event_vars (Set_digital vid st w) = [vid]"
| "io_event_vars (Set_float vid st x) = [vid]"
| "io_event_vars (Set_octet vid st bs) = [vid]"
| "io_event_vars (Array_callbacks vid st bs) = [vid]"
| "io_event_vars Param_callbacks = []"

lemma io_intr_var_defined:
  assumes ok: "req_ok h r" and init: "all_bufs buf_initialized h (get_chunks r)"
    and var: "io_var_ok h r (vid, func)" and env: "io_env_ok env"
  shows "\<exists>ev h'. io_intr_var d env vid func h = Some (ev, h') \<and> io_frame h h'
    \<and> (ev = [] \<or> map io_event_vars ev = [[vid]])"
proof -
  let ?a = "h_addr h vid"
  have v: "readable h vid \<Longrightarrow> vid \<in> set (req_variables r)" and conn: "var_conn (h_vars h vid)"
    and lw: "length (var_last_written (h_vars h vid)) \<le> h_size h vid"
    using var by (auto simp: io_var_ok_def readable_def)
  have cap: "h_size h vid \<le> io_capacity func ?a"
    if "io_intr_handler func (addr_data_type ?a) \<noteq> None"
    using var that by (simp add: io_var_ok_def)
  have rd: "\<exists>val h'. handler_read d vid n dst h = Some (val, h') \<and> io_frame h h'"
    if "length dst = n" "h_size h vid \<le> n" for n dst
    using handler_read_defined [OF ok init v _ _ conn, of n dst d] that lw
    by (cases "readable h vid") (simp_all add: handler_read_eq [OF conn])
  have g: "length (io_garbage env n) = n" for n using env by (simp add: io_env_ok_def)
  show ?thesis
  proof (cases "io_intr_handler func (addr_data_type ?a)")
    case None
    then show ?thesis by (simp add: io_intr_var_def)
  next
    case (Some hdl)
    note cap' = cap [unfolded Some io_capacity_def, simplified]
    show ?thesis
    proof (cases hdl)
      case (Integer_handler plc epics)
      with rd [of "io_garbage env (ctype_size plc)" "ctype_size plc"] g cap' Some show ?thesis
        by (auto simp: io_intr_var_def integerRead_def split: option.splits)
    next
      case (Digital_handler plc)
      with rd [of "io_garbage env (ctype_size plc)" "ctype_size plc"] g cap' Some show ?thesis
        by (auto simp: io_intr_var_def digitalRead_def split: option.splits)
    next
      case (Float_handler plc)
      with rd [of "io_garbage env (ctype_size plc)" "ctype_size plc"] g cap' Some show ?thesis
        by (auto simp: io_intr_var_def floatRead_def split: option.splits)
    next
      case String_handler
      with rd [of "replicate (addr_nelem ?a) 0" "addr_nelem ?a"] cap' Some show ?thesis
        by (auto simp: io_intr_var_def stringRead_def Let_def split: option.splits)
    next
      case (Array_handler plc epics)
      let ?dst = "replicate (addr_nelem ?a * ctype_size epics) (0 :: byte)"
      have c: "h_size h vid \<le> length ?dst" using cap' Array_handler by (simp add: mult.commute)
      let ?n = "u32 (u64 (ctype_size plc * addr_nelem ?a))"
      have same: "ctype_size plc = ctype_size epics"
        using Some Array_handler
        by (auto simp: io_intr_handler_def io_intr_array_def io_intr_digital_def io_intr_scalar_def
            split: if_splits)
      have "?n \<le> addr_nelem ?a * ctype_size epics"
        by (metis mod_less_eq_dividend mult.commute order_trans same u32_def u64_def)
      then have n: "?n \<le> length ?dst" by simp
      have r: "\<exists>rc dst' h1. read_from_buffer d vid ?n (Some ?dst) h = Some (rc, Some dst', h1) \<and> io_frame h h1"
        if "readable h vid"
        using read_from_buffer_defined [OF ok init v [OF that] n] lw c by force
      have "\<exists>st out h1. arrayRead d plc ?dst (addr_nelem ?a) vid h = Some (st, out, h1) \<and> io_frame h h1"
        using r not_readable_eq [OF conn] by (cases "readable h vid") (auto simp: arrayRead_def Let_def)
      then obtain st out h1 where a: "arrayRead d plc ?dst (addr_nelem ?a) vid h = Some (st, out, h1)"
        and f: "io_frame h h1" by blast
      have "io_frame h (upd_var vid (\<lambda>_. (h_vars h1 vid)\<lparr>var_array_data_hash := x\<rparr>) h1)" for x
        by (rule io_frame_trans [OF f]) simp
      then show ?thesis
        using Some Array_handler a by (simp add: io_intr_var_def performArrayCallbacks_def updateDataHash_def)
    qed
  qed
qed

lemma io_intr_loop_defined:
  assumes "req_ok h r" and "all_bufs buf_initialized h (get_chunks r)"
    and "\<forall>x \<in> set vars. io_var_ok h r x" and "io_env_ok env"
  shows "\<exists>evs h'. io_intr_loop d env vars h = Some (evs, h') \<and> io_frame h h'
    \<and> subseq (concat (map io_event_vars evs)) (map fst vars) \<and> Param_callbacks \<notin> set evs"
  using assms(1-3)
proof (induction vars arbitrary: h)
  case Nil
  then show ?case by simp
next
  case (Cons x vars)
  obtain vid func where x: "x = (vid, func)" by (cases x)
  have "io_var_ok h r (vid, func)" using Cons.prems(3) x by simp
  from io_intr_var_defined [OF Cons.prems(1,2) this assms(4), of d] obtain ev h1 where
    one: "io_intr_var d env vid func h = Some (ev, h1)" "io_frame h h1" "ev = [] \<or> map io_event_vars ev = [[vid]]"
    by (elim exE conjE) (rule that)
  note k = io_frame_keeps [OF one(2)]
  have "\<exists>evs h'. io_intr_loop d env vars h1 = Some (evs, h') \<and> io_frame h1 h'
    \<and> subseq (concat (map io_event_vars evs)) (map fst vars) \<and> Param_callbacks \<notin> set evs"
    using Cons.prems k by (intro Cons.IH) auto
  then obtain evs h2 where "io_intr_loop d env vars h1 = Some (evs, h2)" "io_frame h1 h2"
    "subseq (concat (map io_event_vars evs)) (map fst vars)" "Param_callbacks \<notin> set evs" by blast
  moreover have "Param_callbacks \<notin> set ev" using one(3) by (auto simp: Cons_eq_map_conv map_eq_Cons_conv)
  ultimately show ?case using one x io_frame_trans [OF one(2)]
    by (auto simp: subseq_Cons2' map_eq_Cons_conv)
qed

text \<open>The callbacks come once, at the end.\<close>

definition callbacks_last :: "io_event list \<Rightarrow> bool" where
  "callbacks_last evs \<longleftrightarrow> (\<exists>es. evs = es @ [Param_callbacks] \<and> Param_callbacks \<notin> set es)"

lemma performIOIntr_defined:
  assumes "req_ok h r" and "all_bufs buf_initialized h (get_chunks r)"
    and "\<forall>x \<in> set vars. io_var_ok h r x" and "io_env_ok env"
  shows "\<exists>evs h'. performIOIntr d env vars h = Some (evs, h') \<and> io_frame h h'
    \<and> subseq (concat (map io_event_vars evs)) (map fst vars) \<and> callbacks_last evs"
  using io_intr_loop_defined [OF assms, of d] by (auto simp: performIOIntr_def callbacks_last_def)

text \<open>
  The I/O interrupt loop is memory safe: for variables that are in an allocated request, or are
  only written, and that are no larger than the memory their branch reads into, \<open>performIOIntr\<close> is
  defined, whatever the buffers hold. It hands on at most one result per variable, in the order of the variables, then calls the
  callbacks of all parameters, once, and changes nothing but the stored hashes and the values waiting to be read back; the invariant still holds.
\<close>

theorem performIOIntr_safe:
  assumes "req_ok h r" and "all_bufs buf_initialized h (get_chunks r)"
    and "\<forall>x \<in> set vars. io_var_ok h r x" and "io_env_ok env"
  shows "\<exists>evs h'. performIOIntr d env vars h = Some (evs, h') \<and> io_frame h h' \<and> req_ok h' r
    \<and> subseq (concat (map io_event_vars evs)) (map fst vars) \<and> callbacks_last evs"
  using performIOIntr_defined [OF assms, of d] io_frame_keeps(1) [OF _ assms(1)] by blast

theorem performIOIntr_safe_witness:
  "\<exists>(h :: nat heap) evs h'.
     performIOIntr ads_def_documented example_env [(3, ''UINT''), (3, ''UINT'')] h = Some (evs, h')
     \<and> subseq (concat (map io_event_vars evs)) [3, 3]"
proof (rule scalar_read [of 2 Read False T_UINT])
  show "2 \<le> (8 :: nat)" "Read = Read \<or> False" by simp_all
next
  fix h :: "nat heap" and r
  assume h: "req_ok h r" "all_bufs buf_initialized h (get_chunks r)" and v: "3 \<in> set (req_variables r)"
    and size: "h_size h 3 = 2" "addr_data_type (h_addr h 3) = T_UINT" "addr_nelem (h_addr h 3) = 1"
    and lw: "var_last_written (h_vars h 3) = []" and conn: "var_conn (h_vars h 3)"
  have "io_intr_handler ''UINT'' T_UINT = Some (Integer_handler U16 I32)"
    by (simp add: io_intr_handler_def io_intr_scalar_def contains_def str_find_def npos_def)
  then have ok: "\<forall>x \<in> set [(3, ''UINT''), (3, ''UINT'')]. io_var_ok h r x"
    using v size lw conn by (simp add: io_var_ok_def io_capacity_def)
  have env: "io_env_ok example_env" by (simp add: io_env_ok_def example_env_def)
  from performIOIntr_safe [OF h ok env, of ads_def_documented] show ?thesis by auto
qed

end
