(* ===== verification/Port_Driver.thy ===== *)
theory Port_Driver
  imports Handler_Props
begin

text \<open>
  The driver itself, \<open>ADSPortDriver\<close> in \<open>ADSPortDriver.h\<close> and \<open>ADSPortDriver.cpp\<close>: parsing links
  and creating device variables, the hook that allocates the sum-read request, connecting and
  disconnecting, the periodic reads, and the scan thread. \<open>Autoparam::Driver\<close>, the base class, is a
  submodule: what the driver gets from it (the links of the records, the variables with interrupt
  records) are arguments. \<open>None\<close> as the result of an operation is undefined behaviour. The build
  without \<open>USE_TC_ADS\<close> is modelled.
\<close>

section \<open>Links\<close>

text \<open>\<open>while (stream >> arg)\<close>: the words of the string, between white space.\<close>

function stream_words :: "string \<Rightarrow> string list" where
  "stream_words s =
     (let t = dropWhile is_space s in
      if t = [] then []
      else takeWhile (\<lambda>c. \<not> is_space c) t # stream_words (dropWhile (\<lambda>c. \<not> is_space c) t))"
  by pat_completeness auto
termination
proof (relation "measure length", simp)
  fix s t assume t: "t = dropWhile is_space s" "t \<noteq> []"
  then have "\<not> is_space (hd t)" by (simp add: hd_dropWhile)
  with t(2) have "length (dropWhile (\<lambda>c. \<not> is_space c) t) < length t"
    by (cases t) (simp_all add: le_imp_less_Suc length_dropWhile_le)
  also have "\<dots> \<le> length s" by (simp add: t(1) length_dropWhile_le)
  finally show "(dropWhile (\<lambda>c. \<not> is_space c) t, s) \<in> measure length" by simp
qed

declare stream_words.simps [simp del]

text \<open>
  \<open>None\<close> is the null pointer. Only \<open>std::invalid_argument\<close> is caught; any other exception leaves
  the function, and so does undefined behaviour.
\<close>

definition parseDeviceAddress ::
  "ads_def \<Rightarrow> string \<Rightarrow> string \<Rightarrow> exn + ads_address option" where
  "parseDeviceAddress d func arguments =
     (case ADSAddress_autoparam d func (stream_words arguments) of
        Inr a \<Rightarrow> Inr (Some a)
      | Inl (Invalid_argument msg) \<Rightarrow> Inr None
      | Inl e \<Rightarrow> Inl e)"

text \<open>\<open>ADSDeviceAddress::operator==\<close>, by which autoparam finds the variable of a link again.\<close>

definition device_address_eq :: "ads_address \<Rightarrow> ads_address \<Rightarrow> bool" where
  "device_address_eq a b \<longleftrightarrow>
     addr_variable_name a = addr_variable_name b \<and> addr_data_type a = addr_data_type b
     \<and> addr_ads_port a = addr_ads_port b \<and> addr_nelem a = addr_nelem b
     \<and> addr_operation a = addr_operation b"

section \<open>The driver\<close>

text \<open>
  The members: the objects that the driver's methods work on, the sum-read request, the flags
  \<open>exitCalled\<close> and \<open>initialized\<close>, the lists of variables, the address of the ADS device, and what
  is known about it. \<open>d_func\<close> is the function name that \<open>DeviceVariable\<close> keeps of each variable,
  and \<open>d_next_var\<close> the number of the next variable. \<open>adsFunctionTimeout\<close> and \<open>sumReadPeriod\<close> do not
  influence what the driver computes and are left out.
\<close>

record 'e driver =
  d_heap :: "'e heap"
  d_req :: sum_read_request
  d_exit :: bool
  d_init :: bool
  d_read_vars :: "nat list"
  d_write_vars :: "nat list"
  d_func :: "nat \<Rightarrow> string"
  d_next_var :: nat
  d_netid :: netid
  d_ip :: string
  d_read_port :: nat
  d_ads_state :: nat
  d_device_state :: nat
  d_device_info :: string
  d_ads_version :: "nat list"

text \<open>What the number of a variable that has not been created refers to.\<close>

definition no_variable :: ads_variable where
  "no_variable = \<lparr> var_addr = blank_address T_UNKNOWN Read, var_conn = False,
     var_buffer_reader = EMPTY_BUFFER_DATA_POSITION, var_elem_size = 0, var_array_data_hash = 0,
     var_write_readback = False, var_last_written = [] \<rparr>"

text \<open>
  The constructor. The conversion of a string to a net id and the constant \<open>ADSSTATE_INVALID\<close> are the
  ADS library's; the members of the connection and of the driver without an initialiser are
  arguments.
\<close>

definition ADSPortDriver ::
  "(string \<Rightarrow> netid) \<Rightarrow> nat \<Rightarrow> string \<Rightarrow> string \<Rightarrow> nat \<Rightarrow> nat \<Rightarrow> nat \<Rightarrow> nat \<Rightarrow> nat list \<Rightarrow> 'e
     \<Rightarrow> exn + 'e driver" where
  "ADSPortDriver parse_netid state_invalid ip ams sum_buffer_size read_port
       unset_port unset_state unset_version e =
     exn_bind (SumReadRequest sum_buffer_size True) (\<lambda>r.
       Inr \<lparr> d_heap = \<lparr> h_env = e,
                h_conn = \<lparr> remote_ams_netid = no_netid, conn_ads_port = 0, device_read_ads_port = unset_port \<rparr>,
                h_vars = (\<lambda>_. no_variable), h_bufs = (\<lambda>_. None), h_next_buf = 0 \<rparr>,
             d_req = r, d_exit = False, d_init = False, d_read_vars = [], d_write_vars = [],
             d_func = (\<lambda>_. []), d_next_var = 0, d_netid = parse_netid ams, d_ip = ip,
             d_read_port = read_port, d_ads_state = unset_state, d_device_state = state_invalid,
             d_device_info = [], d_ads_version = unset_version \<rparr>)"

text \<open>
  \<open>createDeviceVariable\<close> with the constructor of \<open>ADSDeviceVar\<close>: the new variable gets the next
  number. \<open>None\<close> is the null pointer.
\<close>

definition createDeviceVariable ::
  "int \<Rightarrow> string \<Rightarrow> ads_address \<Rightarrow> 'e driver \<Rightarrow> exn + (nat option \<times> 'e driver)" where
  "createDeviceVariable garbage_hash func a D =
     (case ADSVariable garbage_hash a of
        Inl (Invalid_argument msg) \<Rightarrow> Inr (None, D)
      | Inl e \<Rightarrow> Inl e
      | Inr v \<Rightarrow>
          (let vid = d_next_var D;
               D1 = D\<lparr>d_heap := upd_var vid (\<lambda>_. set_connection True v) (d_heap D),
                      d_func := (d_func D)(vid := func), d_next_var := vid + 1\<rparr>
           in Inr (Some vid,
                case addr_operation a of
                  Read \<Rightarrow> D1\<lparr>d_read_vars := d_read_vars D @ [vid]\<rparr>
                | Write \<Rightarrow> D1\<lparr>d_write_vars := d_write_vars D @ [vid]\<rparr>)))"

text \<open>
  \<open>initHook\<close>: written variables with an interrupt record (asyn:READBACK) are read as well; then the
  sum-read request is allocated. The variables with interrupt records are an argument.
\<close>

definition hook_var :: "'e driver \<Rightarrow> nat \<Rightarrow> 'e driver" where
  "hook_var D vid =
     (if addr_operation (h_addr (d_heap D) vid) = Write
      then D\<lparr>d_heap := upd_var vid (set_write_readback True) (d_heap D),
             d_read_vars := d_read_vars D @ [vid]\<rparr>
      else D)"

definition initHook :: "(alloc_site \<Rightarrow> bool) \<Rightarrow> nat list \<Rightarrow> 'e driver \<Rightarrow> exn + 'e driver" where
  "initHook mem interrupt_vars D =
     (if d_init D then Inr D
      else
        let D1 = foldl hook_var D interrupt_vars in
        exn_bind (allocate mem (d_read_vars D1) (d_heap D1) (d_req D1)) (\<lambda>(status, h, r).
          let D2 = D1\<lparr>d_heap := h, d_req := r\<rparr> in
          Inr (if status \<noteq> 0 then D2 else D2\<lparr>d_init := True\<rparr>)))"

section \<open>Connecting and disconnecting\<close>

definition ADSDisconnect :: "ads_def \<Rightarrow> 'e ads_lib \<Rightarrow> 'e driver \<Rightarrow> asyn_status \<times> 'e driver" where
  "ADSDisconnect d lib D =
     (let h = d_heap D; D1 = D\<lparr>d_req := snd (deinitialize (d_req D))\<rparr> in
      if \<not> d_exit D \<and> \<not> is_connected h then (asynSuccess, D1)
      else
        let h1 = if d_exit D then h
                 else snd (unresolve_variables d lib (d_write_vars D)
                        (snd (unresolve_variables d lib (d_read_vars D) h)));
            h2 = snd (disconnect lib h1)
        in (asynSuccess, D1\<lparr>d_heap := set_disconnected h2\<rparr>))"

definition doSumRead ::
  "ads_def \<Rightarrow> 'e ads_lib \<Rightarrow> 'e driver \<Rightarrow> (asyn_status \<times> 'e driver) option" where
  "doSumRead d lib D =
     Option.bind (sum_read d lib (d_heap D) (d_req D)) (\<lambda>(rc, h).
       let D1 = D\<lparr>d_heap := h\<rparr> in
       Some (asyn_of_rc rc, if rc \<noteq> 0 then snd (ADSDisconnect d lib D1) else D1))"

text \<open>Resolving one of the two lists, unless it is empty.\<close>

definition resolve_list ::
  "ads_def \<Rightarrow> 'e ads_lib \<Rightarrow> nat list \<Rightarrow> 'e heap \<Rightarrow> int \<times> 'e heap" where
  "resolve_list d lib vids h = (if vids \<noteq> [] then resolve_variables d lib vids h else (0, h))"

definition ADSConnect ::
  "ads_def \<Rightarrow> 'e ads_lib \<Rightarrow> 'e driver \<Rightarrow> (asyn_status \<times> 'e driver) option" where
  "ADSConnect d lib D =
     (if d_exit D then Some (asynError, D)
      else if \<not> d_init D then Some (asynError, D)
      else if is_connected (d_heap D) then Some (asynSuccess, D)
      else
        case connect lib (d_netid D) (d_ip D) (d_read_port D) (d_heap D) of (rc, h1) \<Rightarrow>
        if rc \<noteq> 0 then Some (asyn_of_rc rc, D\<lparr>d_heap := h1\<rparr>)
        else
          case resolve_list d lib (d_read_vars D) h1 of (rc, h2) \<Rightarrow>
          if rc \<noteq> 0 then Some (asyn_of_rc rc, D\<lparr>d_heap := h2\<rparr>)
          else
            case resolve_list d lib (d_write_vars D) h2 of (rc, h3) \<Rightarrow>
            if rc \<noteq> 0 then Some (asyn_of_rc rc, D\<lparr>d_heap := h3\<rparr>)
            else
              case initialize h3 (d_req D) of (rc, r) \<Rightarrow>
              if rc \<noteq> 0 then Some (asyn_of_rc rc, D\<lparr>d_heap := h3, d_req := r\<rparr>)
              else doSumRead d lib (D\<lparr>d_heap := h3, d_req := r\<rparr>))"

section \<open>Device information and state\<close>

text \<open>
  \<open>deviceInfo = info\<close> reads the characters up to the first NUL; without one it reads past the end of
  the 16 characters. \<open>unset\<close> is what the uninitialised local variables contain.
\<close>

definition c_string :: "string \<Rightarrow> string option" where
  "c_string cs = (if CHR 0x00 \<in> set cs then Some (takeWhile (\<lambda>c. c \<noteq> CHR 0x00) cs) else None)"

definition readADSDeviceInfo ::
  "ads_def \<Rightarrow> 'e ads_lib \<Rightarrow> string \<Rightarrow> nat list \<Rightarrow> 'e driver \<Rightarrow> (asyn_status \<times> 'e driver) option" where
  "readADSDeviceInfo d lib unset_info unset_version D =
     (case read_device_info d lib (Some unset_info) 16 (Some unset_version) (d_heap D) of
        (rc, chars, version, h) \<Rightarrow>
          let D1 = D\<lparr>d_heap := h\<rparr> in
          if rc \<noteq> 0 then Some (asyn_of_rc rc, snd (ADSDisconnect d lib D1))
          else Option.bind (c_string (the chars)) (\<lambda>name.
            Some (asynSuccess, D1\<lparr>d_device_info := name, d_ads_version := the version\<rparr>)))"

definition readADSDeviceState ::
  "ads_def \<Rightarrow> 'e ads_lib \<Rightarrow> nat \<Rightarrow> nat \<Rightarrow> 'e driver \<Rightarrow> asyn_status \<times> 'e driver" where
  "readADSDeviceState d lib unset_dev unset_state D =
     (case read_device_state d lib (Some unset_dev) (Some unset_state) (d_heap D) of
        (rc, dev, st, h) \<Rightarrow>
          let D1 = D\<lparr>d_heap := h\<rparr> in
          if rc \<noteq> 0 then (asyn_of_rc rc, snd (ADSDisconnect d lib D1))
          else (asynSuccess, D1\<lparr>d_ads_state := the st, d_device_state := the dev\<rparr>))"

section \<open>The scan thread\<close>

text \<open>
  Where the scan thread is in \<open>adsScan\<close>: at the head of the loop, before the block that connects,
  before the check whether device information is due, between reading information and state,
  before the sum-read, before the callbacks, after the loop, and finished.
\<close>

datatype scan_pc =
  Scan_Head | Scan_Connect | Scan_Info | Scan_State | Scan_Read | Scan_Intr | Scan_Exit | Scan_Done

text \<open>
  What a step gets from outside: whether device information is due (the clock), the contents of
  uninitialised variables, and the variables with interrupt records.
\<close>

record scan_env =
  se_due :: bool
  se_unset_info :: string
  se_unset_version :: "nat list"
  se_unset_dev :: nat
  se_unset_state :: nat
  se_interrupts :: "nat list"
  se_io :: io_env

text \<open>
  One step of the thread, up to the next point at which another thread may intervene. Delays are
  left out: the relation of the system allows any number of other steps at any point.
\<close>

fun scan_step ::
  "ads_def \<Rightarrow> 'e ads_lib \<Rightarrow> scan_env \<Rightarrow> scan_pc \<Rightarrow> 'e driver
     \<Rightarrow> (io_event list \<times> scan_pc \<times> 'e driver) option" where
  "scan_step d lib env Scan_Head D =
     Some ([],
       (if d_exit D then Scan_Exit
        else if \<not> d_init D then Scan_Head
        else if \<not> is_connected (d_heap D) \<or> \<not> req_initialized (d_req D) \<or> \<not> req_allocated (d_req D)
        then Scan_Connect else Scan_Info), D)"
| "scan_step d lib env Scan_Connect D =
     map_option (\<lambda>(status, D1).
         ([], Scan_Head, if status \<noteq> asynSuccess then snd (ADSDisconnect d lib D1) else D1))
       (ADSConnect d lib D)"
| "scan_step d lib env Scan_Info D =
     (if se_due env then
        map_option (\<lambda>(status, D1). ([], if status \<noteq> asynSuccess then Scan_Head else Scan_State, D1))
          (readADSDeviceInfo d lib (se_unset_info env) (se_unset_version env) D)
      else Some ([], Scan_Read, D))"
| "scan_step d lib env Scan_State D =
     (case readADSDeviceState d lib (se_unset_dev env) (se_unset_state env) D of (status, D1) \<Rightarrow>
        Some ([], if status \<noteq> asynSuccess then Scan_Head else Scan_Read, D1))"
| "scan_step d lib env Scan_Read D =
     map_option (\<lambda>(status, D1). ([], if status \<noteq> asynSuccess then Scan_Head else Scan_Intr, D1))
       (doSumRead d lib D)"
| "scan_step d lib env Scan_Intr D =
     map_option (\<lambda>(evs, h). (evs, Scan_Head, D\<lparr>d_heap := h\<rparr>))
       (performIOIntr d (se_io env) (map (\<lambda>vid. (vid, d_func D vid)) (se_interrupts env)) (d_heap D))"
| "scan_step d lib env Scan_Exit D =
     Some ([], Scan_Done, if is_connected (d_heap D) then snd (ADSDisconnect d lib D) else D)"
| "scan_step d lib env Scan_Done D = Some ([], Scan_Done, D)"

text \<open>
  The destructor: it sets the flag, waits for the thread (\<open>d_exit\<close> and \<open>Scan_Done\<close>), and then the
  members are destroyed, the sum-read request by \<open>~SumReadRequest\<close>.
\<close>

definition signal_exit :: "'e driver \<Rightarrow> 'e driver" where
  "signal_exit D = D\<lparr>d_exit := True\<rparr>"

definition destroy :: "'e driver \<Rightarrow> 'e driver" where
  "destroy D =
     (case deallocate (d_heap D) (snd (deinitialize (d_req D))) of
        (_, h, r) \<Rightarrow> D\<lparr>d_heap := h, d_req := r\<rparr>)"

end
