(* ===== verification/Driver_Links.thy ===== *)
theory Driver_Links
  imports Port_Driver
begin

text \<open>
  From the link of a record to a device variable: the words of a link, the round trip of the
  documented links through the whole of \<open>parseDeviceAddress\<close>, when two links are the same variable,
  and that a device variable always fits the memory its handler reads into.
\<close>

section \<open>The words of a link\<close>

definition word_ok :: "string \<Rightarrow> bool" where
  "word_ok w \<longleftrightarrow> w \<noteq> [] \<and> (\<forall>c \<in> set w. \<not> is_space c)"

fun unwords :: "string list \<Rightarrow> string" where
  "unwords [] = []"
| "unwords [w] = w"
| "unwords (w # v # ws) = w @ '' '' @ unwords (v # ws)"

lemma stream_words_Nil [simp]: "stream_words [] = []"
  by (simp add: stream_words.simps)

lemma stream_words_space: "is_space c \<Longrightarrow> stream_words (c # s) = stream_words s"
  by (simp add: stream_words.simps [of "c # s"] stream_words.simps [of s])

lemma stream_words_word:
  assumes "word_ok w" and "s = [] \<or> is_space (hd s)"
  shows "stream_words (w @ s) = w # stream_words s"
proof -
  have w: "w \<noteq> []" "\<And>c. c \<in> set w \<Longrightarrow> \<not> is_space c" using assms(1) by (auto simp: word_ok_def)
  have drop: "dropWhile is_space (w @ s) = w @ s" using w by (cases w) auto
  have "takeWhile (\<lambda>c. \<not> is_space c) (w @ s) = w @ takeWhile (\<lambda>c. \<not> is_space c) s"
    "dropWhile (\<lambda>c. \<not> is_space c) (w @ s) = dropWhile (\<lambda>c. \<not> is_space c) s"
    using w by (simp_all add: takeWhile_append2 dropWhile_append2)
  moreover have "takeWhile (\<lambda>c. \<not> is_space c) s = []" "dropWhile (\<lambda>c. \<not> is_space c) s = s"
    using assms(2) by (cases s; simp)+
  ultimately show ?thesis using drop w(1) by (simp add: stream_words.simps [of "w @ s"])
qed

lemma stream_words_unwords: "list_all word_ok ws \<Longrightarrow> stream_words (unwords ws) = ws"
proof (induction ws rule: unwords.induct)
  case 1
  then show ?case by simp
next
  case (2 w)
  then show ?case using stream_words_word [of w "[]"] by simp
next
  case (3 w v ws)
  have sp: "is_space CHR '' ''" by (simp add: is_space_def)
  then have "stream_words (w @ '' '' @ unwords (v # ws)) = w # stream_words ('' '' @ unwords (v # ws))"
    using 3(2) by (intro stream_words_word) auto
  then show ?case using 3 sp by (simp add: stream_words_space)
qed

lemma stream_words_ok: "list_all word_ok (stream_words s)"
proof (induction s rule: stream_words.induct)
  case (1 s)
  let ?t = "dropWhile is_space s"
  show ?case
  proof (cases "?t = []")
    case True
    then show ?thesis by (simp add: stream_words.simps [of s])
  next
    case False
    then have "word_ok (takeWhile (\<lambda>c. \<not> is_space c) ?t)"
      using hd_dropWhile [OF False] by (cases ?t) (auto simp: word_ok_def dest: set_takeWhileD)
    with 1 False show ?thesis by (simp add: stream_words.simps [of s] Let_def)
  qed
qed

section \<open>Round trip of a link\<close>

lemma link_port_word: "link_port d s p \<Longrightarrow> \<forall>c \<in> set s. \<not> is_space c"
proof -
  have "\<forall>c \<in> set (dec_str p). \<not> is_space c"
    using dec_str_chars(2) digit_not_special(1) [of 10] by fastforce
  moreover have "\<forall>q \<in> set manual_ports. \<forall>c \<in> set (fst q). \<not> is_space c"
    by (simp add: manual_ports_def is_space_def)
  then have "\<forall>c \<in> set s. \<not> is_space c" if "(s, p) \<in> set manual_ports" using that by force
  ultimately show "link_port d s p \<Longrightarrow> \<forall>c \<in> set s. \<not> is_space c" unfolding link_port_def by blast
qed

lemma link_words_ok:
  assumes "link_ok k a" and "word_ok (addr_variable_name a)" and "link_port d s (addr_ads_port a)"
  shows "list_all word_ok (link_args_at s k a)"
proof -
  have d: "\<forall>c \<in> set (dec_str n). \<not> is_space c" for n
    using dec_str_chars(2) digit_not_special(1) [of 10] by fastforce
  have n: "\<not> is_space CHR ''N''" "\<not> is_space CHR ''P''" "\<not> is_space CHR ''V''" "\<not> is_space CHR ''=''"
    "\<not> is_space CHR ''R''" "\<not> is_space CHR ''W''" by (simp_all add: is_space_def)
  show ?thesis
    using assms(1,2) d n link_port_word [OF assms(3)]
    by (cases "addr_operation a") (auto simp: link_args_at_def word_ok_def link_operation_def)
qed

lemma device_link:
  assumes "link_ok k a" and "word_ok (addr_variable_name a)" and "link_port d s (addr_ads_port a)"
  shows "parseDeviceAddress d (link_function k (addr_data_type a)) (unwords (link_args_at s k a)) = Inr (Some a)"
  using autoparam_link_at [OF assms(1,3)] stream_words_unwords [OF link_words_ok [OF assms]]
  by (simp add: parseDeviceAddress_def)

lemma device_link_dec:
  assumes "link_ok k a" and "word_ok (addr_variable_name a)"
  shows "parseDeviceAddress d (link_function k (addr_data_type a)) (unwords (link_args k a)) = Inr (Some a)"
  unfolding link_args_def by (rule device_link [OF assms link_port_dec])

text \<open>
  C35. A record's link makes the round trip: for every address that can be written in the
  documented format and whose variable name contains no white space, and for every way to write its
  port (as a number, or by a name of the manual's table), \<open>parseDeviceAddress\<close> of its
  function name and its arguments, written with single spaces between them, gives back exactly that
  address. Splitting never yields an empty word or one with white space, whatever the link is.
\<close>

theorem device_link_roundtrip:
  assumes "link_ok k a" and "word_ok (addr_variable_name a)" and "link_port d p (addr_ads_port a)"
  shows "parseDeviceAddress d (link_function k (addr_data_type a)) (unwords (link_args_at p k a)) = Inr (Some a)
    \<and> list_all word_ok (stream_words s)"
  using device_link [OF assms] stream_words_ok by blast

theorem device_link_roundtrip_witness:
  "parseDeviceAddress ads_def_documented ''UINT[]'' ''N=5 W P=851 V=Main.Waveform'' = Inr (Some example_address)"
proof -
  have ok: "link_ok Link_array example_address" "word_ok (addr_variable_name example_address)"
    by (simp_all add: link_ok_def word_ok_def example_address_def is_space_def)
  have "unwords (link_args Link_array example_address) = ''N=5 W P=851 V=Main.Waveform''"
    by (simp add: link_args_def link_args_at_def example_address_def dec_str_def show_base.simps digit_char_def
        link_operation_def char_of_eq_iff)
  moreover have "link_function Link_array (addr_data_type example_address) = ''UINT[]''"
    by (simp add: link_function_def example_address_def sm_get_def ads_datatypes_str_def)
  ultimately show ?thesis
    using device_link_roundtrip [OF ok link_port_dec, of ads_def_documented, folded link_args_def] by simp
qed

section \<open>When two links are the same variable\<close>

lemma autoparam_fields:
  assumes "ADSAddress_autoparam d func arguments = Inr a"
  shows "addr_index_group a = 0" and "addr_index_offset a = 0" and "addr_notification_delay a = 0"
    and "\<not> addr_name_is_resolved a" and "addr_variable_name a \<noteq> []" and "addr_nelem a \<noteq> 0"
    and "parse_data_type_autoparam func = Inr (addr_data_type a)" and "addr_data_type a \<noteq> T_UNKNOWN"
    and "wf_ads_def d \<Longrightarrow> addr_ads_port a < 2 ^ 16"
proof -
  obtain t opn port name n p q where "parse_data_type_autoparam func = Inr t"
      "parse_ads_port d p = Inr port" "parse_variable_name q = Inr name" "n < 2 ^ 32"
      "a = (blank_address t opn)\<lparr>addr_nelem := (if n = 0 then 1 else n), addr_ads_port := port,
           addr_variable_name := name\<rparr>"
    using assms by (rule autoparam_inv)
  then show "addr_index_group a = 0" "addr_index_offset a = 0" "addr_notification_delay a = 0"
    "\<not> addr_name_is_resolved a" "addr_variable_name a \<noteq> []" "addr_nelem a \<noteq> 0"
    "parse_data_type_autoparam func = Inr (addr_data_type a)" "addr_data_type a \<noteq> T_UNKNOWN"
    "wf_ads_def d \<Longrightarrow> addr_ads_port a < 2 ^ 16"
    using parse_data_type_known(2) [of func t] parse_ads_port_bound [of d p port]
      parse_variable_name_nonempty [of q name]
    by (simp_all add: blank_address_def)
qed

lemma parseDeviceAddress_Some:
  "parseDeviceAddress d func s = Inr (Some a) \<longleftrightarrow> ADSAddress_autoparam d func (stream_words s) = Inr a"
  by (auto simp: parseDeviceAddress_def split: sum.splits exn.splits)

text \<open>
  \<open>ADSDeviceAddress::operator==\<close>, which compares five fields, is equality: two links are
  parsed to the same address exactly when the operator says so. So two records share a device
  variable only if type, number of elements, operation, port and name all agree.
\<close>

theorem device_address_eq_exact:
  assumes "parseDeviceAddress d func s = Inr (Some a)" and "parseDeviceAddress d' func' s' = Inr (Some b)"
  shows "device_address_eq a b \<longleftrightarrow> a = b"
proof -
  note f = autoparam_fields [OF assms(1) [unfolded parseDeviceAddress_Some]]
    autoparam_fields [OF assms(2) [unfolded parseDeviceAddress_Some]]
  show ?thesis using f by (cases a; cases b) (auto simp: device_address_eq_def)
qed

theorem device_address_eq_exact_witness:
  "\<exists>a b. parseDeviceAddress ads_def_documented ''UINT[]'' (unwords (link_args Link_array example_address)) = Inr (Some a)
     \<and> device_address_eq a a \<and> \<not> device_address_eq a (b\<lparr>addr_nelem := 6\<rparr>)
     \<and> parseDeviceAddress ads_def_documented ''UINT[]''
         (unwords (link_args Link_array (b\<lparr>addr_nelem := 6\<rparr>))) = Inr (Some (b\<lparr>addr_nelem := 6\<rparr>))"
proof -
  let ?b = "example_address\<lparr>addr_nelem := 6\<rparr>"
  have ok: "link_ok Link_array example_address" "word_ok (addr_variable_name example_address)"
    "link_ok Link_array ?b" "word_ok (addr_variable_name ?b)"
    by (simp_all add: link_ok_def word_ok_def example_address_def is_space_def)
  have f: "link_function Link_array (addr_data_type example_address) = ''UINT[]''"
    "link_function Link_array (addr_data_type ?b) = ''UINT[]''"
    by (simp_all add: link_function_def example_address_def sm_get_def ads_datatypes_str_def)
  note p = device_link_dec [OF ok(1,2), of ads_def_documented, unfolded f]
    device_link_dec [OF ok(3,4), of ads_def_documented, unfolded f]
  have "example_address \<noteq> ?b" by (simp add: example_address_def)
  with device_address_eq_exact [OF p(1) p(1)] device_address_eq_exact [OF p(1) p(2)] p show ?thesis by blast
qed

section \<open>Device variables\<close>

text \<open>Without brackets and for anything but \<open>STRING\<close> there is one element.\<close>

lemma autoparam_scalar_nelem:
  assumes "ADSAddress_autoparam d func arguments = Inr a"
    and "\<not> (contains func ''[]'' \<or> contains func ''STRING'')"
  shows "addr_nelem a = 1"
proof -
  obtain t a1 a2 where a2: "finish_nelem a1 = Inr a2" "a = a2\<lparr>addr_name_is_resolved := False\<rparr>"
    and "\<exists>opn port name. a1 = (blank_address t opn)\<lparr>addr_nelem := 0, addr_ads_port := port, addr_variable_name := name\<rparr>"
    using assms unfolding ADSAddress_autoparam_def exn_bind_eq_Inr
    by (fastforce simp: exn_bind_eq_Inr split: if_splits)
  then show ?thesis by (auto dest!: finish_nelem_wf)
qed

lemma io_capacity_elem:
  assumes "io_intr_handler func (addr_data_type a) \<noteq> None"
    and "sm_find ads_datatype_sizes (addr_data_type a) = Some n"
  shows "n * addr_nelem a \<le> io_capacity func a
    \<or> \<not> (contains func ''[]'' \<or> contains func ''STRING'') \<and> n \<le> io_capacity func a"
  using assms
  by (cases "addr_data_type a")
    (auto simp: io_intr_handler_def io_capacity_def io_intr_array_def io_intr_digital_def io_intr_scalar_def
      ads_datatype_sizes_def split: if_splits)

lemma device_variable_size:
  assumes "ADSAddress_autoparam d func arguments = Inr a" and "ADSVariable g a = Inr v"
    and "io_intr_handler func (addr_data_type a) \<noteq> None"
  shows "var_size v \<le> io_capacity func a"
proof -
  have v: "var_addr v = a" "sm_find ads_datatype_sizes (addr_data_type a) = Some (var_elem_size v)"
    using ADSVariable_elem_size [OF assms(2)] by auto
  have "var_size v \<le> var_elem_size v * addr_nelem a"
    unfolding var_size_def v(1) u32_def by (rule mod_less_eq_dividend)
  with io_capacity_elem [OF assms(3) v(2)] autoparam_scalar_nelem [OF assms(1)] show ?thesis by auto
qed

lemma ADSVariable_ok: "addr_data_type a \<noteq> T_UNKNOWN \<Longrightarrow> \<exists>v. ADSVariable g a = Inr v"
  using datatype_sizes_known [of "addr_data_type a"] by (auto simp: ADSVariable_def sm_at_def)

text \<open>
  A device variable can always be made from a parsed link, and it fits: \<open>createDeviceVariable\<close>
  neither throws nor returns a null pointer, the variable gets a new number, is connected, has an
  unresolved name and nothing to be read back, is entered in exactly one of the lists of read and
  write variables, and is no larger than the memory into which \<open>performIOIntr\<close> reads for its
  function, whatever the number of elements is.
\<close>

theorem createDeviceVariable_fits:
  assumes "parseDeviceAddress d func s = Inr (Some a)"
  shows "\<exists>D' v. createDeviceVariable g func a D = Inr (Some (d_next_var D), D')
    \<and> h_vars (d_heap D') = (h_vars (d_heap D))(d_next_var D := v) \<and> var_addr v = a
    \<and> var_conn v \<and> \<not> addr_name_is_resolved a \<and> var_last_written v = []
    \<and> (d_read_vars D', d_write_vars D') =
        (if addr_operation a = Read then (d_read_vars D @ [d_next_var D], d_write_vars D)
         else (d_read_vars D, d_write_vars D @ [d_next_var D]))
    \<and> d_next_var D' = d_next_var D + 1
    \<and> (io_intr_handler func (addr_data_type a) \<noteq> None \<longrightarrow> var_size v \<le> io_capacity func a)"
proof -
  note a = assms [unfolded parseDeviceAddress_Some]
  note f = autoparam_fields [OF a]
  obtain v where v: "ADSVariable g a = Inr v" using ADSVariable_ok [OF f(8)] by blast
  have "var_size (set_connection True v) = var_size v" by (simp add: set_connection_def frame_simps)
  moreover have "var_addr v = a" "var_last_written v = []"
    using v by (auto simp: ADSVariable_def exn_bind_eq_Inr)
  ultimately have fits: "io_intr_handler func (addr_data_type a) \<noteq> None \<Longrightarrow>
      var_size (set_connection True v) \<le> io_capacity func a"
    using device_variable_size [OF a v] by simp
  have fields: "var_addr (set_connection True v) = a" "var_conn (set_connection True v)"
    "var_last_written (set_connection True v) = []"
    using \<open>var_addr v = a\<close> \<open>var_last_written v = []\<close> by (simp_all add: set_connection_def)
  have run: "createDeviceVariable g func a D = Inr (Some (d_next_var D),
      (let D1 = D\<lparr>d_heap := upd_var (d_next_var D) (\<lambda>_. set_connection True v) (d_heap D),
                  d_func := (d_func D)(d_next_var D := func), d_next_var := d_next_var D + 1\<rparr>
       in case addr_operation a of
            Read \<Rightarrow> D1\<lparr>d_read_vars := d_read_vars D @ [d_next_var D]\<rparr>
          | Write \<Rightarrow> D1\<lparr>d_write_vars := d_write_vars D @ [d_next_var D]\<rparr>))"
    using v by (simp add: createDeviceVariable_def Let_def)
  show ?thesis unfolding run using f(4) fits fields
    by (cases "addr_operation a") (auto simp: Let_def)
qed

text \<open>A new driver for concrete instances.\<close>

definition example_new :: "nat driver" where
  "example_new = projr (ADSPortDriver (\<lambda>_. [10, 0, 0, 1, 1, 1]) 0 ''10.0.0.1'' ''10.0.0.1.1.1'' 500 851 0 0 [] 10)"

lemma example_new_eq:
  "ADSPortDriver (\<lambda>_. [10, 0, 0, 1, 1, 1]) 0 ''10.0.0.1'' ''10.0.0.1.1.1'' 500 851 0 0 [] 10 = Inr example_new"
  by (simp add: example_new_def ADSPortDriver_def SumReadRequest_def)

lemma example_device_link:
  "parseDeviceAddress ads_def_documented ''UINT[]'' (unwords (link_args Link_array example_address)) = Inr (Some example_address)"
  using device_link_dec [of Link_array example_address ads_def_documented]
  by (simp add: link_ok_def word_ok_def example_address_def is_space_def link_function_def sm_get_def
      ads_datatypes_str_def)

lemma example_io_intr: "io_intr_handler ''UINT[]'' T_UINT = Some (Array_handler U16 I16)"
  by (simp add: io_intr_handler_def io_intr_array_def contains_def str_find_def npos_def)

theorem createDeviceVariable_fits_witness:
  "\<exists>D' v. createDeviceVariable 0 ''UINT[]'' example_address example_new = Inr (Some 0, D')
     \<and> h_vars (d_heap D') = (h_vars (d_heap example_new))(0 := v) \<and> var_size v \<le> 10"
proof -
  have "io_capacity ''UINT[]'' example_address = 10" "io_intr_handler ''UINT[]'' (addr_data_type example_address) \<noteq> None"
    by (simp_all add: io_capacity_def example_address_def example_io_intr)
  moreover have "d_next_var example_new = 0"
    by (simp add: example_new_def ADSPortDriver_def SumReadRequest_def)
  ultimately show ?thesis
    using createDeviceVariable_fits [OF example_device_link, of 0 example_new] by auto
qed

end
