(* ===== verification/Driver_Inv.thy ===== *)
theory Driver_Inv
  imports Driver_Links
begin

text \<open>
  The invariant of the driver, and that each of its operations keeps it and is free of undefined
  behaviour: creating variables, the hook, connecting, disconnecting, and the periodic reads.
\<close>

section \<open>Variables\<close>

text \<open>What is always true of the device variable for a function.\<close>

definition var_ok :: "string \<Rightarrow> ads_variable \<Rightarrow> bool" where
  "var_ok func v \<longleftrightarrow> var_conn v \<and> addr_variable_name (var_addr v) \<noteq> [] \<and> addr_ads_port (var_addr v) < 2 ^ 16
     \<and> (io_intr_handler func (addr_data_type (var_addr v)) \<noteq> None \<longrightarrow> var_size v \<le> io_capacity func (var_addr v))
     \<and> length (var_last_written v) \<le> var_size v"

text \<open>What no operation after the hook changes of a variable.\<close>

definition keeps :: "ads_variable \<Rightarrow> ads_variable \<Rightarrow> bool" where
  "keeps v v' \<longleftrightarrow> same_view v v' \<and> var_conn v' = var_conn v \<and> var_write_readback v' = var_write_readback v
     \<and> addr_variable_name (var_addr v') = addr_variable_name (var_addr v)
     \<and> addr_operation (var_addr v') = addr_operation (var_addr v)
     \<and> addr_data_type (var_addr v') = addr_data_type (var_addr v)
     \<and> addr_nelem (var_addr v') = addr_nelem (var_addr v)
     \<and> (length (var_last_written v) \<le> var_size v \<longrightarrow> length (var_last_written v') \<le> var_size v')"

lemma keeps_refl [simp]: "keeps v v"
  by (simp add: keeps_def)

lemma keeps_trans: "keeps v v1 \<Longrightarrow> keeps v1 v2 \<Longrightarrow> keeps v v2"
  by (auto simp: keeps_def same_view_def)

lemma io_capacity_cong:
  "addr_data_type a' = addr_data_type a \<Longrightarrow> addr_nelem a' = addr_nelem a \<Longrightarrow> io_capacity func a' = io_capacity func a"
  by (simp add: io_capacity_def split: option.splits handler.splits)

lemma keeps_var_ok: "keeps v v' \<Longrightarrow> var_ok func v \<Longrightarrow> var_ok func v'"
  using io_capacity_cong [of "var_addr v'" "var_addr v" func]
  by (auto simp: keeps_def var_ok_def same_view_def)

lemma keeps_resolved: "resolved_from d v v' \<Longrightarrow> keeps v v'"
  by (auto simp: resolved_from_def keeps_def same_view_def frame_simps)

lemma keeps_unresolved [simp]: "keeps v (unresolved v)"
  by (auto simp: unresolved_def keeps_def same_view_def frame_simps)

lemma keeps_last_written: "length bs \<le> var_size v \<Longrightarrow> keeps v (v\<lparr>var_last_written := bs\<rparr>)"
  by (auto simp: keeps_def same_view_def frame_simps)

lemma keeps_io_same:
  assumes "io_same v v'"
  shows "keeps v v'" and "var_addr v' = var_addr v"
  using io_same_view [OF assms] by (auto simp: keeps_def same_view_def)

section \<open>The invariant\<close>

definition all_vars :: "'e driver \<Rightarrow> nat set" where
  "all_vars D = {vid. vid < d_next_var D}"

text \<open>
  The invariant, over the store \<open>h\<close>, the request \<open>r\<close>, the flag \<open>initialized\<close>, the lists of read and write
  variables, their functions and their number.
\<close>

definition drv_inv ::
  "'e heap \<Rightarrow> sum_read_request \<Rightarrow> bool \<Rightarrow> nat list \<Rightarrow> nat list \<Rightarrow> (nat \<Rightarrow> string) \<Rightarrow> nat \<Rightarrow> bool" where
  "drv_inv h r init rs ws func n \<longleftrightarrow>
     req_ok h r \<and> fresh_bufs h \<and> distinct rs \<and> distinct ws \<and> set rs \<union> set ws = {vid. vid < n}
     \<and> (\<forall>vid < n. var_ok (func vid) (h_vars h vid))
     \<and> (\<forall>vid < n. vid \<in> set rs \<or> addr_operation (h_addr h vid) = Write \<and> \<not> var_write_readback (h_vars h vid))
     \<and> (\<forall>vid. vid \<notin> set (req_variables r) \<longrightarrow> h_reader h vid = EMPTY_BUFFER_DATA_POSITION)
     \<and> (init \<longrightarrow> req_allocated r \<and> set (req_variables r) = set rs \<and> all_bufs buf_initialized h (get_chunks r))
     \<and> (\<not> init \<longrightarrow> fresh_request r)"

definition drv_ok :: "'e driver \<Rightarrow> bool" where
  "drv_ok D \<longleftrightarrow> drv_inv (d_heap D) (d_req D) (d_init D) (d_read_vars D) (d_write_vars D) (d_func D) (d_next_var D)"

lemma drv_okD:
  assumes "drv_ok D"
  shows "req_ok (d_heap D) (d_req D)" and "fresh_bufs (d_heap D)" and "distinct (d_read_vars D)"
    and "distinct (d_write_vars D)" and "set (d_read_vars D) \<union> set (d_write_vars D) = all_vars D"
    and "vid \<in> all_vars D \<Longrightarrow> var_ok (d_func D vid) (h_vars (d_heap D) vid)"
    and "vid \<in> all_vars D \<Longrightarrow> vid \<in> set (d_read_vars D) \<or>
          addr_operation (h_addr (d_heap D) vid) = Write \<and> \<not> var_write_readback (h_vars (d_heap D) vid)"
    and "vid \<notin> set (req_variables (d_req D)) \<Longrightarrow> h_reader (d_heap D) vid = EMPTY_BUFFER_DATA_POSITION"
    and "d_init D \<Longrightarrow> req_allocated (d_req D)"
    and "d_init D \<Longrightarrow> set (req_variables (d_req D)) = set (d_read_vars D)"
    and "d_init D \<Longrightarrow> all_bufs buf_initialized (d_heap D) (get_chunks (d_req D))"
    and "\<not> d_init D \<Longrightarrow> fresh_request (d_req D)"
  using assms unfolding drv_ok_def drv_inv_def all_vars_def by blast+

definition named_unresolved :: "'e driver \<Rightarrow> bool" where
  "named_unresolved D \<longleftrightarrow> (\<forall>vid \<in> all_vars D. \<not> is_resolved (d_heap D) vid)"

text \<open>
  Connected: everything is resolved, to numbers of 32 bits, and the request asks for exactly what was
  resolved.
\<close>

definition up :: "'e driver \<Rightarrow> bool" where
  "up D \<longleftrightarrow> is_connected (d_heap D) \<and> d_init D \<and> req_initialized (d_req D)
     \<and> (\<forall>vid \<in> all_vars D. is_resolved (d_heap D) vid \<and> fits32 (var_request (d_heap D) vid))
     \<and> complete_request (d_heap D) (d_req D)"

text \<open>Disconnected: no name is resolved, except while the driver exits.\<close>

definition down :: "'e driver \<Rightarrow> bool" where
  "down D \<longleftrightarrow> \<not> is_connected (d_heap D) \<and> \<not> req_initialized (d_req D) \<and> (d_exit D \<or> named_unresolved D)"

text \<open>What an operation of the scan thread leaves alone.\<close>

definition same_driver :: "'e driver \<Rightarrow> 'e driver \<Rightarrow> bool" where
  "same_driver D D' \<longleftrightarrow> d_exit D' = d_exit D \<and> d_init D' = d_init D \<and> d_read_vars D' = d_read_vars D
     \<and> d_write_vars D' = d_write_vars D \<and> d_func D' = d_func D \<and> d_next_var D' = d_next_var D
     \<and> d_netid D' = d_netid D \<and> d_ip D' = d_ip D \<and> d_read_port D' = d_read_port D
     \<and> (\<forall>vid. keeps (h_vars (d_heap D) vid) (h_vars (d_heap D') vid))"

lemma same_driver_refl [simp]: "same_driver D D"
  by (simp add: same_driver_def)

lemma same_driver_trans: "same_driver D D1 \<Longrightarrow> same_driver D1 D2 \<Longrightarrow> same_driver D D2"
  unfolding same_driver_def using keeps_trans by metis

lemma same_driver_vars [simp]: "same_driver D D' \<Longrightarrow> all_vars D' = all_vars D"
  by (simp add: same_driver_def all_vars_def)

text \<open>A new store that keeps the variables, and a request that keeps the chunks.\<close>

lemma drv_inv_heap:
  assumes "drv_inv h r init rs ws func n" and "h_bufs h' = h_bufs h" and "h_next_buf h' = h_next_buf h"
    and "\<And>vid. keeps (h_vars h vid) (h_vars h' vid)"
  shows "drv_inv h' r init rs ws func n"
proof -
  have sv: "\<And>v. same_view (h_vars h v) (h_vars h' v)"
    using assms(4) by (simp add: keeps_def)
  have ok: "req_ok h' r"
    using assms(1) by (intro req_ok_cong_vars [OF _ assms(2,3) sv]) (simp add: drv_inv_def)
  have rd: "h_reader h' = h_reader h"
  proof
    show "h_reader h' v = h_reader h v" for v
      using sv [of v] by (simp add: same_view_def h_reader_def)
  qed
  have "h_buf h' = h_buf h" using assms(2) by (simp add: h_buf_def fun_eq_iff)
  then have bufs: "all_bufs P h' cs = all_bufs P h cs" for P cs by (simp add: all_bufs_def)
  have fresh: "fresh_bufs h' = fresh_bufs h"
    using assms(2,3) by (simp add: fresh_bufs_def)
  have op: "addr_operation (h_addr h' vid) = addr_operation (h_addr h vid)"
    "var_write_readback (h_vars h' vid) = var_write_readback (h_vars h vid)" for vid
    using assms(4) [of vid] by (simp_all add: keeps_def h_addr_def)
  have "\<forall>vid < n. var_ok (func vid) (h_vars h vid)"
    using assms(1) unfolding drv_inv_def by - (elim conjE)
  then have vars: "\<forall>vid < n. var_ok (func vid) (h_vars h' vid)"
    by (intro allI impI keeps_var_ok [OF assms(4)]) simp
  show ?thesis
    using assms(1) ok vars unfolding drv_inv_def rd bufs fresh op
    by - (elim conjE, (intro conjI; assumption))
qed

lemma drv_ok_heap:
  assumes "drv_ok D" and "h_bufs h' = h_bufs (d_heap D)" and "h_next_buf h' = h_next_buf (d_heap D)"
    and "\<And>vid. keeps (h_vars (d_heap D) vid) (h_vars h' vid)"
  shows "drv_ok (D\<lparr>d_heap := h'\<rparr>)" and "same_driver D (D\<lparr>d_heap := h'\<rparr>)"
  using drv_inv_heap [OF _ assms(2-4)] assms(1,4) by (simp_all add: drv_ok_def same_driver_def)

lemma drv_ok_req:
  assumes "drv_ok D" and "same_chunks (d_req D) r'" and "req_allocated r' = req_allocated (d_req D)"
    and "d_init D \<or> \<not> req_initialized r'"
  shows "drv_ok (D\<lparr>d_req := r'\<rparr>)" and "same_driver D (D\<lparr>d_req := r'\<rparr>)"
proof -
  note s = same_chunks_ok [OF assms(2)]
  have "map chunk_buffer (get_chunks r') = map chunk_buffer (get_chunks (d_req D))"
    using s(2) by (simp add: req_buffers_def)
  then have "chunk_buffer ` set (get_chunks r') = chunk_buffer ` set (get_chunks (d_req D))"
    by (metis list.set_map)
  then have b: "all_bufs P (d_heap D) (get_chunks r') = all_bufs P (d_heap D) (get_chunks (d_req D))" for P
    unfolding all_bufs_def by (metis (mono_tags, opaque_lifting) image_iff)
  have f: "fresh_request r'" if "fresh_request (d_req D)" "\<not> req_initialized r'"
    using that assms(2,3) by (auto simp: fresh_request_def same_chunks_def)
  have "drv_inv (d_heap D) r' (d_init D) (d_read_vars D) (d_write_vars D) (d_func D) (d_next_var D)"
    using assms(1,3,4) s f unfolding drv_ok_def drv_inv_def s(1) b by blast
  then show "drv_ok (D\<lparr>d_req := r'\<rparr>)" by (simp add: drv_ok_def)
  show "same_driver D (D\<lparr>d_req := r'\<rparr>)" by (simp add: same_driver_def)
qed

lemma drv_ok_info [simp]:
  "drv_ok (D\<lparr>d_exit := b\<rparr>) = drv_ok D" "drv_ok (D\<lparr>d_ads_state := x\<rparr>) = drv_ok D"
  "drv_ok (D\<lparr>d_device_state := x\<rparr>) = drv_ok D" "drv_ok (D\<lparr>d_device_info := s\<rparr>) = drv_ok D"
  "drv_ok (D\<lparr>d_ads_version := xs\<rparr>) = drv_ok D"
  by (simp_all add: drv_ok_def)

lemma up_info [simp]:
  "up (D\<lparr>d_ads_state := x\<rparr>) = up D" "up (D\<lparr>d_device_state := x\<rparr>) = up D"
  "up (D\<lparr>d_device_info := s\<rparr>) = up D" "up (D\<lparr>d_ads_version := xs\<rparr>) = up D" "up (D\<lparr>d_exit := b\<rparr>) = up D"
  by (simp_all add: up_def all_vars_def)

text \<open>Changes of the ADS library's state alone are invisible.\<close>

lemma env_only:
  assumes "h' = h\<lparr>h_env := e\<rparr>"
  shows "h_vars h' = h_vars h" "h_bufs h' = h_bufs h" "h_next_buf h' = h_next_buf h"
    "is_connected h' = is_connected h" "is_resolved h' = is_resolved h"
    "complete_request h' r = complete_request h r" "var_request h' = var_request h"
proof -
  show "h_vars h' = h_vars h" "h_bufs h' = h_bufs h" "h_next_buf h' = h_next_buf h"
    and "is_connected h' = is_connected h" "is_resolved h' = is_resolved h"
    using assms by (simp_all add: is_connected_def is_resolved_def fun_eq_iff h_addr_def)
  show "var_request h' = var_request h"
    using assms by (simp add: fun_eq_iff var_request_def h_addr_def)
  then show "complete_request h' r = complete_request h r" by (simp add: complete_request_def)
qed

lemma drv_ok_env [simp]: "drv_ok D \<Longrightarrow> drv_ok (D\<lparr>d_heap := (d_heap D)\<lparr>h_env := e\<rparr>\<rparr>)"
  by (rule drv_ok_heap(1)) simp_all

lemma up_env [simp]: "up (D\<lparr>d_heap := (d_heap D)\<lparr>h_env := e\<rparr>\<rparr>) = up D"
  using env_only(4-7) [OF refl, where h = "d_heap D" and e = e] by (simp add: up_def all_vars_def)

lemma same_driver_env [simp]: "same_driver D (D\<lparr>d_heap := (d_heap D)\<lparr>h_env := e\<rparr>\<rparr>)"
  by (simp add: same_driver_def)

end
