(* ===== verification/Driver_Setup.thy ===== *)
theory Driver_Setup
  imports Driver_Inv
begin

text \<open>
  Before the IOC runs: a new driver satisfies the invariant, creating device variables keeps it,
  and the hook allocates the request for exactly the variables to be read.
\<close>

section \<open>A new driver\<close>

text \<open>Until the hook has run, the lists are sorted by operation and nothing is read back.\<close>

definition pre_hook :: "'e driver \<Rightarrow> bool" where
  "pre_hook D \<longleftrightarrow> \<not> d_init D
     \<and> (\<forall>vid \<in> set (d_read_vars D). addr_operation (h_addr (d_heap D) vid) = Read)"

lemma no_reader [simp]: "h_reader \<lparr>h_env = e, h_conn = c, h_vars = (\<lambda>_. no_variable), h_bufs = b, h_next_buf = n\<rparr> vid
    = EMPTY_BUFFER_DATA_POSITION"
  by (simp add: h_reader_def no_variable_def)

lemma ADSPortDriver_ok:
  assumes "ADSPortDriver parse_netid st ip ams n port p0 us uv e = Inr D" and "n < 2 ^ 16"
  shows "drv_ok D" and "pre_hook D" and "down D" and "\<not> d_exit D" and "\<not> d_init D"
proof -
  obtain r where r: "SumReadRequest n True = Inr r"
    using assms(1) by (auto simp: ADSPortDriver_def exn_bind_eq_Inr)
  then have fresh: "fresh_request r" using assms(2)
    by (auto simp: SumReadRequest_def fresh_request_def split: if_splits)
  note D = assms(1) [unfolded ADSPortDriver_def r exn_bind_Inr, symmetric]
  show "pre_hook D" "\<not> d_exit D" "\<not> d_init D" using D by (auto simp: pre_hook_def)
  show "drv_ok D" using D fresh fresh_request_ok [OF fresh]
    by (auto simp: drv_ok_def drv_inv_def fresh_bufs_def)
  show "down D" using D fresh
    by (auto simp: down_def is_connected_def named_unresolved_def all_vars_def fresh_request_def)
qed

section \<open>Creating a variable\<close>

lemma h_addr_upd [simp]:
  "h_addr (upd_var vid f h) v = (if v = vid then var_addr (f (h_vars h vid)) else h_addr h v)"
  "h_reader (upd_var vid f h) v = (if v = vid then var_buffer_reader (f (h_vars h vid)) else h_reader h v)"
  "is_connected (upd_var vid f h) = is_connected h" "fresh_bufs (upd_var vid f h) = fresh_bufs h"
  by (simp_all add: h_addr_def h_reader_def is_connected_def fresh_bufs_def)

lemma createDeviceVariable_ok:
  assumes ok: "drv_ok D" and pre: "pre_hook D" and wf: "wf_ads_def d"
    and parse: "parseDeviceAddress d func s = Inr (Some a)"
    and make: "createDeviceVariable g func a D = Inr (x, D')"
  shows "drv_ok D'" and "pre_hook D'" and "down D \<Longrightarrow> down D'" and "d_exit D' = d_exit D"
proof -
  note f = autoparam_fields [OF parse [unfolded parseDeviceAddress_Some]]
  obtain v where v: "ADSVariable g a = Inr v" using ADSVariable_ok [OF f(8)] by blast
  let ?n = "d_next_var D" and ?v = "set_connection True v"
  have va: "var_addr ?v = a" "var_conn ?v" "var_buffer_reader ?v = EMPTY_BUFFER_DATA_POSITION"
    "\<not> var_write_readback ?v" "var_last_written ?v = []" "var_size ?v = var_size v"
    using v by (auto simp: ADSVariable_def exn_bind_eq_Inr set_connection_def frame_simps)
  have vok: "var_ok func ?v"
    using va f(5) f(9) [OF wf] device_variable_size [OF parse [unfolded parseDeviceAddress_Some] v]
    by (simp add: var_ok_def)
  define D1 where "D1 = D\<lparr>d_heap := upd_var ?n (\<lambda>_. ?v) (d_heap D), d_func := (d_func D)(?n := func), d_next_var := ?n + 1\<rparr>"
  have D': "D' = (case addr_operation a of Read \<Rightarrow> D1\<lparr>d_read_vars := d_read_vars D @ [?n]\<rparr>
      | Write \<Rightarrow> D1\<lparr>d_write_vars := d_write_vars D @ [?n]\<rparr>)"
    using make v by (cases "addr_operation a") (simp_all add: createDeviceVariable_def Let_def D1_def)
  have fresh: "fresh_request (d_req D)" and ni: "\<not> d_init D"
    using pre drv_okD(12) [OF ok] by (auto simp: pre_hook_def)
  note o = drv_okD [OF ok]
  have notin: "?n \<notin> set (d_read_vars D)" "?n \<notin> set (d_write_vars D)"
    using o(5) by (auto simp: all_vars_def)
  have vars: "var_ok (d_func D vid) (h_vars (d_heap D) vid)"
    "vid \<in> set (d_read_vars D) \<or> addr_operation (h_addr (d_heap D) vid) = Write \<and> \<not> var_write_readback (h_vars (d_heap D) vid)"
    if "vid < ?n" for vid using o(6,7) [of vid] that by (auto simp: all_vars_def)
  have reader: "h_reader (d_heap D) vid = EMPTY_BUFFER_DATA_POSITION" for vid
    using o(8) [of vid] fresh_request_empty(2) [OF fresh] by simp
  have sets: "{vid. vid < ?n + 1} = insert ?n (set (d_read_vars D) \<union> set (d_write_vars D))"
    unfolding o(5) all_vars_def by auto
  have all: "drv_inv (upd_var ?n (\<lambda>_. ?v) (d_heap D)) (d_req D) False rs ws ((d_func D)(?n := func)) (?n + 1)"
    if l: "distinct rs" "distinct ws" "set rs \<union> set ws = {vid. vid < ?n + 1}" "set (d_read_vars D) \<subseteq> set rs"
      "?n \<in> set rs \<or> addr_operation a = Write" for rs ws
    unfolding drv_inv_def
  proof (intro conjI)
    show "\<forall>vid<?n + 1. var_ok (((d_func D)(?n := func)) vid) (h_vars (upd_var ?n (\<lambda>_. ?v) (d_heap D)) vid)"
      using vok vars(1) by (auto simp: less_Suc_eq)
    show "\<forall>vid<?n + 1. vid \<in> set rs \<or> addr_operation (h_addr (upd_var ?n (\<lambda>_. ?v) (d_heap D)) vid) = Write
        \<and> \<not> var_write_readback (h_vars (upd_var ?n (\<lambda>_. ?v) (d_heap D)) vid)"
      using l va vars(2) by (auto simp: less_Suc_eq)
    show "\<forall>vid. vid \<notin> set (req_variables (d_req D)) \<longrightarrow>
        h_reader (upd_var ?n (\<lambda>_. ?v) (d_heap D)) vid = EMPTY_BUFFER_DATA_POSITION"
      using reader va by simp
  qed (use l fresh fresh_request_ok o(2) in simp_all)
  show "drv_ok D'"
  proof (cases "addr_operation a")
    case Read
    then show ?thesis
      using all [of "d_read_vars D @ [?n]" "d_write_vars D"] o(3,4) notin sets ni
      by (auto simp: D' D1_def drv_ok_def)
  next
    case Write
    then show ?thesis
      using all [of "d_read_vars D" "d_write_vars D @ [?n]"] o(3,4) notin sets ni
      by (auto simp: D' D1_def drv_ok_def)
  qed
  show "pre_hook D'" using pre notin va
    by (cases "addr_operation a") (auto simp: D' D1_def pre_hook_def)
  show "d_exit D' = d_exit D" by (cases "addr_operation a") (simp_all add: D' D1_def)
  have "\<not> is_resolved (d_heap D') ?n" "vid \<noteq> ?n \<Longrightarrow> is_resolved (d_heap D') vid = is_resolved (d_heap D) vid" for vid
    using va f(4) by (cases "addr_operation a"; simp add: D' D1_def is_resolved_def)+
  then show "down D'" if "down D"
    using that by (cases "addr_operation a")
      (auto simp: D' D1_def down_def named_unresolved_def all_vars_def less_Suc_eq)
qed

section \<open>The hook\<close>

definition hook_vars :: "'e driver \<Rightarrow> nat list \<Rightarrow> nat list" where
  "hook_vars D vs = filter (\<lambda>vid. addr_operation (h_addr (d_heap D) vid) = Write) vs"

lemma foldl_hook_var:
  "foldl hook_var D vs = D\<lparr>d_read_vars := d_read_vars D @ hook_vars D vs,
     d_heap := (d_heap D)\<lparr>h_vars := (\<lambda>vid. if vid \<in> set (hook_vars D vs)
        then set_write_readback True (h_vars (d_heap D) vid) else h_vars (d_heap D) vid)\<rparr>\<rparr>"
proof (induction vs arbitrary: D)
  case Nil
  then show ?case by (simp add: hook_vars_def)
next
  case (Cons vid vs)
  have "h_addr (d_heap (hook_var D vid)) = h_addr (d_heap D)"
    by (auto simp: hook_var_def fun_eq_iff set_write_readback_def h_addr_def)
  then have "hook_vars (hook_var D vid) vs = hook_vars D vs" by (simp add: hook_vars_def)
  then have step: "foldl hook_var D (vid # vs) = (hook_var D vid)\<lparr>
     d_read_vars := d_read_vars (hook_var D vid) @ hook_vars D vs,
     d_heap := (d_heap (hook_var D vid))\<lparr>h_vars := (\<lambda>w. if w \<in> set (hook_vars D vs)
        then set_write_readback True (h_vars (d_heap (hook_var D vid)) w)
        else h_vars (d_heap (hook_var D vid)) w)\<rparr>\<rparr>"
    using Cons [of "hook_var D vid"] by simp
  show ?case
  proof (cases "addr_operation (h_addr (d_heap D) vid) = Write")
    case False
    then have h: "hook_vars D (vid # vs) = hook_vars D vs" "hook_var D vid = D"
      by (simp_all add: hook_var_def hook_vars_def)
    show ?thesis unfolding step h ..
  next
    case True
    then have h: "hook_vars D (vid # vs) = vid # hook_vars D vs"
      "hook_var D vid = D\<lparr>d_heap := upd_var vid (set_write_readback True) (d_heap D),
             d_read_vars := d_read_vars D @ [vid]\<rparr>" by (simp_all add: hook_var_def hook_vars_def)
    have feq: "(\<lambda>w. if w \<in> set (hook_vars D vs) then set_write_readback True (h_vars (d_heap (hook_var D vid)) w)
          else h_vars (d_heap (hook_var D vid)) w)
      = (\<lambda>w. if w \<in> set (vid # hook_vars D vs) then set_write_readback True (h_vars (d_heap D) w)
           else h_vars (d_heap D) w)"
      by (auto simp: h fun_eq_iff set_write_readback_def)
    show ?thesis unfolding step feq h(1) unfolding h(2) by (simp add: upd_var_def)
  qed
qed

lemma hook_heap:
  assumes ok: "drv_ok D" and pre: "pre_hook D" and vs: "set vs \<subseteq> all_vars D" "distinct vs"
    and h: "h = (d_heap D)\<lparr>h_vars := (\<lambda>vid. if vid \<in> set (hook_vars D vs)
        then set_write_readback True (h_vars (d_heap D) vid) else h_vars (d_heap D) vid)\<rparr>"
  shows "distinct (d_read_vars D @ hook_vars D vs)"
    and "set (d_read_vars D @ hook_vars D vs) \<union> set (d_write_vars D) = all_vars D"
    and "allocatable h (d_read_vars D @ hook_vars D vs)"
    and "vid \<in> all_vars D \<Longrightarrow> var_ok (d_func D vid) (h_vars h vid)"
    and "vid \<in> all_vars D \<Longrightarrow> vid \<in> set (d_read_vars D @ hook_vars D vs) \<or>
          addr_operation (h_addr h vid) = Write \<and> \<not> var_write_readback (h_vars h vid)"
    and "h_reader h vid = EMPTY_BUFFER_DATA_POSITION" and "h_addr h = h_addr (d_heap D)"
proof -
  note o = drv_okD [OF ok]
  have fresh: "fresh_request (d_req D)" using pre o(12) by (simp add: pre_hook_def)
  show dist: "distinct (d_read_vars D @ hook_vars D vs)"
    using o(3) pre vs(2) by (auto simp: hook_vars_def pre_hook_def)
  have sub: "set (hook_vars D vs) \<subseteq> all_vars D" using vs(1) by (auto simp: hook_vars_def)
  show sets: "set (d_read_vars D @ hook_vars D vs) \<union> set (d_write_vars D) = all_vars D"
    using sub unfolding o(5) [symmetric] by auto
  show addr: "h_addr h = h_addr (d_heap D)"
    by (auto simp: h h_addr_def fun_eq_iff set_write_readback_def)
  have rd: "h_reader h vid = h_reader (d_heap D) vid" for vid
    by (auto simp: h h_reader_def set_write_readback_def)
  then show reader: "h_reader h vid = EMPTY_BUFFER_DATA_POSITION" for vid
    using o(8) [of vid] fresh_request_empty(2) [OF fresh] by simp
  show "var_ok (d_func D vid) (h_vars h vid)" if "vid \<in> all_vars D" for vid
    using o(6) [OF that] by (auto simp: h var_ok_def set_write_readback_def frame_simps)
  then have port: "addr_ads_port (h_addr h vid) < 2 ^ 16" if "vid \<in> all_vars D" for vid
    using that by (simp add: var_ok_def h_addr_def)
  have fb: "fresh_bufs h" using o(2) by (simp add: h fresh_bufs_def)
  show "allocatable h (d_read_vars D @ hook_vars D vs)"
    unfolding allocatable_def
  proof (intro conjI ballI)
    fix vid assume "vid \<in> set (d_read_vars D @ hook_vars D vs)"
    then have "vid \<in> all_vars D" using sets by blast
    then show "addr_ads_port (h_addr h vid) < 2 ^ 16" by (rule port)
    show "h_reader h vid = EMPTY_BUFFER_DATA_POSITION" by (rule reader)
  qed (use dist fb in blast)+
  show "vid \<in> set (d_read_vars D @ hook_vars D vs) \<or>
      addr_operation (h_addr h vid) = Write \<and> \<not> var_write_readback (h_vars h vid)" if "vid \<in> all_vars D" for vid
    using o(7) [OF that] unfolding addr by (auto simp: h)
qed

lemma initHook_total:
  assumes ok: "drv_ok D" and pre: "pre_hook D" and vs: "set vs \<subseteq> all_vars D" "distinct vs"
    and mem: "request_mem mem"
  shows "\<exists>D'. initHook mem vs D = Inr D' \<and> drv_ok D' \<and> (mem = (\<lambda>_. True) \<longrightarrow> d_init D')
    \<and> d_read_vars D' = d_read_vars D @ hook_vars D vs \<and> d_write_vars D' = d_write_vars D
    \<and> d_exit D' = d_exit D \<and> all_vars D' = all_vars D \<and> (down D \<longrightarrow> down D')
    \<and> (\<forall>vid \<in> set (hook_vars D vs). var_write_readback (h_vars (d_heap D') vid))
    \<and> h_addr (d_heap D') = h_addr (d_heap D) \<and> d_netid D' = d_netid D \<and> d_func D' = d_func D"
proof -
  define h where h: "h = (d_heap D)\<lparr>h_vars := (\<lambda>vid. if vid \<in> set (hook_vars D vs)
        then set_write_readback True (h_vars (d_heap D) vid) else h_vars (d_heap D) vid)\<rparr>"
  let ?rs = "d_read_vars D @ hook_vars D vs"
  note hh = hook_heap [OF ok pre vs h]
  have ni: "\<not> d_init D" and fresh: "fresh_request (d_req D)"
    using pre drv_okD(12) [OF ok] by (auto simp: pre_hook_def)
  obtain rc h2 r2 where run: "allocate mem ?rs h (d_req D) = Inr (rc, h2, r2)" and conn: "h_conn h2 = h_conn h"
    and vars: "\<forall>v. \<exists>pos. h_vars h2 v = set_buffer_reader pos (h_vars h v)"
    and other: "\<forall>v. v \<notin> set ?rs \<longrightarrow> h_vars h2 v = h_vars h v" and fb: "fresh_bufs h2"
    and enough: "mem = (\<lambda>_. True) \<longrightarrow> rc = 0"
    and res: "if rc = 0 then req_ok h2 r2 \<and> req_allocated r2 \<and> \<not> req_initialized r2 \<and> set (req_variables r2) = set ?rs
         \<and> all_bufs (\<lambda>b. buf_initialized b \<and> buf_state b = Buf_Invalid) h2 (get_chunks r2)
       else rc = EPICSADS_ERROR \<and> h_vars h2 = h_vars h \<and> h_bufs h2 = h_bufs h
         \<and> fresh_request r2"
    using allocate_total [OF fresh hh(3) mem] by (elim exE conjE) (rule that)
  define D2 where "D2 = D\<lparr>d_read_vars := ?rs, d_heap := h2, d_req := r2, d_init := (rc = 0)\<rparr>"
  have init: "initHook mem vs D = Inr D2"
    unfolding initHook_def foldl_hook_var h [symmetric] using ni run
    by (cases "rc = 0"; cases D) (simp_all add: D2_def Let_def)
  have v2: "h_addr h2 vid = h_addr h vid" "var_ok f (h_vars h2 vid) = var_ok f (h_vars h vid)"
    "var_write_readback (h_vars h2 vid) = var_write_readback (h_vars h vid)" for vid f
    using vars [rule_format, of vid] by (auto simp: h_addr_def set_buffer_reader_def var_ok_def frame_simps)
  have reader: "h_reader h2 vid = EMPTY_BUFFER_DATA_POSITION" if "vid \<notin> set ?rs \<or> rc \<noteq> 0" for vid
    using that hh(6) [of vid] other res by (auto simp: h_reader_def split: if_splits)
  have ok2: "req_ok h2 r2" using res fresh_request_ok [of r2 h2] by (auto split: if_splits)
  have dn: "\<And>vid. vid < d_next_var D \<longleftrightarrow> vid \<in> all_vars D" by (simp add: all_vars_def)
  have "drv_inv h2 r2 (rc = 0) ?rs (d_write_vars D) (d_func D) (d_next_var D)"
    unfolding drv_inv_def dn v2
  proof (intro conjI)
    show "set ?rs \<union> set (d_write_vars D) = {vid. vid \<in> all_vars D}" using hh(2) by simp
    show "\<forall>vid. vid \<in> all_vars D \<longrightarrow> var_ok (d_func D vid) (h_vars h vid)" using hh(4) by blast
    show "\<forall>vid. vid \<in> all_vars D \<longrightarrow> vid \<in> set ?rs \<or> addr_operation (h_addr h vid) = Write
      \<and> \<not> var_write_readback (h_vars h vid)" using hh(5) by blast
    show "\<forall>vid. vid \<notin> set (req_variables r2) \<longrightarrow> h_reader h2 vid = EMPTY_BUFFER_DATA_POSITION"
      using reader res by (auto split: if_splits)
    show "rc = 0 \<longrightarrow> req_allocated r2 \<and> set (req_variables r2) = set ?rs \<and> all_bufs buf_initialized h2 (get_chunks r2)"
      using res by (auto simp: all_bufs_def split: if_splits)
    show "rc \<noteq> 0 \<longrightarrow> fresh_request r2" using res by simp
  qed (use ok2 fb hh(1) drv_okD(4) [OF ok] in simp_all)
  then have inv: "drv_ok D2" by (simp add: D2_def drv_ok_def)
  have addr2: "h_addr h2 = h_addr (d_heap D)" using v2(1) hh(7) by (simp add: fun_eq_iff)
  have ri: "\<not> req_initialized r2" using res by (auto simp: fresh_request_def split: if_splits)
  have down2: "down D2" if "down D"
    using that ri conn addr2
    by (auto simp: D2_def down_def is_connected_def named_unresolved_def all_vars_def is_resolved_def h)
  show ?thesis
  proof (intro exI [of _ D2] conjI)
    show "\<forall>vid \<in> set (hook_vars D vs). var_write_readback (h_vars (d_heap D2) vid)"
      by (simp add: D2_def v2(3)) (simp add: h set_write_readback_def)
  qed (use init inv down2 enough addr2 in \<open>simp_all add: D2_def all_vars_def\<close>)
qed

text \<open>
  The hook prepares the driver in one go: whichever buffers cannot be had, as long as the vectors of
  a chunk can grow (\<open>request_mem\<close>), it throws nothing and keeps
  the driver's invariant. Every write variable with an interrupt record is put on the list of
  variables to be read and marked for read-back, once; if memory suffices the driver is initialised,
  and then the sum-read request holds exactly the variables of that list, each in its own slot. If
  memory does not suffice the driver stays uninitialised and the request is as new.
\<close>

theorem initHook_correct:
  assumes "drv_ok D" and "pre_hook D" and "set vs \<subseteq> all_vars D" and "distinct vs" and "request_mem mem"
  shows "\<exists>D'. initHook mem vs D = Inr D' \<and> drv_ok D' \<and> (mem = (\<lambda>_. True) \<longrightarrow> d_init D')
    \<and> d_read_vars D' = d_read_vars D @ filter (\<lambda>vid. addr_operation (h_addr (d_heap D) vid) = Write) vs
    \<and> (\<forall>vid \<in> set vs. addr_operation (h_addr (d_heap D) vid) = Write \<longrightarrow>
          var_write_readback (h_vars (d_heap D') vid))
    \<and> (if d_init D' then req_ok (d_heap D') (d_req D') \<and> set (req_variables (d_req D')) = set (d_read_vars D')
       else fresh_request (d_req D'))"
proof -
  obtain D' where D': "initHook mem vs D = Inr D'" "drv_ok D'" "mem = (\<lambda>_. True) \<longrightarrow> d_init D'"
    "d_read_vars D' = d_read_vars D @ hook_vars D vs"
    "\<forall>vid \<in> set (hook_vars D vs). var_write_readback (h_vars (d_heap D') vid)"
    using initHook_total [OF assms] by (elim exE conjE) (rule that)
  with drv_okD(1,10,12) [OF D'(2)] show ?thesis
    by (intro exI [of _ D']) (auto simp: hook_vars_def)
qed

text \<open>For concrete instances: a driver with one device variable, number 0, an output array.\<close>

definition example_made :: "nat driver" where
  "example_made = snd (projr (createDeviceVariable 0 ''UINT[]'' example_address example_new))"

lemma example_made_eq: "createDeviceVariable 0 ''UINT[]'' example_address example_new = Inr (Some 0, example_made)"
  by (simp add: example_made_def createDeviceVariable_def ADSVariable_def sm_at_def example_address_def
      ads_datatype_sizes_def example_new_def ADSPortDriver_def SumReadRequest_def Let_def)

lemma example_new_ok: "drv_ok example_new" "pre_hook example_new" "down example_new" "\<not> d_exit example_new"
  using ADSPortDriver_ok [OF example_new_eq] by simp_all

lemma example_made_ok: "drv_ok example_made" "pre_hook example_made" "down example_made" "\<not> d_exit example_made"
  using createDeviceVariable_ok [OF example_new_ok(1,2) wf_ads_def_documented example_device_link example_made_eq]
    example_new_ok by simp_all

lemma example_made_fields:
  "d_read_vars example_made = []" "d_write_vars example_made = [0]" "all_vars example_made = {0}"
  "addr_operation example_address = Write" "d_func example_made 0 = ''UINT[]''"
  "h_addr (d_heap example_made) 0 = example_address"
  by (auto simp: example_made_def createDeviceVariable_def ADSVariable_def sm_at_def example_address_def
      ads_datatype_sizes_def example_new_def ADSPortDriver_def SumReadRequest_def Let_def all_vars_def
      set_connection_def)

theorem initHook_correct_witness:
  "\<exists>D'. initHook (\<lambda>_. True) [0] example_made = Inr D' \<and> d_init D' \<and> d_read_vars D' = [0]
     \<and> set (req_variables (d_req D')) = {0}"
proof -
  have vs: "set [0] \<subseteq> all_vars example_made" "distinct [0 :: nat]" by (simp_all add: example_made_fields)
  obtain D' where "initHook (\<lambda>_. True) [0] example_made = Inr D'" "d_init D'"
      "d_read_vars D' = d_read_vars example_made @ filter (\<lambda>vid. addr_operation (h_addr (d_heap example_made) vid) = Write) [0]"
      "if d_init D' then req_ok (d_heap D') (d_req D') \<and> set (req_variables (d_req D')) = set (d_read_vars D')
       else fresh_request (d_req D')"
    using initHook_correct [OF example_made_ok(1,2) vs all_mem] by auto
  then show ?thesis by (intro exI [of _ D']) (simp add: example_made_fields)
qed

end
