(* ===== verification/Driver_Ops.thy ===== *)
theory Driver_Ops
  imports Driver_Setup
begin

text \<open>
  The operations of the scan thread: disconnecting always ends in the disconnected state, the
  periodic reads either succeed or disconnect, and connecting either reaches the connected state
  with valid data or leaves a state that disconnecting repairs. None of them runs into undefined
  behaviour.
\<close>

section \<open>Disconnecting\<close>

text \<open>What disconnecting needs: without a connection nothing is resolved.\<close>

definition closable :: "'e driver \<Rightarrow> bool" where
  "closable D \<longleftrightarrow> is_connected (d_heap D) \<or> d_exit D \<or> named_unresolved D"

lemma up_or_down_closable: "up D \<or> down D \<Longrightarrow> closable D"
  by (auto simp: up_def down_def closable_def)

lemma keeps_name: "keeps v v' \<Longrightarrow> addr_variable_name (var_addr v') = addr_variable_name (var_addr v)"
  by (simp add: keeps_def)

lemma unresolve_variables_ok:
  assumes "unresolve_variables d lib vids h = (rc, h')"
  shows "h_bufs h' = h_bufs h" and "h_next_buf h' = h_next_buf h" and "h_conn h' = h_conn h"
    and "keeps (h_vars h vid) (h_vars h' vid)"
    and "vid \<in> set vids \<or> \<not> is_resolved h vid \<Longrightarrow> addr_variable_name (h_addr h vid) \<noteq> [] \<Longrightarrow> \<not> is_resolved h' vid"
proof -
  have "same_rest h h' \<and> h_vars h' = (\<lambda>vid. if vid \<in> set vids then unresolved (h_vars h vid) else h_vars h vid)"
  proof (cases "vids = []")
    case True
    with assms show ?thesis by (simp add: unresolve_variables_def)
  next
    case False
    then obtain up errs where "unresolve_loop d lib vids (is_connected h) False h = (up, errs, h')"
      using assms by (auto simp: unresolve_variables_def split: prod.splits)
    from unresolve_loop_ok [OF this] show ?thesis by blast
  qed
  then show "h_bufs h' = h_bufs h" "h_next_buf h' = h_next_buf h" "h_conn h' = h_conn h"
    "keeps (h_vars h vid) (h_vars h' vid)"
    "vid \<in> set vids \<or> \<not> is_resolved h vid \<Longrightarrow> addr_variable_name (h_addr h vid) \<noteq> [] \<Longrightarrow> \<not> is_resolved h' vid"
    by (auto simp: same_rest_def is_resolved_def h_addr_def unresolved_named)
qed

lemma drv_ok_deinitialize:
  assumes "drv_ok D"
  shows "drv_ok (D\<lparr>d_req := snd (deinitialize (d_req D))\<rparr>)"
    and "same_driver D (D\<lparr>d_req := snd (deinitialize (d_req D))\<rparr>)"
    and "\<not> req_initialized (snd (deinitialize (d_req D)))"
proof -
  note s = deinitialize_ok [OF surjective_pairing [of "deinitialize (d_req D)"]]
  show "\<not> req_initialized (snd (deinitialize (d_req D)))" by (rule s(3))
  from drv_ok_req [OF assms s(2)] s(3,4)
  show "drv_ok (D\<lparr>d_req := snd (deinitialize (d_req D))\<rparr>)"
    "same_driver D (D\<lparr>d_req := snd (deinitialize (d_req D))\<rparr>)" by blast+
qed

text \<open>Unresolving both lists leaves no variable resolved.\<close>

lemma unresolve_lists_ok:
  assumes ok: "drv_ok D"
    and h1: "h1 = snd (unresolve_variables d lib (d_write_vars D) (snd (unresolve_variables d lib (d_read_vars D) (d_heap D))))"
  shows "h_bufs h1 = h_bufs (d_heap D)" and "h_next_buf h1 = h_next_buf (d_heap D)"
    and "keeps (h_vars (d_heap D) vid) (h_vars h1 vid)"
    and "vid \<in> all_vars D \<Longrightarrow> \<not> is_resolved h1 vid"
proof -
  let ?h0 = "snd (unresolve_variables d lib (d_read_vars D) (d_heap D))"
  note a = unresolve_variables_ok [OF surjective_pairing [of "unresolve_variables d lib (d_read_vars D) (d_heap D)"]]
  note b = unresolve_variables_ok [OF surjective_pairing [of "unresolve_variables d lib (d_write_vars D) ?h0"]]
  show "h_bufs h1 = h_bufs (d_heap D)" "h_next_buf h1 = h_next_buf (d_heap D)"
    using a(1,2) b(1,2) by (simp_all add: h1)
  show "keeps (h_vars (d_heap D) vid) (h_vars h1 vid)"
    using keeps_trans [OF a(4) b(4)] by (simp add: h1)
  show "\<not> is_resolved h1 vid" if v: "vid \<in> all_vars D"
  proof -
    have n: "addr_variable_name (h_addr (d_heap D) vid) \<noteq> []"
      using drv_okD(6) [OF ok v] by (simp add: var_ok_def h_addr_def)
    then have n0: "addr_variable_name (h_addr ?h0 vid) \<noteq> []"
      using keeps_name [OF a(4) [of vid]] by (simp add: h_addr_def)
    have "vid \<in> set (d_read_vars D) \<or> vid \<in> set (d_write_vars D)" using v drv_okD(5) [OF ok] by blast
    with a(5) [OF _ n] b(5) [OF _ n0] show ?thesis unfolding h1 by blast
  qed
qed

lemma same_conn_changes:
  assumes "disconnect lib h = (rc, h')"
  shows "h_vars (set_disconnected h') = h_vars h" and "h_bufs (set_disconnected h') = h_bufs h"
    and "h_next_buf (set_disconnected h') = h_next_buf h" and "\<not> is_connected (set_disconnected h')"
  using disconnect_ok [OF assms] set_disconnected_ok [of h'] by simp_all

lemma ADSDisconnect_ok:
  assumes ok: "drv_ok D" and cl: "closable D"
  shows "drv_ok (snd (ADSDisconnect d lib D))" and "down (snd (ADSDisconnect d lib D))"
    and "same_driver D (snd (ADSDisconnect d lib D))" and "fst (ADSDisconnect d lib D) = asynSuccess"
proof -
  let ?D1 = "D\<lparr>d_req := snd (deinitialize (d_req D))\<rparr>"
  note d1 = drv_ok_deinitialize [OF ok]
  have "drv_ok (snd (ADSDisconnect d lib D)) \<and> down (snd (ADSDisconnect d lib D))
    \<and> same_driver D (snd (ADSDisconnect d lib D)) \<and> fst (ADSDisconnect d lib D) = asynSuccess"
  proof (cases "\<not> d_exit D \<and> \<not> is_connected (d_heap D)")
    case True
    with d1 cl show ?thesis
      by (simp add: ADSDisconnect_def Let_def down_def closable_def named_unresolved_def all_vars_def)
  next
    case False
    define h1 where "h1 = (if d_exit D then d_heap D
      else snd (unresolve_variables d lib (d_write_vars D) (snd (unresolve_variables d lib (d_read_vars D) (d_heap D)))))"
    define h2 where "h2 = set_disconnected (snd (disconnect lib h1))"
    have run: "ADSDisconnect d lib D = (asynSuccess, ?D1\<lparr>d_heap := h2\<rparr>)"
      using False by (auto simp: ADSDisconnect_def Let_def h1_def h2_def)
    have h1: "h_bufs h1 = h_bufs (d_heap D)" "h_next_buf h1 = h_next_buf (d_heap D)"
      "keeps (h_vars (d_heap D) vid) (h_vars h1 vid)"
      "\<not> d_exit D \<Longrightarrow> vid \<in> all_vars D \<Longrightarrow> \<not> is_resolved h1 vid" for vid
      using unresolve_lists_ok [OF ok refl, where d = d and lib = lib] by (simp_all add: h1_def)
    note h2 = same_conn_changes [OF surjective_pairing [of "disconnect lib h1"], folded h2_def]
    have k: "keeps (h_vars (d_heap ?D1) vid) (h_vars h2 vid)" for vid using h1(3) h2(1) by simp
    have b: "h_bufs h2 = h_bufs (d_heap ?D1)" "h_next_buf h2 = h_next_buf (d_heap ?D1)"
      using h1(1,2) h2(2,3) by simp_all
    note e = drv_ok_heap [OF d1(1) b k]
    have "is_resolved h2 vid = is_resolved h1 vid" for vid using h2(1) by (simp add: is_resolved_def h_addr_def)
    then have "down (?D1\<lparr>d_heap := h2\<rparr>)"
      using h1(4) h2(4) d1(3) by (auto simp: down_def named_unresolved_def all_vars_def)
    with e same_driver_trans [OF d1(2) e(2)] show ?thesis by (simp add: run)
  qed
  then show "drv_ok (snd (ADSDisconnect d lib D))" "down (snd (ADSDisconnect d lib D))"
    "same_driver D (snd (ADSDisconnect d lib D))" "fst (ADSDisconnect d lib D) = asynSuccess" by blast+
qed

section \<open>Sum-read\<close>

lemma asyn_of_rc_success [simp]: "asyn_of_rc rc = asynSuccess \<longleftrightarrow> rc = 0" "asynSuccess = asyn_of_rc rc \<longleftrightarrow> rc = 0"
  by (simp_all add: asyn_of_rc_def)

lemma drv_ok_read:
  assumes ok: "drv_ok D" and init: "d_init D" and rq: "req_ok h' (d_req D)" and frame: "read_frame (d_req D) (d_heap D) h'"
    and bufs: "all_bufs buf_initialized h' (get_chunks (d_req D))"
  shows "drv_ok (D\<lparr>d_heap := h'\<rparr>)" and "same_driver D (D\<lparr>d_heap := h'\<rparr>)" and "up (D\<lparr>d_heap := h'\<rparr>) = up D"
proof -
  have v: "h_vars h' = h_vars (d_heap D)" "h_conn h' = h_conn (d_heap D)" "h_next_buf h' = h_next_buf (d_heap D)"
    "\<And>bid. bid \<notin> set (req_buffers (d_req D)) \<Longrightarrow> h_bufs h' bid = h_bufs (d_heap D) bid"
    using frame by (simp_all add: read_frame_def)
  have same: "h_addr h' = h_addr (d_heap D)" "h_reader h' = h_reader (d_heap D)" "is_connected h' = is_connected (d_heap D)"
    "is_resolved h' = is_resolved (d_heap D)" "var_request h' = var_request (d_heap D)"
    using v by (simp_all add: fun_eq_iff h_addr_def h_reader_def is_connected_def is_resolved_def var_request_def)
  have fb: "fresh_bufs h'"
    unfolding fresh_bufs_def
  proof (intro allI impI)
    fix bid assume bid: "h_next_buf h' \<le> bid"
    have "bid \<notin> set (req_buffers (d_req D))"
    proof
      assume "bid \<in> set (req_buffers (d_req D))"
      then obtain c where "c \<in> set (get_chunks (d_req D))" "bid = chunk_buffer c" by (auto simp: req_buffers_def)
      then have "bid < h_next_buf h'" using rq by (auto simp: req_ok_def chunks_ok_def chunk_ok_def)
      with bid show False by simp
    qed
    then show "h_bufs h' bid = None"
      using v(3,4) bid drv_okD(2) [OF ok] by (simp add: fresh_bufs_def)
  qed
  have "drv_inv h' (d_req D) (d_init D) (d_read_vars D) (d_write_vars D) (d_func D) (d_next_var D)"
    using ok rq fb bufs init unfolding drv_ok_def drv_inv_def v(1) same by blast
  then show "drv_ok (D\<lparr>d_heap := h'\<rparr>)" by (simp add: drv_ok_def)
  show "same_driver D (D\<lparr>d_heap := h'\<rparr>)" using v(1) by (simp add: same_driver_def)
  show "up (D\<lparr>d_heap := h'\<rparr>) = up D" using same by (simp add: up_def all_vars_def complete_request_def)
qed

text \<open>A library all of whose sum-reads succeed.\<close>

definition reads_succeed :: "'e ads_lib \<Rightarrow> bool" where
  "reads_succeed lib \<longleftrightarrow> (\<forall>e p a g off n bs. fst (AdsSyncReadWriteReqEx2 lib e p a g off n bs) = 0)"

lemma doSumRead_ok:
  assumes wf: "wf_ads_def d" and ok: "drv_ok D" and up: "up D"
  shows "\<exists>st D'. doSumRead d lib D = Some (st, D') \<and> drv_ok D' \<and> same_driver D D'
    \<and> (if st = asynSuccess then up D' \<and> all_valid (d_heap D') (get_chunks (d_req D')) else down D')
    \<and> (reads_succeed lib \<longrightarrow> st = asynSuccess)"
proof -
  have ri: "req_initialized (d_req D)" "d_init D" using up by (simp_all add: up_def)
  note o = drv_okD [OF ok]
  obtain rc h' where run: "sum_read d lib (d_heap D) (d_req D) = Some (rc, h')" and rq: "req_ok h' (d_req D)"
    and frame: "read_frame (d_req D) (d_heap D) h'" and bufs: "all_bufs buf_initialized h' (get_chunks (d_req D))"
    and succ: "(\<forall>(h :: 'a heap) c. fst (chunk_call d lib h c) = 0) \<longrightarrow> rc = 0"
    and good: "rc = 0 \<longrightarrow> all_valid h' (get_chunks (d_req D))"
    using sum_read_ok [OF wf o(1) ri(1) o(11) [OF ri(2)], of lib] by blast
  note r = drv_ok_read [OF ok ri(2) rq frame bufs]
  have rc: "reads_succeed lib \<Longrightarrow> rc = 0"
    using succ by (simp add: reads_succeed_def chunk_call_def)
  show ?thesis
  proof (cases "rc = 0")
    case True
    with run r good up show ?thesis by (simp add: doSumRead_def)
  next
    case False
    have "closable (D\<lparr>d_heap := h'\<rparr>)" using r(3) up up_or_down_closable by blast
    note c = ADSDisconnect_ok [OF r(1) this, of d lib]
    from False run c same_driver_trans [OF r(2) c(3)] rc show ?thesis by (auto simp: doSumRead_def Let_def)
  qed
qed

section \<open>Connecting\<close>

lemma resolve_loop_succeeds:
  assumes "reads_succeed lib"
  shows "fst (resolve_loop d lib vids 0 h) = 0"
proof (induction vids arbitrary: h)
  case Nil
  then show ?case by simp
next
  case (Cons v vids)
  obtain rc handle h1 where r: "request_handle d lib v h = (rc, handle, h1)"
    by (cases "request_handle d lib v h") auto
  have "fst (request_handle d lib v h) = 0"
    using assms unfolding reads_succeed_def by (simp add: request_handle_def split_def del: split_paired_All)
  then have "rc = 0" using r by simp
  moreover have "h_addr h1 v = h_addr h v"
    using request_handle_frame [OF r] by (simp add: h_addr_def)
  ultimately show ?case using r Cons by (auto simp: resolve_def)
qed

lemma resolve_list_ok:
  assumes "wf_ads_def d" and "distinct vids" and "is_connected h" and "resolve_list d lib vids h = (rc, h')"
  shows "h_bufs h' = h_bufs h" and "h_next_buf h' = h_next_buf h" and "h_conn h' = h_conn h"
    and "keeps (h_vars h vid) (h_vars h' vid)"
    and "rc = 0 \<Longrightarrow> vid \<in> set vids \<or> is_resolved h vid \<Longrightarrow> is_resolved h' vid"
    and "reads_succeed lib \<Longrightarrow> rc = 0"
    and "is_resolved h vid \<longrightarrow> fits32 (var_request h vid) \<Longrightarrow> is_resolved h' vid \<Longrightarrow> fits32 (var_request h' vid)"
proof -
  have run: "vids \<noteq> [] \<Longrightarrow> resolve_loop d lib vids 0 h = (rc, h')"
    using assms(3,4) by (simp add: resolve_list_def resolve_variables_def)
  have all: "same_rest h h' \<and> resolved_from d (h_vars h vid) (h_vars h' vid)
    \<and> (rc = 0 \<longrightarrow> vid \<in> set vids \<longrightarrow> is_resolved h' vid)" for vid
  proof (cases "vids = []")
    case True
    with assms(4) show ?thesis by (auto simp: resolve_list_def resolved_from_def)
  next
    case False
    note l = resolve_loop_ok(1,2) [OF run [OF False]]
    with resolve_loop_status [OF assms(1,2) run [OF False]] show ?thesis by (simp add: is_resolved_def)
  qed
  then show "h_bufs h' = h_bufs h" "h_next_buf h' = h_next_buf h" "h_conn h' = h_conn h"
    and "keeps (h_vars h vid) (h_vars h' vid)"
    using keeps_resolved [of d] by (simp_all add: same_rest_def)
  have "is_resolved h vid \<Longrightarrow> is_resolved h' vid"
    using all [of vid] by (auto simp: resolved_from_def is_resolved_def h_addr_def addr_handle_None)
  then show "rc = 0 \<Longrightarrow> vid \<in> set vids \<or> is_resolved h vid \<Longrightarrow> is_resolved h' vid"
    using all [of vid] by blast
  show "fits32 (var_request h' vid)" if "is_resolved h vid \<longrightarrow> fits32 (var_request h vid)" "is_resolved h' vid"
    using all [of vid] that assms(1) unfolding resolved_from_def
    by (auto simp: fits32_def var_request_def is_resolved_def h_addr_def wf_ads_def_def resolve_def addr_handle_None)
  have "reads_succeed lib \<Longrightarrow> fst (resolve_loop d lib vids 0 h) = 0"
    by (rule resolve_loop_succeeds)
  then show "reads_succeed lib \<Longrightarrow> rc = 0"
    using run assms(4) by (cases "vids = []") (simp_all add: resolve_list_def)
qed

text \<open>A library that lets the driver connect.\<close>

definition connects :: "'e ads_lib \<Rightarrow> bool" where
  "connects lib \<longleftrightarrow> (\<forall>e i s. fst (AdsAddRoute lib e i s) = 0) \<and> (\<forall>e. fst (AdsPortOpenEx lib e) \<noteq> 0)"

lemma ADSConnect_ok:
  assumes wf: "wf_ads_def d" and ok: "drv_ok D" and st: "up D \<or> down D"
  shows "\<exists>st D'. ADSConnect d lib D = Some (st, D') \<and> drv_ok D' \<and> same_driver D D' \<and> closable D'
    \<and> (st = asynSuccess \<longrightarrow> up D' \<and> (down D \<longrightarrow> all_valid (d_heap D') (get_chunks (d_req D'))))
    \<and> (connects lib \<and> reads_succeed lib \<and> \<not> d_exit D \<and> d_init D \<longrightarrow> st = asynSuccess)"
proof (cases "d_exit D \<or> \<not> d_init D \<or> is_connected (d_heap D)")
  case True
  with ok st up_or_down_closable [OF st] show ?thesis
    by (auto simp: ADSConnect_def down_def up_def)
next
  case False
  then have ne: "\<not> d_exit D" "d_init D" "\<not> is_connected (d_heap D)" by simp_all
  then have dn: "down D" "named_unresolved D" "\<not> req_initialized (d_req D)"
    using st by (auto simp: up_def down_def)
  note o = drv_okD [OF ok]
  obtain rc1 h1 where c1: "connect lib (d_netid D) (d_ip D) (d_read_port D) (d_heap D) = (rc1, h1)"
    by (cases "connect lib (d_netid D) (d_ip D) (d_read_port D) (d_heap D)") auto
  have k1: "h_vars h1 = h_vars (d_heap D)" "h_bufs h1 = h_bufs (d_heap D)" "h_next_buf h1 = h_next_buf (d_heap D)"
    "if rc1 = 0 then is_connected h1 else h_conn h1 = h_conn (d_heap D)"
    using connect_ok [OF c1] by simp_all
  have rc1: "rc1 = 0" if "connects lib"
    using c1 that by (auto simp: connect_def connects_def split: prod.splits if_splits)
      (metis fst_conv)+
  have d1: "drv_ok (D\<lparr>d_heap := h1\<rparr>)" "same_driver D (D\<lparr>d_heap := h1\<rparr>)"
    using drv_ok_heap [OF ok k1(2,3)] k1(1) by simp_all
  show ?thesis
  proof (cases "rc1 = 0")
    case False
    have "closable (D\<lparr>d_heap := h1\<rparr>)"
      using dn(2) k1(1) by (simp add: closable_def named_unresolved_def all_vars_def is_resolved_def h_addr_def)
    with False d1 ne c1 rc1 show ?thesis by (auto simp: ADSConnect_def)
  next
    case rc10: True
    then have con1: "is_connected h1" using k1(4) by simp
    obtain rc2 h2 where c2: "resolve_list d lib (d_read_vars D) h1 = (rc2, h2)"
      by (cases "resolve_list d lib (d_read_vars D) h1") auto
    note k2 = resolve_list_ok [OF wf o(3) con1 c2]
    have con2: "is_connected h2" using con1 k2(3) by (simp add: is_connected_def)
    have kk2: "keeps (h_vars (d_heap D) vid) (h_vars h2 vid)" for vid using k2(4) k1(1) by simp
    have b2: "h_bufs h2 = h_bufs (d_heap D)" "h_next_buf h2 = h_next_buf (d_heap D)" using k1(2,3) k2(1,2) by simp_all
    note d2 = drv_ok_heap [OF ok b2 kk2]
    show ?thesis
    proof (cases "rc2 = 0")
      case False
      with rc10 d2 ne c1 c2 con2 k2(6) show ?thesis by (auto simp: ADSConnect_def closable_def)
    next
      case rc20: True
      obtain rc3 h3 where c3: "resolve_list d lib (d_write_vars D) h2 = (rc3, h3)"
        by (cases "resolve_list d lib (d_write_vars D) h2") auto
      note k3 = resolve_list_ok [OF wf o(4) con2 c3]
      have con3: "is_connected h3" using con2 k3(3) by (simp add: is_connected_def)
      have kk3: "keeps (h_vars (d_heap D) vid) (h_vars h3 vid)" for vid using keeps_trans [OF kk2 k3(4)] .
      have b3: "h_bufs h3 = h_bufs (d_heap D)" "h_next_buf h3 = h_next_buf (d_heap D)" using b2 k3(1,2) by simp_all
      note d3 = drv_ok_heap [OF ok b3 kk3]
      show ?thesis
      proof (cases "rc3 = 0")
        case False
        with rc10 rc20 d3 ne c1 c2 c3 con3 k3(6) show ?thesis by (auto simp: ADSConnect_def closable_def)
      next
        case rc30: True
        have res: "is_resolved h3 vid" if "vid \<in> all_vars D" for vid
          using that o(5) k2(5) [OF rc20, of vid] k3(5) [OF rc30, of vid] by blast
        have fit: "fits32 (var_request h3 vid)" if v: "vid \<in> all_vars D" for vid
        proof -
          have "\<not> is_resolved h1 vid"
            using v dn(2) k1(1) by (simp add: named_unresolved_def is_resolved_def h_addr_def)
          with k2(7) [of vid] k3(7) [of vid] res [OF v] show ?thesis by blast
        qed
        obtain rc4 r4 where c4: "initialize h3 (d_req D) = (rc4, r4)" by (cases "initialize h3 (d_req D)") auto
        have alloc: "req_allocated (d_req D)" using o(9) ne(2) by simp
        have "req_ok h3 (d_req D)" using drv_okD(1) [OF d3(1)] by simp
        note k4 = initialize_ok [OF this alloc c4]
        have "\<forall>vid \<in> set (req_variables (d_req D)). is_resolved h3 vid"
          using res o(5,10) ne(2) by blast
        then have rc40: "rc4 = 0" using k4 dn(3) by simp
        then have g4: "get_chunks r4 = map (complete_chunk h3) (get_chunks (d_req D))"
          and i4: "req_initialized r4" "req_allocated r4" using k4 by simp_all
        have sc: "same_chunks (d_req D) r4" using initialize_same [OF \<open>req_ok h3 (d_req D)\<close> c4] .
        let ?D4 = "D\<lparr>d_heap := h3, d_req := r4\<rparr>"
        have d4: "drv_ok ?D4" "same_driver (D\<lparr>d_heap := h3\<rparr>) ?D4"
          using drv_ok_req [OF d3(1), of r4] sc i4 alloc ne(2) by simp_all
        have "complete_request h3 r4"
          using g4 by (auto simp: complete_request_def complete_chunk_def)
        then have "up ?D4" using con3 ne(2) i4 res fit by (simp add: up_def all_vars_def)
        from doSumRead_ok [OF wf d4(1) this, of lib] obtain st D' where
          run: "doSumRead d lib ?D4 = Some (st, D')" and d5: "drv_ok D'" "same_driver ?D4 D'"
          and fin: "if st = asynSuccess then up D' \<and> all_valid (d_heap D') (get_chunks (d_req D')) else down D'"
          and suc: "reads_succeed lib \<longrightarrow> st = asynSuccess" by blast
        have "closable D'" using fin up_or_down_closable by (auto split: if_splits)
        moreover have "ADSConnect d lib D = Some (st, D')"
          using ne c1 c2 c3 c4 rc10 rc20 rc30 rc40 run by (simp add: ADSConnect_def)
        moreover have "same_driver D D'"
          using same_driver_trans [OF d3(2) same_driver_trans [OF d4(2) d5(2)]] .
        ultimately show ?thesis using d5(1) fin suc by auto
      qed
    qed
  qed
qed

section \<open>Device information and state\<close>

text \<open>A library that ends the device names it delivers with a NUL character.\<close>

definition names_end :: "'e ads_lib \<Rightarrow> bool" where
  "names_end lib \<longleftrightarrow> (\<forall>e p a. fst (AdsSyncReadDeviceInfoReqEx lib e p a) = 0 \<longrightarrow>
     CHR 0x00 \<in> set (take 16 (fst (fst (snd (AdsSyncReadDeviceInfoReqEx lib e p a))))))"

lemma readADSDeviceInfo_ok:
  assumes wf: "wf_ads_def d" and names: "names_end lib" and ok: "drv_ok D" and up: "up D" and len: "length unset = 16"
  shows "\<exists>st D'. readADSDeviceInfo d lib unset uv D = Some (st, D') \<and> drv_ok D' \<and> same_driver D D'
    \<and> (if st = asynSuccess then up D' else down D')"
proof -
  obtain rc chars version e where call: "AdsSyncReadDeviceInfoReqEx lib (h_env (d_heap D)) (conn_ads_port (h_conn (d_heap D)))
      (remote_ams_netid (h_conn (d_heap D)), device_read_ads_port (h_conn (d_heap D))) = (rc, (chars, version), e)"
    by (metis surj_pair)
  let ?D1 = "D\<lparr>d_heap := (d_heap D)\<lparr>h_env := e\<rparr>\<rparr>"
  have con: "is_connected (d_heap D)" using up by (simp add: up_def)
  have d1: "drv_ok ?D1" "same_driver D ?D1" "up ?D1" using ok up by simp_all
  have rd: "read_device_info d lib (Some unset) 16 (Some uv) (d_heap D) =
      (ads_rc_to_epicsads_error d rc, Some (fill 16 chars unset), Some (fill 3 version uv), (d_heap D)\<lparr>h_env := e\<rparr>)"
    using con call by (simp add: read_device_info_def)
  show ?thesis
  proof (cases "rc = 0")
    case True
    then have z: "ads_rc_to_epicsads_error d rc = 0" by simp
    have "CHR 0x00 \<in> set (take 16 chars)" using names [unfolded names_end_def, rule_format, of "h_env (d_heap D)" "conn_ads_port (h_conn (d_heap D))"
          "(remote_ams_netid (h_conn (d_heap D)), device_read_ads_port (h_conn (d_heap D)))"] call True by simp
    then have "CHR 0x00 \<in> set (fill 16 chars unset)" using len by (simp add: fill_def Let_def)
    then obtain name where "c_string (fill 16 chars unset) = Some name" by (simp add: c_string_def)
    with rd z d1 show ?thesis by (auto simp: readADSDeviceInfo_def Let_def same_driver_def)
  next
    case False
    then have nz: "ads_rc_to_epicsads_error d rc \<noteq> 0" using ads_rc_nonzero [OF wf] by simp
    have "closable ?D1" using d1(3) up_or_down_closable by blast
    note c = ADSDisconnect_ok [OF d1(1) this, of d lib]
    with rd nz same_driver_trans [OF d1(2) c(3)] show ?thesis
      by (simp add: readADSDeviceInfo_def Let_def)
  qed
qed

lemma readADSDeviceState_ok:
  assumes wf: "wf_ads_def d" and ok: "drv_ok D" and up: "up D"
    and run: "readADSDeviceState d lib ud us D = (st, D')"
  shows "drv_ok D' \<and> same_driver D D' \<and> (if st = asynSuccess then up D' else down D')"
proof -
  obtain rc sv dv e where call: "AdsSyncReadStateReqEx lib (h_env (d_heap D)) (conn_ads_port (h_conn (d_heap D)))
      (remote_ams_netid (h_conn (d_heap D)), device_read_ads_port (h_conn (d_heap D))) = (rc, (sv, dv), e)"
    by (metis surj_pair)
  let ?D1 = "D\<lparr>d_heap := (d_heap D)\<lparr>h_env := e\<rparr>\<rparr>"
  have con: "is_connected (d_heap D)" using up by (simp add: up_def)
  have d1: "drv_ok ?D1" "same_driver D ?D1" "up ?D1" using ok up by simp_all
  obtain x y where rd: "read_device_state d lib (Some ud) (Some us) (d_heap D) =
      (ads_rc_to_epicsads_error d rc, Some x, Some y, (d_heap D)\<lparr>h_env := e\<rparr>)"
    using con call by (simp add: read_device_state_def)
  show ?thesis
  proof (cases "ads_rc_to_epicsads_error d rc = 0")
    case True
    with rd d1 run show ?thesis by (auto simp: readADSDeviceState_def Let_def same_driver_def)
  next
    case False
    have "closable ?D1" using d1(3) up_or_down_closable by blast
    note c = ADSDisconnect_ok [OF d1(1) this, of d lib]
    with rd False run same_driver_trans [OF d1(2) c(3)] show ?thesis
      by (auto simp: readADSDeviceState_def Let_def)
  qed
qed

end
