(* ===== verification/Transitions.thy ===== *)
theory Transitions
  imports Main
begin

text \<open>
  Labelled transition systems, as far as the driver needs them: reachable states, invariants,
  simulation of an abstract machine, and the bound that a rank gives on how often one of the threads
  can move before a goal is reached, however the threads are interleaved.
\<close>

inductive reach :: "('s \<Rightarrow> bool) \<Rightarrow> ('s \<Rightarrow> 'l \<Rightarrow> 's \<Rightarrow> bool) \<Rightarrow> 's \<Rightarrow> bool" for init step where
  reach_init: "init s \<Longrightarrow> reach init step s"
| reach_step: "reach init step s \<Longrightarrow> step s l s' \<Longrightarrow> reach init step s'"

text \<open>
  Runs all of whose states but the last satisfy \<open>Q\<close>, with the number of steps whose label
  satisfies \<open>own\<close>.
\<close>

inductive run_while ::
  "('s \<Rightarrow> 'l \<Rightarrow> 's \<Rightarrow> bool) \<Rightarrow> ('l \<Rightarrow> bool) \<Rightarrow> ('s \<Rightarrow> bool) \<Rightarrow> 's \<Rightarrow> nat \<Rightarrow> 's \<Rightarrow> bool"
  for step own Q where
  run_nil: "run_while step own Q s 0 s"
| run_own: "run_while step own Q s n s1 \<Longrightarrow> Q s1 \<Longrightarrow> step s1 l s2 \<Longrightarrow> own l \<Longrightarrow> run_while step own Q s (Suc n) s2"
| run_other: "run_while step own Q s n s1 \<Longrightarrow> Q s1 \<Longrightarrow> step s1 l s2 \<Longrightarrow> \<not> own l \<Longrightarrow> run_while step own Q s n s2"

section \<open>Invariants\<close>

locale machine =
  fixes init :: "'s \<Rightarrow> bool" and step :: "'s \<Rightarrow> 'l \<Rightarrow> 's \<Rightarrow> bool" and inv :: "'s \<Rightarrow> bool"
  assumes inv_init: "init s \<Longrightarrow> inv s"
    and inv_step: "inv s \<Longrightarrow> step s l s' \<Longrightarrow> inv s'"
begin

lemma reach_inv: "reach init step s \<Longrightarrow> inv s"
  by (induction rule: reach.induct) (auto intro: inv_init inv_step)

lemma run_inv: "run_while step own Q s n s' \<Longrightarrow> inv s \<Longrightarrow> inv s'"
  by (induction rule: run_while.induct) (auto intro: inv_step)

lemma run_reach: "run_while step own Q s n s' \<Longrightarrow> reach init step s \<Longrightarrow> reach init step s'"
  by (induction rule: run_while.induct) (auto intro: reach_step)

end

section \<open>Refinement\<close>

text \<open>Every step of the machine is a step of the abstract one, or none at all.\<close>

locale simulation = machine init step inv
  for init :: "'s \<Rightarrow> bool" and step :: "'s \<Rightarrow> 'l \<Rightarrow> 's \<Rightarrow> bool" and inv +
  fixes abs :: "'s \<Rightarrow> 'a" and out :: "'l \<Rightarrow> 'o list" and astep :: "'a \<Rightarrow> 'o list \<Rightarrow> 'a \<Rightarrow> bool"
  assumes simulates: "inv s \<Longrightarrow> step s l s' \<Longrightarrow> astep (abs s) (out l) (abs s') \<or> abs s' = abs s \<and> out l = []"
begin

lemma reach_simulates:
  "reach init step s \<Longrightarrow> step s l s' \<Longrightarrow> astep (abs s) (out l) (abs s') \<or> abs s' = abs s \<and> out l = []"
  by (rule simulates [OF reach_inv])

end

section \<open>Progress\<close>

text \<open>While the goal is not reached, \<open>rank\<close> bounds the number of steps of the thread \<open>own\<close>.\<close>

locale ranked = machine init step inv
  for init :: "'s \<Rightarrow> bool" and step :: "'s \<Rightarrow> 'l \<Rightarrow> 's \<Rightarrow> bool" and inv +
  fixes own :: "'l \<Rightarrow> bool" and Q :: "'s \<Rightarrow> bool" and rank :: "'s \<Rightarrow> nat"
  assumes own_decreases: "inv s \<Longrightarrow> Q s \<Longrightarrow> step s l s' \<Longrightarrow> own l \<Longrightarrow> rank s' < rank s"
    and other_keeps: "inv s \<Longrightarrow> Q s \<Longrightarrow> step s l s' \<Longrightarrow> \<not> own l \<Longrightarrow> rank s' \<le> rank s"
begin

lemma run_bound:
  assumes "run_while step own Q s n s'" and "inv s"
  shows "n + rank s' \<le> rank s"
  using assms
proof (induction rule: run_while.induct)
  case (run_nil s)
  then show ?case by simp
next
  case (run_own s n s1 l s2)
  have "rank s2 < rank s1"
    using own_decreases [OF run_inv [OF run_own(1,6)] run_own(2,3,4)] .
  with run_own.IH [OF run_own(6)] show ?case by simp
next
  case (run_other s n s1 l s2)
  have "rank s2 \<le> rank s1"
    using other_keeps [OF run_inv [OF run_other(1,6)] run_other(2,3,4)] .
  with run_other.IH [OF run_other(6)] show ?case by simp
qed

end

end
