(* ===== verification/Driver_System.thy ===== *)
theory Driver_System
  imports Driver_Ops Transitions
begin

text \<open>
  The driver while the IOC runs: the scan thread, the record links that are parsed and the hook
  during initialisation, the handlers that other threads call, the ADS device that changes by
  itself, and the destructor that asks the scan thread to stop, in any interleaving. A step is one
  operation; the steps of the scan thread are those of \<open>scan_step\<close>.
\<close>

section \<open>Steps\<close>

record 'e sys =
  s_pc :: scan_pc
  s_drv :: "'e driver"
  s_hooked :: bool               \<comment> \<open>the hook has run\<close>

datatype label = Scan_label "io_event list" | Other_label

text \<open>
  What comes from outside in a step of the scan thread: interrupt variables are device variables,
  and memory has the size it was declared with.
\<close>

definition scan_env_ok :: "'e driver \<Rightarrow> scan_env \<Rightarrow> bool" where
  "scan_env_ok D se \<longleftrightarrow> set (se_interrupts se) \<subseteq> all_vars D \<and> io_env_ok (se_io se)
     \<and> length (se_unset_info se) = 16"

text \<open>
  All read handlers call \<open>read_from_buffer\<close> at most once and change nothing else, and all write
  handlers \<open>write\<close>. A memory error in a handler is not a step: \<open>read_from_buffer_safety\<close>,
  \<open>array_write_reads_all\<close> and \<open>driver_memory_safe\<close> say when one can happen.
  \<open>sys_hook\<close> leaves out the runs in which one of the two \<open>push_back\<close> calls in \<open>ReadRequestChunk::add_variable\<close>
  fails (\<open>request_mem\<close>): there the hook leaves a variable with a pointer into a freed buffer, see
  \<open>allocate_leaves_dangling_pointer\<close>. The other allocations that ask
  \<open>mem\<close> may fail.
\<close>

inductive sys_step :: "ads_def \<Rightarrow> 'e ads_lib \<Rightarrow> 'e sys \<Rightarrow> label \<Rightarrow> 'e sys \<Rightarrow> bool" for d lib where
  sys_scan: "scan_env_ok (s_drv s) se \<Longrightarrow> scan_step d lib se (s_pc s) (s_drv s) = Some (evs, pc', D') \<Longrightarrow>
     sys_step d lib s (Scan_label evs) (s\<lparr>s_pc := pc', s_drv := D'\<rparr>)"
| sys_create: "\<not> s_hooked s \<Longrightarrow> parseDeviceAddress d func args = Inr (Some a) \<Longrightarrow>
     createDeviceVariable g func a (s_drv s) = Inr (x, D') \<Longrightarrow>
     sys_step d lib s Other_label (s\<lparr>s_drv := D'\<rparr>)"
| sys_hook: "\<not> s_hooked s \<Longrightarrow> set vs \<subseteq> all_vars (s_drv s) \<Longrightarrow> distinct vs \<Longrightarrow> request_mem mem \<Longrightarrow>
     initHook mem vs (s_drv s) = Inr D' \<Longrightarrow>
     sys_step d lib s Other_label (s\<lparr>s_drv := D', s_hooked := True\<rparr>)"
| sys_read: "vid \<in> all_vars (s_drv s) \<Longrightarrow> read_from_buffer d vid n (Some dst) (d_heap (s_drv s)) = Some (rc, out, h') \<Longrightarrow>
     sys_step d lib s Other_label (s\<lparr>s_drv := (s_drv s)\<lparr>d_heap := h'\<rparr>\<rparr>)"
| sys_write: "vid \<in> all_vars (s_drv s) \<Longrightarrow> var_write d lib vid (Some src) n (d_heap (s_drv s)) = Some (rc, h') \<Longrightarrow>
     sys_step d lib s Other_label (s\<lparr>s_drv := (s_drv s)\<lparr>d_heap := h'\<rparr>\<rparr>)"
| sys_device: "sys_step d lib s Other_label (s\<lparr>s_drv := (s_drv s)\<lparr>d_heap := (d_heap (s_drv s))\<lparr>h_env := e\<rparr>\<rparr>\<rparr>)"
| sys_exit: "sys_step d lib s Other_label (s\<lparr>s_drv := signal_exit (s_drv s)\<rparr>)"

text \<open>The driver has just been constructed.\<close>

definition sys_init :: "'e sys \<Rightarrow> bool" where
  "sys_init s \<longleftrightarrow> s_pc s = Scan_Head \<and> \<not> s_hooked s
     \<and> (\<exists>parse_netid st ip ams n port p us uv e. n < 2 ^ 16
          \<and> ADSPortDriver parse_netid st ip ams n port p us uv e = Inr (s_drv s))"

section \<open>The invariant\<close>

text \<open>What holds of the driver when the scan thread is at \<open>pc\<close>.\<close>

definition at_pc :: "scan_pc \<Rightarrow> 'e driver \<Rightarrow> bool" where
  "at_pc pc D \<longleftrightarrow> up D \<and> pc \<noteq> Scan_Done \<or> down D \<and> pc \<in> {Scan_Head, Scan_Connect, Scan_Exit, Scan_Done}"

definition sys_inv :: "'e sys \<Rightarrow> bool" where
  "sys_inv s \<longleftrightarrow> drv_ok (s_drv s) \<and> at_pc (s_pc s) (s_drv s)
     \<and> (s_pc s = Scan_Intr \<longrightarrow> all_valid (d_heap (s_drv s)) (get_chunks (d_req (s_drv s))))
     \<and> (s_pc s \<in> {Scan_Exit, Scan_Done} \<longrightarrow> d_exit (s_drv s))
     \<and> (\<not> s_hooked s \<longrightarrow> pre_hook (s_drv s))"

subsection \<open>Changes of values\<close>

text \<open>What the handlers and the callbacks change: the values waiting to be read back, and the hashes.\<close>

definition val_frame :: "'e heap \<Rightarrow> 'e heap \<Rightarrow> bool" where
  "val_frame h h' \<longleftrightarrow> h_conn h' = h_conn h \<and> h_bufs h' = h_bufs h \<and> h_next_buf h' = h_next_buf h
     \<and> (\<forall>vid. keeps (h_vars h vid) (h_vars h' vid) \<and> var_addr (h_vars h' vid) = var_addr (h_vars h vid))"

lemma val_frame_io: "io_frame h h' \<Longrightarrow> val_frame h h'"
  using keeps_io_same by (auto simp: io_frame_def val_frame_def)

lemma val_frame_env: "val_frame h (h\<lparr>h_env := e\<rparr>)"
  by (simp add: val_frame_def)

lemma val_frame_read:
  "read_from_buffer d vid n buffer h = Some (rc, out, h') \<Longrightarrow> val_frame h h'"
  by (auto simp: read_from_buffer_def Let_def bind_eq_Some_conv val_frame_def keeps_last_written
      split: option.splits if_splits)

lemma val_frame_write:
  assumes "var_write d lib vid (Some src) n h = Some (rc, h')"
  shows "val_frame h h'"
proof (cases "var_conn (h_vars h vid) \<and> addr_name_is_resolved (var_addr (h_vars h vid)) \<and> n \<le> var_size (h_vars h vid)")
  case False
  then have "h' = h" using assms by (auto simp: var_write_def Let_def split: if_splits)
  then show ?thesis by (simp add: val_frame_def)
next
  case True
  with assms obtain bytes b where b: "mem_write (replicate (var_size (h_vars h vid)) 0) bytes = Some b"
    and rest: "(case AdsSyncWriteReqEx lib (h_env h) (conn_ads_port (h_conn h)) (ams_addr_of h vid)
          (addr_index_group (var_addr (h_vars h vid))) (addr_index_offset (var_addr (h_vars h vid))) b of
        (rc, e1) \<Rightarrow> (let h1 = h\<lparr>h_env := e1\<rparr> in
           if rc \<noteq> 0 then Some (ads_rc_to_epicsads_error d rc, h1)
           else Some (0, if var_write_readback (h_vars h vid)
                         then upd_var vid (\<lambda>v. v\<lparr>var_last_written := b\<rparr>) h1 else h1))) = Some (rc, h')"
    unfolding var_write_def Let_def by (auto simp: bind_eq_Some_conv)
  have len: "length b = var_size (h_vars h vid)" using mem_write_length [OF b] by simp
  from rest consider e where "h' = h\<lparr>h_env := e\<rparr>"
    | e where "h' = upd_var vid (\<lambda>v. v\<lparr>var_last_written := b\<rparr>) (h\<lparr>h_env := e\<rparr>)"
    unfolding Let_def by (cases "AdsSyncWriteReqEx lib (h_env h) (conn_ads_port (h_conn h)) (ams_addr_of h vid)
          (addr_index_group (var_addr (h_vars h vid))) (addr_index_offset (var_addr (h_vars h vid))) b")
      (simp split: if_splits; blast)
  then show ?thesis
    by cases (simp_all add: val_frame_def keeps_last_written len)
qed

lemma val_frame_ok:
  assumes "val_frame (d_heap D) h'" and "drv_ok D"
  shows "drv_ok (D\<lparr>d_heap := h'\<rparr>)" and "same_driver D (D\<lparr>d_heap := h'\<rparr>)"
    and "up (D\<lparr>d_heap := h'\<rparr>) = up D" and "down (D\<lparr>d_heap := h'\<rparr>) = down D"
    and "all_valid h' cs = all_valid (d_heap D) cs" and "pre_hook (D\<lparr>d_heap := h'\<rparr>) = pre_hook D"
proof -
  have f: "h_conn h' = h_conn (d_heap D)" "h_bufs h' = h_bufs (d_heap D)" "h_next_buf h' = h_next_buf (d_heap D)"
    "\<And>vid. keeps (h_vars (d_heap D) vid) (h_vars h' vid)"
    "\<And>vid. var_addr (h_vars h' vid) = var_addr (h_vars (d_heap D) vid)"
    using assms(1) by (simp_all add: val_frame_def)
  note k = drv_ok_heap [OF assms(2) f(2,3,4)]
  show "drv_ok (D\<lparr>d_heap := h'\<rparr>)" "same_driver D (D\<lparr>d_heap := h'\<rparr>)" by (rule k)+
  have c: "is_connected h' = is_connected (d_heap D)" using f(1) by (simp add: is_connected_def)
  have a: "h_addr h' = h_addr (d_heap D)" using f(5) by (simp add: h_addr_def fun_eq_iff)
  have r: "is_resolved h' = is_resolved (d_heap D)" by (simp add: is_resolved_def fun_eq_iff a)
  have "var_size (h_vars h' vid) = var_size (h_vars (d_heap D) vid)" for vid
    using f(4) [of vid] by (simp add: keeps_def same_view_def)
  then have q: "var_request h' = var_request (d_heap D)" by (simp add: fun_eq_iff var_request_def a)
  show "up (D\<lparr>d_heap := h'\<rparr>) = up D" by (simp add: up_def all_vars_def complete_request_def c r q)
  show "down (D\<lparr>d_heap := h'\<rparr>) = down D" by (simp add: down_def named_unresolved_def all_vars_def c r)
  show "all_valid h' cs = all_valid (d_heap D) cs"
    using f(2) by (simp add: all_valid_def all_bufs_def h_buf_def)
  show "pre_hook (D\<lparr>d_heap := h'\<rparr>) = pre_hook D" by (simp add: pre_hook_def a)
qed

subsection \<open>Steps of the scan thread\<close>

lemma same_driver_pre_hook: "same_driver D D' \<Longrightarrow> pre_hook D' = pre_hook D"
  by (auto simp: same_driver_def pre_hook_def h_addr_def keeps_def)

lemma up_init: "up D \<Longrightarrow> d_init D"
  by (simp add: up_def)

lemma not_up_down: "up D \<Longrightarrow> \<not> down D"
  by (auto simp: up_def down_def)

lemma io_vars_ok:
  assumes "drv_ok D" and "d_init D" and "set vs \<subseteq> all_vars D"
  shows "\<forall>x \<in> set (map (\<lambda>vid. (vid, d_func D vid)) vs). io_var_ok (d_heap D) (d_req D) x"
proof
  fix x assume "x \<in> set (map (\<lambda>vid. (vid, d_func D vid)) vs)"
  then obtain vid where x: "x = (vid, d_func D vid)" and v: "vid \<in> all_vars D" using assms(3) by auto
  have "var_ok (d_func D vid) (h_vars (d_heap D) vid)"
    and "vid \<in> set (req_variables (d_req D)) \<or> addr_operation (h_addr (d_heap D) vid) = Write
      \<and> \<not> var_write_readback (h_vars (d_heap D) vid)"
    using drv_okD(6,7) [OF assms(1) v] drv_okD(10) [OF assms(1,2)] by auto
  then show "io_var_ok (d_heap D) (d_req D) x"
    by (auto simp: x io_var_ok_def var_ok_def h_addr_def h_size_def)
qed

lemma scan_step_ok:
  assumes wf: "wf_ads_def d" and names: "names_end lib" and ok: "drv_ok D" and pc: "at_pc pc D"
    and valid: "pc = Scan_Intr \<longrightarrow> all_valid (d_heap D) (get_chunks (d_req D))"
    and ex: "pc \<in> {Scan_Exit, Scan_Done} \<longrightarrow> d_exit D" and env: "scan_env_ok D se"
  shows "\<exists>evs pc' D'. scan_step d lib se pc D = Some (evs, pc', D') \<and> drv_ok D' \<and> at_pc pc' D' \<and> same_driver D D'
    \<and> (pc' = Scan_Intr \<longrightarrow> all_valid (d_heap D') (get_chunks (d_req D')))
    \<and> (pc' \<in> {Scan_Exit, Scan_Done} \<longrightarrow> d_exit D')
    \<and> (evs \<noteq> [] \<longrightarrow> pc = Scan_Intr) \<and> (pc = Scan_Intr \<longrightarrow> pc' = Scan_Head \<and> up D' \<and> callbacks_last evs)"
proof (cases pc)
  case Scan_Head
  with pc show ?thesis
    using ok by (auto simp: at_pc_def up_def down_def)
next
  case Scan_Connect
  then have st: "up D \<or> down D" using pc by (auto simp: at_pc_def)
  obtain st D1 where run: "ADSConnect d lib D = Some (st, D1)" and d1: "drv_ok D1" "same_driver D D1" "closable D1"
    and good: "st = asynSuccess \<longrightarrow> up D1" using ADSConnect_ok [OF wf ok st, of lib] by blast
  note c = ADSDisconnect_ok [OF d1(1,3), of d lib]
  from run d1 good c same_driver_trans [OF d1(2) c(3)] Scan_Connect show ?thesis
    by (cases "st = asynSuccess") (auto simp: at_pc_def)
next
  case Scan_Info
  then have u: "up D" using pc by (auto simp: at_pc_def)
  show ?thesis
  proof (cases "se_due se")
    case True
    have "length (se_unset_info se) = 16" using env by (simp add: scan_env_ok_def)
    from readADSDeviceInfo_ok [OF wf names ok u this, of "se_unset_version se"] True Scan_Info show ?thesis
      by (auto simp: at_pc_def split: if_splits)
  next
    case False
    with Scan_Info u ok show ?thesis by (simp add: at_pc_def)
  qed
next
  case Scan_State
  then have u: "up D" using pc by (auto simp: at_pc_def)
  obtain st D1 where run: "readADSDeviceState d lib (se_unset_dev se) (se_unset_state se) D = (st, D1)"
    by (cases "readADSDeviceState d lib (se_unset_dev se) (se_unset_state se) D") auto
  from readADSDeviceState_ok [OF wf ok u run] run Scan_State show ?thesis
    by (auto simp: at_pc_def split: if_splits)
next
  case Scan_Read
  then have u: "up D" using pc by (auto simp: at_pc_def)
  from doSumRead_ok [OF wf ok u, of lib] Scan_Read show ?thesis
    by (auto simp: at_pc_def split: if_splits)
next
  case Scan_Intr
  then have u: "up D" using pc by (auto simp: at_pc_def)
  note o = drv_okD [OF ok]
  have "set (se_interrupts se) \<subseteq> all_vars D" "io_env_ok (se_io se)" using env by (simp_all add: scan_env_ok_def)
  from performIOIntr_defined [OF o(1) o(11) [OF up_init [OF u]] io_vars_ok [OF ok up_init [OF u] this(1)] this(2), of d]
  obtain evs h' where run: "performIOIntr d (se_io se) (map (\<lambda>vid. (vid, d_func D vid)) (se_interrupts se)) (d_heap D) = Some (evs, h')"
    and f: "io_frame (d_heap D) h'" and last: "callbacks_last evs" by blast
  note v = val_frame_ok [OF val_frame_io [OF f] ok]
  from run v u last Scan_Intr show ?thesis by (simp add: at_pc_def)
next
  case Scan_Exit
  then have st: "up D \<or> down D" and e: "d_exit D" using pc ex by (auto simp: at_pc_def)
  note c = ADSDisconnect_ok [OF ok up_or_down_closable [OF st], of d lib]
  have "d_exit (snd (ADSDisconnect d lib D))" using c(3) e by (simp add: same_driver_def)
  with c st e ok Scan_Exit show ?thesis by (auto simp: at_pc_def up_def)
next
  case Scan_Done
  with ok pc ex show ?thesis by (auto simp: at_pc_def)
qed

subsection \<open>The invariant of the system\<close>

text \<open>The assumptions about what is outside, and a driver that has just been constructed.\<close>

definition sys_start :: "ads_def \<Rightarrow> 'e ads_lib \<Rightarrow> 'e sys \<Rightarrow> bool" where
  "sys_start d lib s \<longleftrightarrow> wf_ads_def d \<and> names_end lib \<and> sys_init s"

definition sys_ok :: "ads_def \<Rightarrow> 'e ads_lib \<Rightarrow> 'e sys \<Rightarrow> bool" where
  "sys_ok d lib s \<longleftrightarrow> wf_ads_def d \<and> names_end lib \<and> sys_inv s"

inductive_simps sys_step_scan: "sys_step d lib s (Scan_label evs) s'"

lemma sys_invD:
  assumes "sys_inv s"
  shows "drv_ok (s_drv s)" and "at_pc (s_pc s) (s_drv s)"
    and "s_pc s = Scan_Intr \<longrightarrow> all_valid (d_heap (s_drv s)) (get_chunks (d_req (s_drv s)))"
    and "s_pc s \<in> {Scan_Exit, Scan_Done} \<longrightarrow> d_exit (s_drv s)" and "\<not> s_hooked s \<longrightarrow> pre_hook (s_drv s)"
  using assms by (simp_all add: sys_inv_def)

lemma sys_init_inv: "sys_init s \<Longrightarrow> sys_inv s"
  using ADSPortDriver_ok unfolding sys_init_def sys_inv_def at_pc_def by fastforce

text \<open>Steps that change only values, or nothing but the flag that asks the thread to stop.\<close>

lemma sys_inv_value:
  assumes "sys_inv s" and "val_frame (d_heap (s_drv s)) h'"
  shows "sys_inv (s\<lparr>s_drv := (s_drv s)\<lparr>d_heap := h'\<rparr>\<rparr>)"
  using val_frame_ok [OF assms(2) sys_invD(1) [OF assms(1)]] assms(1) by (simp add: sys_inv_def at_pc_def)

lemma sys_inv_exit: "sys_inv s \<Longrightarrow> sys_inv (s\<lparr>s_drv := signal_exit (s_drv s)\<rparr>)"
  by (auto simp: sys_inv_def at_pc_def signal_exit_def down_def pre_hook_def)

text \<open>Before the hook the driver is disconnected and the thread has nothing to do.\<close>

lemma pre_hook_down:
  assumes "sys_inv s" and "\<not> s_hooked s"
  shows "down (s_drv s)" and "pre_hook (s_drv s)" and "s_pc s \<in> {Scan_Head, Scan_Connect, Scan_Exit, Scan_Done}"
  using assms by (auto simp: sys_inv_def at_pc_def pre_hook_def up_def)

lemma sys_inv_step:
  assumes "sys_ok d lib s" and "sys_step d lib s l s'"
  shows "sys_inv s'"
proof -
  have wf: "wf_ads_def d" "names_end lib" and inv: "sys_inv s" using assms(1) by (simp_all add: sys_ok_def)
  note i = sys_invD [OF inv]
  from assms(2) show ?thesis
  proof cases
    case (sys_scan se evs pc' D')
    from scan_step_ok [OF wf i(1,2,3,4) sys_scan(3)] sys_scan(4) i(5) show ?thesis
      by (auto simp: sys_scan(2) sys_inv_def same_driver_pre_hook)
  next
    case (sys_create func args a g x D')
    note p = pre_hook_down [OF inv sys_create(3)]
    from createDeviceVariable_ok [OF i(1) p(2) wf(1) sys_create(4,5)] p(1,3) i(4) show ?thesis
      by (auto simp: sys_create(2) sys_inv_def at_pc_def)
  next
    case (sys_hook vs mem D')
    note p = pre_hook_down [OF inv sys_hook(3)]
    from initHook_total [OF i(1) p(2) sys_hook(4-6)] sys_hook(7) p(1,3) i(4) show ?thesis
      by (auto simp: sys_hook(2) sys_inv_def at_pc_def)
  next
    case (sys_read vid n dst rc out h')
    from sys_inv_value [OF inv val_frame_read [OF sys_read(4)]] show ?thesis by (simp add: sys_read(2))
  next
    case (sys_write vid src n rc h')
    from sys_inv_value [OF inv val_frame_write [OF sys_write(4)]] show ?thesis by (simp add: sys_write(2))
  next
    case (sys_device e)
    from sys_inv_value [OF inv val_frame_env] show ?thesis by (simp add: sys_device(2))
  next
    case sys_exit
    from sys_inv_exit [OF inv] show ?thesis by (simp add: sys_exit)
  qed
qed

interpretation sysm: machine "sys_start d lib" "sys_step d lib" "sys_ok d lib" for d lib
proof
  show "sys_start d lib s \<Longrightarrow> sys_ok d lib s" for s
    by (simp add: sys_start_def sys_ok_def sys_init_inv)
  show "sys_ok d lib s \<Longrightarrow> sys_step d lib s l s' \<Longrightarrow> sys_ok d lib s'" for s l s'
    using sys_inv_step by (simp add: sys_ok_def)
qed

lemma reach_sys:
  assumes "reach (sys_start d lib) (sys_step d lib) s"
  shows "wf_ads_def d" and "names_end lib" and "sys_inv s"
  using sysm.reach_inv [OF assms] by (simp_all add: sys_ok_def)

end
