(* ===== verification/Read_Races.thy ===== *)
theory Read_Races
  imports Step_Refinement Driver_System
begin

text \<open>
  One call of \<open>SumReadRequest::read\<close> by the scan thread while other threads call handlers and the
  ADS device changes, in any interleaving of the small steps. The driver does not hold its lock
  during the call, so handlers run at the same time; the lock of the port admits one of them at a
  time. The buffers' read-write lock makes \<open>save_buffer\<close> wait for a handler that is copying, and
  the connection's mutex makes a write wait for an ADS call; nothing makes the ADS library, which
  stores the answer, wait for a handler that is copying.
\<close>

section \<open>States and steps\<close>

text \<open>
  \<open>rc_answers\<close> is an auxiliary variable, which no step depends on: the answer of the ADS library to
  the request of each buffer.
\<close>

record 'e race =
  rc_read :: read_pc
  rc_hand :: hand_pc
  rc_heap :: "'e heap"
  rc_answers :: "nat \<Rightarrow> (int \<times> byte list) option"

datatype thread = Scan_thread | Handler_thread | Outside

text \<open>The locks: who holds them between two steps, and who waits for them.\<close>

fun holds_read_lock :: "hand_pc \<Rightarrow> 'e heap \<Rightarrow> nat \<Rightarrow> bool" where
  "holds_read_lock (Hand_Result vid n dst) h bid \<longleftrightarrow> pos_buffer (h_reader h vid) = Some bid"
| "holds_read_lock (Hand_Data vid n dst code todo) h bid \<longleftrightarrow> pos_buffer (h_reader h vid) = Some bid"
| "holds_read_lock _ h bid \<longleftrightarrow> False"

fun blocked :: "read_pc \<Rightarrow> hand_pc \<Rightarrow> 'e heap \<Rightarrow> bool" where
  "blocked (Read_Loop (c # cs)) q h \<longleftrightarrow> holds_read_lock q h (chunk_buffer c)"
| "blocked _ q h \<longleftrightarrow> False"

fun holds_mutex :: "read_pc \<Rightarrow> bool" where
  "holds_mutex (Read_Store c cs rc resp todo) \<longleftrightarrow> True"
| "holds_mutex (Read_Invalid rc cs) \<longleftrightarrow> True"
| "holds_mutex _ \<longleftrightarrow> False"

fun hand_busy :: "hand_pc \<Rightarrow> bool" where
  "hand_busy Hand_Idle \<longleftrightarrow> False"
| "hand_busy (Hand_Return vid n rc dst) \<longleftrightarrow> False"
| "hand_busy _ \<longleftrightarrow> True"

fun note_answer ::
  "read_pc \<Rightarrow> read_pc \<Rightarrow> (nat \<Rightarrow> (int \<times> byte list) option) \<Rightarrow> nat \<Rightarrow> (int \<times> byte list) option" where
  "note_answer (Read_Call c cs) (Read_Store c' cs' rc resp todo) a = a(chunk_buffer c \<mapsto> (rc, resp))"
| "note_answer _ _ a = a"

text \<open>What a handler may ask for: a variable of the request, into memory that is large enough.\<close>

definition call_ok :: "sum_read_request \<Rightarrow> 'e heap \<Rightarrow> nat \<Rightarrow> nat \<Rightarrow> byte list \<Rightarrow> bool" where
  "call_ok r h vid n dst \<longleftrightarrow> vid \<in> set (req_variables r) \<and> n \<le> length dst
     \<and> (var_write_readback (h_vars h vid) \<longrightarrow> h_size h vid \<le> length dst)"

inductive race_step :: "ads_def \<Rightarrow> 'e ads_lib \<Rightarrow> sum_read_request \<Rightarrow> 'e race \<Rightarrow> thread \<Rightarrow> 'e race \<Rightarrow> bool"
  for d lib r where
  race_read: "read_may (rc_read s) i \<Longrightarrow> \<not> blocked (rc_read s) (rc_hand s) (rc_heap s) \<Longrightarrow>
     read_step d lib r i (rc_read s) (rc_heap s) = Some (p, h) \<Longrightarrow>
     race_step d lib r s Scan_thread
       (s\<lparr>rc_read := p, rc_heap := h, rc_answers := note_answer (rc_read s) p (rc_answers s)\<rparr>)"
| race_hand: "hand_may (rc_hand s) i \<Longrightarrow> hand_step d i (rc_hand s) (rc_heap s) = Some (q, h) \<Longrightarrow>
     race_step d lib r s Handler_thread (s\<lparr>rc_hand := q, rc_heap := h\<rparr>)"
| race_begin: "\<not> hand_busy (rc_hand s) \<Longrightarrow> call_ok r (rc_heap s) vid n dst \<Longrightarrow>
     race_step d lib r s Outside (s\<lparr>rc_hand := Hand_Start vid n dst\<rparr>)"
| race_write: "\<not> hand_busy (rc_hand s) \<Longrightarrow> \<not> holds_mutex (rc_read s) \<Longrightarrow>
     var_write d lib vid (Some src) n (rc_heap s) = Some (rc, h) \<Longrightarrow>
     race_step d lib r s Outside (s\<lparr>rc_heap := h\<rparr>)"
| race_device: "race_step d lib r s Outside (s\<lparr>rc_heap := (rc_heap s)\<lparr>h_env := e\<rparr>\<rparr>)"

text \<open>
  The start: \<open>read\<close> is called for an initialised request, the heap is \<open>h0\<close>. Values that wait to be
  read back have the size of their variable.
\<close>

definition last_written_fits :: "ads_variable \<Rightarrow> bool" where
  "last_written_fits v \<longleftrightarrow> length (var_last_written v) \<le> var_size v"

definition race_start :: "ads_def \<Rightarrow> sum_read_request \<Rightarrow> 'e heap \<Rightarrow> 'e race \<Rightarrow> bool" where
  "race_start d r h0 s \<longleftrightarrow> wf_ads_def d \<and> req_ok h0 r \<and> req_initialized r
     \<and> all_bufs buf_initialized h0 (get_chunks r) \<and> (\<forall>vid \<in> set (req_variables r). last_written_fits (h_vars h0 vid))
     \<and> s = \<lparr> rc_read = Read_Start, rc_hand = Hand_Idle, rc_heap = h0, rc_answers = (\<lambda>_. None) \<rparr>"

section \<open>The invariant\<close>

text \<open>What changes only in ways that the threads do not look at.\<close>

definition race_frame :: "'e heap \<Rightarrow> 'e heap \<Rightarrow> bool" where
  "race_frame h0 h \<longleftrightarrow> h_conn h = h_conn h0 \<and> h_next_buf h = h_next_buf h0
     \<and> (\<forall>vid. keeps (h_vars h0 vid) (h_vars h vid) \<and> var_addr (h_vars h vid) = var_addr (h_vars h0 vid))
     \<and> (\<forall>bid. same_layout (h_buf h0 bid) (h_buf h bid))"

lemma same_layout_refl [simp]: "same_layout b b"
  and same_layout_trans: "same_layout b b1 \<Longrightarrow> same_layout b1 b2 \<Longrightarrow> same_layout b b2"
  by (simp_all add: same_layout_def)

lemma race_frame_refl [simp]: "race_frame h h"
  by (simp add: race_frame_def)

lemma race_frame_val: "race_frame h0 h \<Longrightarrow> val_frame h h' \<Longrightarrow> race_frame h0 h'"
  by (auto simp: race_frame_def val_frame_def h_buf_def intro: keeps_trans)

lemma race_frame_set_buf:
  "race_frame h0 h \<Longrightarrow> same_layout (h_buf h bid) b \<Longrightarrow> race_frame h0 (set_buf bid b h)"
  by (auto simp: race_frame_def intro: same_layout_trans)

lemma race_frame_env [simp]: "race_frame h0 (h\<lparr>h_env := e\<rparr>) = race_frame h0 h"
  by (simp add: race_frame_def)

text \<open>What a frame keeps of what a variable or a request sees.\<close>

lemma race_frameD:
  assumes "race_frame h0 h"
  shows "h_size h = h_size h0" and "h_reader h = h_reader h0" and "h_addr h = h_addr h0"
    and "var_write_readback (h_vars h vid) = var_write_readback (h_vars h0 vid)"
    and "last_written_fits (h_vars h0 vid) \<Longrightarrow> last_written_fits (h_vars h vid)"
    and "var_request h = var_request h0"
    and "same_layout (h_buf h0 bid) (h_buf h bid)" and "h_conn h = h_conn h0"
  using assms
  by (auto simp: race_frame_def keeps_def same_view_def h_size_def h_reader_def h_addr_def fun_eq_iff
      last_written_fits_def var_request_def)

text \<open>What a buffer holds: the old bytes, and in their place those of the answer that are stored.\<close>

definition old_bytes :: "'e heap \<Rightarrow> read_request_chunk \<Rightarrow> byte list" where
  "old_bytes h0 c = the (buf_buffer (h_buf h0 (chunk_buffer c)))"

fun to_store :: "read_pc \<Rightarrow> read_request_chunk \<Rightarrow> nat list" where
  "to_store (Read_Store c cs rc resp todo) c' = (if c' = c then todo else [])"
| "to_store _ c' = []"

definition now_bytes ::
  "'e heap \<Rightarrow> (nat \<Rightarrow> (int \<times> byte list) option) \<Rightarrow> read_pc \<Rightarrow> read_request_chunk \<Rightarrow> byte list" where
  "now_bytes h0 a p c =
     (case a (chunk_buffer c) of
        None \<Rightarrow> old_bytes h0 c
      | Some (rc, resp) \<Rightarrow>
          put_bytes (filter (\<lambda>i. i \<notin> set (to_store p c)) [0..<min (u32 (length (old_bytes h0 c))) (length resp)])
            (\<lambda>i. resp ! i) (old_bytes h0 c))"

text \<open>The chunks that are still to be read, the answers so far, and the states of the buffers.\<close>

fun chunks_left :: "sum_read_request \<Rightarrow> read_pc \<Rightarrow> read_request_chunk list" where
  "chunks_left r Read_Start = get_chunks r"
| "chunks_left r (Read_Loop cs) = cs"
| "chunks_left r (Read_Call c cs) = c # cs"
| "chunks_left r (Read_Store c cs rc resp todo) = c # cs"
| "chunks_left r _ = []"

definition read_done :: "(nat \<Rightarrow> (int \<times> byte list) option) \<Rightarrow> 'e heap \<Rightarrow> read_request_chunk \<Rightarrow> bool" where
  "read_done a h c \<longleftrightarrow> (\<exists>resp. a (chunk_buffer c) = Some (0, resp)) \<and> buf_state (h_buf h (chunk_buffer c)) = Buf_Valid"

fun progress_ok ::
  "sum_read_request \<Rightarrow> (nat \<Rightarrow> (int \<times> byte list) option) \<Rightarrow> read_pc \<Rightarrow> 'e heap \<Rightarrow> bool" where
  "progress_ok r a (Read_Invalid rc cs) h \<longleftrightarrow> rc \<noteq> 0
     \<and> (\<forall>c \<in> set (get_chunks r) - set cs. buf_state (h_buf h (chunk_buffer c)) = Buf_Invalid)"
| "progress_ok r a (Read_Return rc) h \<longleftrightarrow>
     (if rc = 0 then \<forall>c \<in> set (get_chunks r). read_done a h c else all_invalid h (get_chunks r))"
| "progress_ok r a (Read_Store c cs rc resp todo) h \<longleftrightarrow> a (chunk_buffer c) = Some (rc, resp)
     \<and> (\<forall>c \<in> set cs. a (chunk_buffer c) = None) \<and> (\<forall>c \<in> set (get_chunks r) - set (c # cs). read_done a h c)"
| "progress_ok r a p h \<longleftrightarrow> (\<forall>c \<in> set (chunks_left r p). a (chunk_buffer c) = None)
     \<and> (\<forall>c \<in> set (get_chunks r) - set (chunks_left r p). read_done a h c)"

definition scan_inv ::
  "ads_def \<Rightarrow> 'e ads_lib \<Rightarrow> sum_read_request \<Rightarrow> 'e heap \<Rightarrow> read_pc \<Rightarrow> 'e heap
     \<Rightarrow> (nat \<Rightarrow> (int \<times> byte list) option) \<Rightarrow> bool" where
  "scan_inv d lib r h0 p h a \<longleftrightarrow> read_ok r p h \<and> req_initialized r \<and> race_frame h0 h
     \<and> (\<forall>c \<in> set (get_chunks r). buf_buffer (h_buf h (chunk_buffer c)) = Some (now_bytes h0 a p c))
     \<and> (\<forall>c \<in> set (get_chunks r). \<forall>rc resp. a (chunk_buffer c) = Some (rc, resp) \<longrightarrow>
          (\<exists>e e1. chunk_call d lib (h0\<lparr>h_env := e\<rparr>) c = (rc, resp, e1)))
     \<and> (\<forall>c \<in> set (chunks_left r p). buf_state (h_buf h (chunk_buffer c)) = buf_state (h_buf h0 (chunk_buffer c)))
     \<and> progress_ok r a p h"

lemma scan_invD:
  assumes "scan_inv d lib r h0 p h a"
  shows "read_ok r p h" and "race_frame h0 h" and "progress_ok r a p h" and "req_initialized r"
    and "c \<in> set (get_chunks r) \<Longrightarrow> buf_buffer (h_buf h (chunk_buffer c)) = Some (now_bytes h0 a p c)"
    and "c \<in> set (get_chunks r) \<Longrightarrow> a (chunk_buffer c) = Some (rc, resp) \<Longrightarrow>
          \<exists>e e1. chunk_call d lib (h0\<lparr>h_env := e\<rparr>) c = (rc, resp, e1)"
    and "c \<in> set (chunks_left r p) \<Longrightarrow> buf_state (h_buf h (chunk_buffer c)) = buf_state (h_buf h0 (chunk_buffer c))"
  using assms by (simp_all add: scan_inv_def)

text \<open>A chunk is known by its buffer.\<close>

lemma chunk_of_buffer:
  assumes "req_ok h r" and "c \<in> set (get_chunks r)" and "c' \<in> set (get_chunks r)" and "chunk_buffer c' = chunk_buffer c"
  shows "c' = c"
proof -
  have "inj_on chunk_buffer (set (get_chunks r))"
    using assms(1) by (simp add: req_ok_def chunks_ok_def distinct_map)
  with assms show ?thesis by (simp add: inj_on_def)
qed

lemma read_ok_req: "read_ok r p h \<Longrightarrow> req_ok h r"
  by (simp add: read_ok_def)

lemma suffix_distinct:
  assumes "req_ok h r" and "suffix (c # cs) (get_chunks r)"
  shows "c \<in> set (get_chunks r)" and "c \<notin> set cs" and "set cs \<subseteq> set (get_chunks r)"
proof -
  have "distinct (get_chunks r)" using assms(1) by (simp add: req_ok_def chunks_ok_def distinct_map)
  with assms(2) show "c \<in> set (get_chunks r)" "c \<notin> set cs" "set cs \<subseteq> set (get_chunks r)"
    by (auto simp: suffix_def)
qed

lemma length_old:
  assumes "scan_inv d lib r h0 p h a" and "c \<in> set (get_chunks r)"
  shows "length (old_bytes h0 c) = buf_buffer_size (h_buf h (chunk_buffer c))"
proof -
  obtain bs where "buf_buffer (h_buf h (chunk_buffer c)) = Some bs"
      "length bs = buf_buffer_size (h_buf h (chunk_buffer c))"
    using read_okD [OF scan_invD(1) [OF assms(1)] assms(2)] by metis
  moreover have "length (now_bytes h0 a p c) = length (old_bytes h0 c)"
    by (simp add: now_bytes_def split: option.splits prod.splits)
  ultimately show ?thesis using scan_invD(5) [OF assms] by simp
qed

lemma chunk_call_race:
  "race_frame h0 h \<Longrightarrow> chunk_call d lib h c = chunk_call d lib (h0\<lparr>h_env := h_env h\<rparr>) c"
  by (simp add: chunk_call_def race_frame_def same_layout_def)

subsection \<open>Steps of the scan thread\<close>

text \<open>A new buffer with the same bytes and state changes nothing that the invariant says.\<close>

lemma now_bytes_cong: "to_store p' c = to_store p c \<Longrightarrow> now_bytes h0 a p' c = now_bytes h0 a p c"
  unfolding now_bytes_def by (simp only:)

lemma scan_inv_loop:
  assumes inv: "scan_inv d lib r h0 (Read_Loop (c # cs)) h a" and ok: "read_ok r (Read_Call c cs) (set_buf (chunk_buffer c) b h)"
    and b: "same_layout (h_buf h (chunk_buffer c)) b" "buf_buffer b = buf_buffer (h_buf h (chunk_buffer c))"
      "buf_state b = buf_state (h_buf h (chunk_buffer c))"
  shows "scan_inv d lib r h0 (Read_Call c cs) (set_buf (chunk_buffer c) b h) a"
proof -
  note i = scan_invD [OF inv]
  have "buf_buffer (h_buf (set_buf (chunk_buffer c) b h) bid) = buf_buffer (h_buf h bid)"
    "buf_state (h_buf (set_buf (chunk_buffer c) b h) bid) = buf_state (h_buf h bid)" for bid
    using b by simp_all
  then show ?thesis
    using inv ok race_frame_set_buf [OF i(2) b(1)]
    by (simp add: scan_inv_def read_done_def now_bytes_cong [of "Read_Call c cs" _ "Read_Loop (c # cs)"])
qed

lemma scan_inv_call:
  assumes inv: "scan_inv d lib r h0 (Read_Call c cs) h a" and call: "chunk_call d lib h c = (rc, resp, e1)"
    and todo: "todo = [0..<min (u32 (buf_buffer_size (h_buf h (chunk_buffer c)))) (length resp)]"
    and ok: "read_ok r (Read_Store c cs rc resp todo) (h\<lparr>h_env := e1\<rparr>)"
  shows "scan_inv d lib r h0 (Read_Store c cs rc resp todo) (h\<lparr>h_env := e1\<rparr>) (a(chunk_buffer c \<mapsto> (rc, resp)))"
proof -
  note i = scan_invD [OF inv]
  have req: "req_ok h r" and suf: "suffix (c # cs) (get_chunks r)" using i(1) by (simp_all add: read_ok_def)
  note s = suffix_distinct [OF req suf]
  let ?a = "a(chunk_buffer c \<mapsto> (rc, resp))" and ?p = "Read_Store c cs rc resp todo"
  have other: "?a (chunk_buffer c') = a (chunk_buffer c')" if "c' \<in> set (get_chunks r)" "c' \<noteq> c" for c'
    using chunk_of_buffer [OF req s(1) that(1)] that(2) by auto
  have none: "a (chunk_buffer c) = None" using i(3) by simp
  have now: "now_bytes h0 ?a ?p c' = now_bytes h0 a (Read_Call c cs) c'" if c': "c' \<in> set (get_chunks r)" for c'
  proof (cases "c' = c")
    case True
    have "filter (\<lambda>i. i \<notin> set todo) [0..<min (u32 (length (old_bytes h0 c))) (length resp)] = []"
      using length_old [OF inv s(1)] todo by (simp add: filter_empty_conv)
    then show ?thesis using none True by (simp add: now_bytes_def)
  next
    case False
    then show ?thesis using other [OF c' False] by (simp add: now_bytes_def split: option.split)
  qed
  have calls: "\<exists>e e2. chunk_call d lib (h0\<lparr>h_env := e\<rparr>) c' = (rc', resp', e2)"
    if "c' \<in> set (get_chunks r)" "?a (chunk_buffer c') = Some (rc', resp')" for c' rc' resp'
  proof (cases "c' = c")
    case True
    with that(2) call chunk_call_race [OF i(2), of d lib c] show ?thesis by auto
  next
    case False
    with that other i(6) show ?thesis by metis
  qed
  have "read_done ?a (h\<lparr>h_env := e1\<rparr>) c'" if "c' \<in> set (get_chunks r)" "c' \<noteq> c" "read_done a h c'" for c'
    using that other by (simp add: read_done_def)
  moreover have "?a (chunk_buffer c') = None" if "c' \<in> set cs" for c'
  proof -
    have "c' \<in> set (get_chunks r)" "c' \<noteq> c" using that s by auto
    from other [OF this] i(3) that show ?thesis by simp
  qed
  ultimately have "progress_ok r ?a ?p (h\<lparr>h_env := e1\<rparr>)" using i(3) by auto
  with now calls i ok show ?thesis by (simp add: scan_inv_def)
qed

text \<open>One more byte of the answer is stored.\<close>

lemma now_bytes_store:
  assumes "a (chunk_buffer c) = Some (rc, resp)" and "i \<in> set todo" and "distinct todo"
    and "i < length resp" and "i < u32 (length (old_bytes h0 c))"
  shows "(now_bytes h0 a (Read_Store c cs rc resp todo) c)[i := resp ! i]
    = now_bytes h0 a (Read_Store c cs rc resp (remove1 i todo)) c"
proof -
  let ?old = "old_bytes h0 c" and ?rest = "\<lambda>todo. filter (\<lambda>i. i \<notin> set todo) [0..<min (u32 (length (old_bytes h0 c))) (length resp)]"
  have "set (remove1 i todo) = set todo - {i}" by (rule set_remove1_eq [OF assms(3)])
  then have mem: "j \<in> set (?rest (remove1 i todo)) \<longleftrightarrow> j = i \<or> j \<in> set (?rest todo)" for j
    using assms(2,4,5) by auto
  have "i < length ?old" using assms(5) u32_le [of "length ?old"] by simp
  then have "(put_bytes (?rest todo) (\<lambda>i. resp ! i) ?old)[i := resp ! i]
      = put_bytes (?rest (remove1 i todo)) (\<lambda>i. resp ! i) ?old"
    by (intro nth_equalityI) (simp_all add: nth_list_update mem del: set_filter)
  with assms(1) show ?thesis by (simp add: now_bytes_def)
qed

lemma scan_inv_store:
  assumes inv: "scan_inv d lib r h0 (Read_Store c cs rc resp todo) h a" and i: "i \<in> set todo"
    and bs: "buf_buffer (h_buf h (chunk_buffer c)) = Some bs"
    and ok: "read_ok r (Read_Store c cs rc resp (remove1 i todo))
      (set_buf (chunk_buffer c) ((h_buf h (chunk_buffer c))\<lparr>buf_buffer := Some (bs[i := resp ! i])\<rparr>) h)"
  shows "scan_inv d lib r h0 (Read_Store c cs rc resp (remove1 i todo))
    (set_buf (chunk_buffer c) ((h_buf h (chunk_buffer c))\<lparr>buf_buffer := Some (bs[i := resp ! i])\<rparr>) h) a"
proof -
  note v = scan_invD [OF inv]
  have req: "req_ok h r" and suf: "suffix (c # cs) (get_chunks r)" and dis: "distinct todo"
    and bound: "i < length resp" "i < u32 (buf_buffer_size (h_buf h (chunk_buffer c)))"
    using v(1) i by (simp_all add: read_ok_def)
  note s = suffix_distinct [OF req suf]
  let ?p = "Read_Store c cs rc resp (remove1 i todo)"
  let ?b = "(h_buf h (chunk_buffer c))\<lparr>buf_buffer := Some (bs[i := resp ! i])\<rparr>"
  have ans: "a (chunk_buffer c) = Some (rc, resp)" using v(3) by simp
  have "bs = now_bytes h0 a (Read_Store c cs rc resp todo) c" using v(5) [OF s(1)] bs by simp
  then have here: "bs[i := resp ! i] = now_bytes h0 a ?p c"
    using ans i dis bound length_old [OF inv s(1)] by (simp add: now_bytes_store)
  have now: "buf_buffer (h_buf (set_buf (chunk_buffer c) ?b h) (chunk_buffer c')) = Some (now_bytes h0 a ?p c')"
    if c': "c' \<in> set (get_chunks r)" for c'
  proof (cases "c' = c")
    case True
    then show ?thesis using here by simp
  next
    case False
    then have "chunk_buffer c' \<noteq> chunk_buffer c" using chunk_of_buffer [OF req s(1) c'] by blast
    then show ?thesis
      using v(5) [OF c'] False by (simp add: now_bytes_def split: option.split)
  qed
  have "buf_state (h_buf (set_buf (chunk_buffer c) ?b h) bid) = buf_state (h_buf h bid)" for bid by simp
  then have "progress_ok r a ?p (set_buf (chunk_buffer c) ?b h)" using v(3) by (simp add: read_done_def)
  moreover have "same_layout (h_buf h (chunk_buffer c)) ?b" by (simp add: same_layout_def)
  ultimately show ?thesis
    using now v ok race_frame_set_buf [OF v(2)] by (simp add: scan_inv_def)
qed

text \<open>The ADS call of a chunk has returned.\<close>

lemma chunks_left_sub: "read_ok r p h \<Longrightarrow> set (chunks_left r p) \<subseteq> set (get_chunks r)"
  by (cases p) (auto simp: read_ok_def suffix_def)

lemma scan_inv_state:
  assumes inv: "scan_inv d lib r h0 p h a" and c: "c \<in> set (get_chunks r)"
    and ok: "read_ok r p' (set_buf (chunk_buffer c) ((h_buf h (chunk_buffer c))\<lparr>buf_state := st\<rparr>) h)"
    and now: "\<And>c'. to_store p' c' = to_store p c'"
    and left: "set (chunks_left r p') \<subseteq> set (chunks_left r p) - {c}"
    and prog: "progress_ok r a p' (set_buf (chunk_buffer c) ((h_buf h (chunk_buffer c))\<lparr>buf_state := st\<rparr>) h)"
  shows "scan_inv d lib r h0 p' (set_buf (chunk_buffer c) ((h_buf h (chunk_buffer c))\<lparr>buf_state := st\<rparr>) h) a"
proof -
  note v = scan_invD [OF inv]
  let ?b = "(h_buf h (chunk_buffer c))\<lparr>buf_state := st\<rparr>"
  have "buf_buffer (h_buf (set_buf (chunk_buffer c) ?b h) bid) = buf_buffer (h_buf h bid)" for bid by simp
  moreover have "buf_state (h_buf (set_buf (chunk_buffer c) ?b h) (chunk_buffer c')) = buf_state (h_buf h0 (chunk_buffer c'))"
    if "c' \<in> set (chunks_left r p')" for c'
  proof -
    have c': "c' \<in> set (chunks_left r p)" "c' \<noteq> c" using that left by auto
    then have "chunk_buffer c' \<noteq> chunk_buffer c"
      using chunk_of_buffer [OF read_ok_req [OF v(1)] c] chunks_left_sub [OF v(1)] by blast
    with v(7) [OF c'(1)] show ?thesis by simp
  qed
  ultimately show ?thesis
    using v ok prog race_frame_set_buf [OF v(2), of "chunk_buffer c" ?b]
    by (simp add: scan_inv_def now_bytes_cong [OF now])
qed

lemma scan_inv_point:
  assumes inv: "scan_inv d lib r h0 p h a" and ok: "read_ok r p' h"
    and now: "\<And>c'. to_store p' c' = to_store p c'" and left: "set (chunks_left r p') \<subseteq> set (chunks_left r p)"
    and prog: "progress_ok r a p' h"
  shows "scan_inv d lib r h0 p' h a"
  using inv ok left prog by (auto simp: scan_inv_def now_bytes_cong [OF now])

lemma scan_inv_step:
  assumes wf: "wf_ads_def d" and inv: "scan_inv d lib r h0 p h a" and may: "read_may p i"
    and step: "read_step d lib r i p h = Some (p', h')"
  shows "scan_inv d lib r h0 p' h' (note_answer p p' a)"
proof -
  note v = scan_invD [OF inv]
  have req: "req_ok h r" using v(1) by (rule read_ok_req)
  have ok: "read_ok r p' h'" using read_step_ok [OF v(1) may, of d lib] step by auto
  show ?thesis
  proof (cases p)
    case Read_Start
    with step v(4) have "p' = Read_Loop (get_chunks r)" "h' = h" by simp_all
    then show ?thesis
      using scan_inv_point [OF inv, of p'] ok v(3) Read_Start by simp
  next
    case (Read_Loop cs)
    show ?thesis
    proof (cases cs)
      case Nil
      with step Read_Loop have "p' = Read_Return 0" "h' = h" by simp_all
      then show ?thesis
        using scan_inv_point [OF inv, of p'] ok v(3) Read_Loop Nil by simp
    next
      case (Cons c cs1)
      note p = Read_Loop [unfolded Cons]
      obtain b where b: "same_layout (h_buf h (chunk_buffer c)) b"
          "buf_buffer b = buf_buffer (h_buf h (chunk_buffer c))" "buf_state b = buf_state (h_buf h (chunk_buffer c))"
        and s: "read_step d lib r i (Read_Loop (c # cs1)) h = Some (Read_Call c cs1, set_buf (chunk_buffer c) b h)"
        using step_loop [OF v(1) [unfolded p], of d lib i] by metis
      have e: "p' = Read_Call c cs1" "h' = set_buf (chunk_buffer c) b h" using s step p by simp_all
      show ?thesis
        using scan_inv_loop [OF inv [unfolded p] ok [unfolded e] b] p e by simp
    qed
  next
    case (Read_Call c cs)
    obtain rc resp e1 where call: "chunk_call d lib h c = (rc, resp, e1)" by (cases "chunk_call d lib h c") auto
    have e: "p' = Read_Store c cs rc resp [0..<min (u32 (buf_buffer_size (h_buf h (chunk_buffer c)))) (length resp)]"
        "h' = h\<lparr>h_env := e1\<rparr>"
      using step_call [OF v(1) [unfolded Read_Call] call, of i] step Read_Call by simp_all
    show ?thesis
      using scan_inv_call [OF inv [unfolded Read_Call] call refl ok [unfolded e]] Read_Call e by simp
  next
    case (Read_Store c cs rc resp todo)
    note o = v(1) [unfolded Read_Store]
    have suf: "suffix (c # cs) (get_chunks r)" using o by (simp add: read_ok_def)
    note s = suffix_distinct [OF req suf]
    show ?thesis
    proof (cases "i \<in> set todo")
      case True
      obtain bs where bs: "buf_buffer (h_buf h (chunk_buffer c)) = Some bs"
        and st: "read_step d lib r i (Read_Store c cs rc resp todo) h =
          Some (Read_Store c cs rc resp (remove1 i todo),
            set_buf (chunk_buffer c) ((h_buf h (chunk_buffer c))\<lparr>buf_buffer := Some (bs[i := resp ! i])\<rparr>) h)"
        using step_store [OF o True] by metis
      have e: "p' = Read_Store c cs rc resp (remove1 i todo)"
        "h' = set_buf (chunk_buffer c) ((h_buf h (chunk_buffer c))\<lparr>buf_buffer := Some (bs[i := resp ! i])\<rparr>) h"
        using st step Read_Store by simp_all
      show ?thesis
        using scan_inv_store [OF inv [unfolded Read_Store] True bs ok [unfolded e]] Read_Store e by simp
    next
      case False
      then have todo: "todo = []" using may Read_Store by simp
      have prog: "a (chunk_buffer c) = Some (rc, resp)" "\<forall>c \<in> set cs. a (chunk_buffer c) = None"
        "\<forall>c \<in> set (get_chunks r) - set (c # cs). read_done a h c"
        using v(3) Read_Store by simp_all
      show ?thesis
      proof (cases "rc = 0")
        case True
        let ?h = "set_buf (chunk_buffer c) ((h_buf h (chunk_buffer c))\<lparr>buf_state := Buf_Valid\<rparr>) h"
        have e: "p' = Read_Loop cs" "h' = ?h" using step Read_Store False True by simp_all
        have "read_done a ?h c'" if "c' \<in> set (get_chunks r) - set cs" for c'
          using prog that True by (cases "c' = c") (auto simp: read_done_def)
        then have "progress_ok r a p' ?h" using prog(2) e by simp
        with scan_inv_state [OF inv s(1), of p' Buf_Valid] ok show ?thesis
          using s(2) by (simp add: e Read_Store todo subset_Diff_insert subset_insertI)
      next
        case nz: False
        have e: "p' = Read_Invalid (ads_rc_to_epicsads_error d rc) (get_chunks r)" "h' = h"
          using step Read_Store False nz by simp_all
        have "progress_ok r a p' h" using ads_rc_nonzero [OF wf, of rc] nz e by simp
        with scan_inv_point [OF inv, of p'] ok show ?thesis
          by (simp add: e Read_Store todo)
      qed
    qed
  next
    case (Read_Invalid rc cs)
    show ?thesis
    proof (cases cs)
      case Nil
      with step Read_Invalid have "p' = Read_Return rc" "h' = h" by simp_all
      then show ?thesis
        using scan_inv_point [OF inv, of p'] ok v(3) Read_Invalid Nil
        by (simp add: all_invalid_def all_bufs_def)
    next
      case (Cons c cs1)
      have suf: "suffix (c # cs1) (get_chunks r)" using v(1) Read_Invalid Cons by (simp add: read_ok_def)
      note s = suffix_distinct [OF req suf]
      let ?h = "set_buf (chunk_buffer c) ((h_buf h (chunk_buffer c))\<lparr>buf_state := Buf_Invalid\<rparr>) h"
      have e: "p' = Read_Invalid rc cs1" "h' = ?h" using step Read_Invalid Cons by simp_all
      have "progress_ok r a p' ?h" using v(3) Read_Invalid Cons e by auto
      with scan_inv_state [OF inv s(1), of p' Buf_Invalid] ok show ?thesis
        by (simp add: e Read_Invalid Cons)
    qed
  next
    case (Read_Return rc)
    with may show ?thesis by simp
  qed
qed

lemma note_answer_mono:
  assumes "scan_inv d lib r h0 p h a" and "a bid = Some x"
  shows "note_answer p p' a bid = Some x"
proof -
  have "a (chunk_buffer c) = None" if "p = Read_Call c cs" for c cs
    using scan_invD(3) [OF assms(1)] that by simp
  with assms(2) show ?thesis by (cases p; cases p') auto
qed

end
