(* ===== verification/Race_Inv.thy ===== *)
theory Race_Inv
  imports Read_Races
begin

text \<open>
  The invariant of \<open>read\<close> and the handlers running at the same time: where the scan thread is, what each
  buffer holds, and where the bytes come from that a handler has got.
\<close>

section \<open>Handlers\<close>

text \<open>The place of a variable in its buffer.\<close>

definition code_index :: "'e heap \<Rightarrow> nat \<Rightarrow> nat" where
  "code_index h vid = 4 * pos_off_result (h_reader h vid)"

definition slot_index :: "'e heap \<Rightarrow> read_request_chunk \<Rightarrow> nat \<Rightarrow> nat" where
  "slot_index h c vid = 4 * length (chunk_variables c) + pos_off_data (h_reader h vid)"

lemma slot_facts:
  assumes "read_ok r p h" and "vid \<in> set (req_variables r)"
  shows "\<exists>c b bs. c \<in> set (get_chunks r) \<and> vid \<in> set (chunk_variables c)
    \<and> b = h_buf h (chunk_buffer c)
    \<and> pos_buffer (h_reader h vid) = Some (chunk_buffer c) \<and> reader_buf h vid = Some b \<and> buf_buffer b = Some bs
    \<and> u16 (pos_off_result (h_reader h vid)) = pos_off_result (h_reader h vid)
    \<and> pos_off_result (h_reader h vid) < buf_next_result_offset b
    \<and> (\<forall>m \<le> h_size h vid. u64 (pos_off_data (h_reader h vid) + m) \<le> buf_next_data_offset b)
    \<and> start_of_data_offset b = 4 * length (chunk_variables c)
    \<and> code_index h vid + 4 \<le> 4 * length (chunk_variables c)
    \<and> slot_index h c vid + h_size h vid \<le> length bs"
proof -
  obtain c i where c: "c \<in> set (get_chunks r)" and i: "i < length (chunk_variables c)" and v: "chunk_variables c ! i = vid"
    by (rule req_variable_slot [OF assms(2)])
  let ?b = "h_buf h (chunk_buffer c)"
  from read_okD [OF assms(1) c] obtain bs where inv: "buf_inv (h_size h) ?b" and vs: "buf_variables ?b = chunk_variables c"
    and some: "h_bufs h (chunk_buffer c) = Some ?b" and bs: "buf_buffer ?b = Some bs" "length bs = buf_buffer_size ?b"
    by metis
  note rd = req_reader [OF read_ok_req [OF assms(1)] c i, unfolded v]
  have off: "slot_offset (h_size h) ?b i + h_size h vid \<le> buf_next_data_offset ?b"
    using sum_list_take_Suc_le [of i "chunk_variables c" "h_size h"] i v inv vs
    by (simp add: slot_offset_def buf_inv_def)
  have n: "buf_next_result_offset ?b = length (chunk_variables c)" "length (chunk_variables c) < 65536"
    "buf_buffer_size ?b = 4 * length (chunk_variables c) + buf_next_data_offset ?b" "buf_buffer_size ?b < 2 ^ 64"
    using inv vs by (auto simp: buf_inv_def)
  have "vid \<in> set (chunk_variables c)" using i v by auto
  moreover have "u64 (slot_offset (h_size h) ?b i + m) \<le> buf_next_data_offset ?b" if "m \<le> h_size h vid" for m
    using off that n by simp
  moreover have "start_of_data_offset ?b = 4 * length (chunk_variables c)"
    using inv vs by (simp add: start_of_data_offset_def)
  ultimately show ?thesis
    using c i some bs n off
    by (intro exI [of _ c] exI [of _ ?b] exI [of _ bs]) (simp add: rd reader_buf_def code_index_def slot_index_def)
qed

text \<open>
  \<open>x\<close> is what byte \<open>j\<close> of the buffer of \<open>vid\<close> was before the call, or what it is in the answer.
\<close>

definition seen :: "'e heap \<Rightarrow> (nat \<Rightarrow> (int \<times> byte list) option) \<Rightarrow> nat \<Rightarrow> nat \<Rightarrow> byte \<Rightarrow> bool" where
  "seen h0 a vid j x \<longleftrightarrow> (\<exists>bid. pos_buffer (h_reader h0 vid) = Some bid
     \<and> (x = the (buf_buffer (h_buf h0 bid)) ! j
        \<or> (\<exists>rc resp. a bid = Some (rc, resp) \<and> j < length resp \<and> x = resp ! j)))"

definition code_seen :: "'e heap \<Rightarrow> (nat \<Rightarrow> (int \<times> byte list) option) \<Rightarrow> nat \<Rightarrow> nat \<Rightarrow> bool" where
  "code_seen h0 a vid code \<longleftrightarrow> (\<exists>bs. code = le_decode bs \<and> length bs = 4
     \<and> (\<forall>k < 4. seen h0 a vid (code_index h0 vid + k) (bs ! k)))"

fun hand_ok ::
  "sum_read_request \<Rightarrow> 'e heap \<Rightarrow> (nat \<Rightarrow> (int \<times> byte list) option) \<Rightarrow> hand_pc \<Rightarrow> bool" where
  "hand_ok r h0 a Hand_Idle \<longleftrightarrow> True"
| "hand_ok r h0 a (Hand_Start vid n dst) \<longleftrightarrow> call_ok r h0 vid n dst"
| "hand_ok r h0 a (Hand_Read vid n dst) \<longleftrightarrow> call_ok r h0 vid n dst"
| "hand_ok r h0 a (Hand_Result vid n dst) \<longleftrightarrow> call_ok r h0 vid n dst"
| "hand_ok r h0 a (Hand_Data vid n dst code todo) \<longleftrightarrow> call_ok r h0 vid n dst \<and> code_seen h0 a vid code
     \<and> distinct todo \<and> set todo \<subseteq> {..<min n (h_size h0 vid)}
     \<and> (\<forall>c \<in> set (get_chunks r). vid \<in> set (chunk_variables c) \<longrightarrow>
          (\<forall>k < min n (h_size h0 vid). k \<notin> set todo \<longrightarrow> seen h0 a vid (slot_index h0 c vid + k) (dst ! k)))"
| "hand_ok r h0 a (Hand_Finish vid n dst code) \<longleftrightarrow> call_ok r h0 vid n dst \<and> code_seen h0 a vid code
     \<and> (\<forall>c \<in> set (get_chunks r). vid \<in> set (chunk_variables c) \<longrightarrow>
          (\<forall>k < min n (h_size h0 vid). seen h0 a vid (slot_index h0 c vid + k) (dst ! k)))"
| "hand_ok r h0 a (Hand_Return vid n rc dst) \<longleftrightarrow> rc \<in> {0, EPICSADS_NO_DATA, EPICSADS_DISCONNECTED}"

lemma seen_mono: "seen h0 a vid j x \<Longrightarrow> (\<And>bid y. a bid = Some y \<Longrightarrow> a' bid = Some y) \<Longrightarrow> seen h0 a' vid j x"
  unfolding seen_def by metis

lemma hand_ok_mono:
  assumes "hand_ok r h0 a q" and "\<And>bid y. a bid = Some y \<Longrightarrow> a' bid = Some y"
  shows "hand_ok r h0 a' q"
proof -
  have s: "seen h0 a vid j x \<Longrightarrow> seen h0 a' vid j x" for vid j x using seen_mono assms(2) by metis
  have c: "code_seen h0 a vid code \<Longrightarrow> code_seen h0 a' vid code" for vid code
    unfolding code_seen_def using s by blast
  show ?thesis using assms(1) s c by (cases q) auto
qed

text \<open>Every byte that a buffer holds at any moment is an old one or one of the answer.\<close>

lemma now_bytes_seen:
  assumes "pos_buffer (h_reader h0 vid) = Some (chunk_buffer c)" and "j < length (now_bytes h0 a p c)"
  shows "seen h0 a vid j (now_bytes h0 a p c ! j)"
proof (cases "a (chunk_buffer c)")
  case None
  with assms show ?thesis by (simp add: seen_def now_bytes_def old_bytes_def)
next
  case (Some x)
  then obtain rc resp where x: "a (chunk_buffer c) = Some (rc, resp)" by (cases x) auto
  then have "j < length (old_bytes h0 c)" using assms(2) by (simp add: now_bytes_def)
  with x assms(1) show ?thesis by (auto simp: seen_def now_bytes_def old_bytes_def)
qed

lemma chunk_of_variable:
  assumes "req_ok h r" and "c \<in> set (get_chunks r)" and "c' \<in> set (get_chunks r)"
    and "vid \<in> set (chunk_variables c)" and "vid \<in> set (chunk_variables c')"
  shows "c' = c"
proof -
  obtain i j where "i < length (chunk_variables c)" "chunk_variables c ! i = vid"
      "j < length (chunk_variables c')" "chunk_variables c' ! j = vid"
    using assms(4,5) by (auto simp: in_set_conv_nth)
  with req_reader [OF assms(1,2)] req_reader [OF assms(1,3)]
  have "chunk_buffer c' = chunk_buffer c" by (metis buffer_position.select_convs(1) option.inject)
  then show ?thesis using chunk_of_buffer [OF assms(1-3)] by simp
qed

lemma val_frame_refl [simp]: "val_frame h h"
  by (simp add: val_frame_def)

lemma val_frame_last_written:
  "length bs \<le> var_size (h_vars h vid) \<Longrightarrow> val_frame h (upd_var vid (\<lambda>v. v\<lparr>var_last_written := bs\<rparr>) h)"
  by (auto simp: val_frame_def keeps_last_written upd_var_def)

text \<open>Each step of a handler is defined, whatever the scan thread has done in the meantime.\<close>

lemma hand_inv_step:
  assumes inv: "scan_inv d lib r h0 p h a" and hand: "hand_ok r h0 a q" and may: "hand_may q i"
    and fits: "\<And>vid. vid \<in> set (req_variables r) \<Longrightarrow> last_written_fits (h_vars h0 vid)"
  shows "\<exists>q' h'. hand_step d i q h = Some (q', h') \<and> hand_ok r h0 a q' \<and> val_frame h h'"
proof -
  note v = scan_invD [OF inv]
  note f = race_frameD [OF v(2)]
  show ?thesis
  proof (cases q)
    case (Hand_Start vid n dst)
    then have "vid \<in> set (req_variables r)" using hand by (simp add: call_ok_def)
    from slot_facts [OF v(1) this] obtain c b where "c \<in> set (get_chunks r)"
        "pos_buffer (h_reader h vid) = Some (chunk_buffer c)" "reader_buf h vid = Some b" by blast
    moreover from this have "h_reader h vid \<noteq> EMPTY_BUFFER_DATA_POSITION"
      by (auto simp: EMPTY_BUFFER_DATA_POSITION_def)
    ultimately show ?thesis using Hand_Start hand by (simp add: Let_def)
  next
    case (Hand_Read vid n dst)
    then have "vid \<in> set (req_variables r)" using hand by (simp add: call_ok_def)
    from slot_facts [OF v(1) this] obtain c b bs where "reader_buf h vid = Some b" "buf_buffer b = Some bs"
      "u16 (pos_off_result (h_reader h vid)) < buf_next_result_offset b"
      "u64 (pos_off_data (h_reader h vid) + min n (h_size h vid)) \<le> buf_next_data_offset b"
      by auto
    with Hand_Read hand show ?thesis by simp
  next
    case (Hand_Result vid n dst)
    then have vid: "vid \<in> set (req_variables r)" using hand by (simp add: call_ok_def)
    from slot_facts [OF v(1) vid] obtain c b bs where c: "c \<in> set (get_chunks r)" "vid \<in> set (chunk_variables c)"
      and b: "b = h_buf h (chunk_buffer c)" "reader_buf h vid = Some b" "buf_buffer b = Some bs"
      and pos: "pos_buffer (h_reader h vid) = Some (chunk_buffer c)"
      and off: "u16 (pos_off_result (h_reader h vid)) = pos_off_result (h_reader h vid)"
        "start_of_data_offset b = 4 * length (chunk_variables c)"
        "code_index h vid + 4 \<le> 4 * length (chunk_variables c)" "slot_index h c vid + h_size h vid \<le> length bs"
      by blast
    have bs: "bs = now_bytes h0 a p c" using v(5) [OF c(1)] b by simp
    let ?code = "take 4 (drop (code_index h vid) bs)"
    have len: "code_index h vid + 4 \<le> length bs" using off by (simp add: slot_index_def)
    then have read: "mem_read bs (4 * u16 (pos_off_result (h_reader h vid))) 4 = Some ?code"
      using off(1) by (simp add: code_index_def)
    have "seen h0 a vid (code_index h0 vid + k) (?code ! k)" if "k < 4" for k
      using now_bytes_seen [of h0 vid c "code_index h vid + k" a p] that len pos bs f(2)
      by (simp add: code_index_def)
    moreover have "length ?code = 4" using len by simp
    ultimately have "code_seen h0 a vid (le_decode ?code)" unfolding code_seen_def by blast
    moreover have "data_index h vid b 0 \<le> length bs" using off by (simp add: data_index_def slot_index_def)
    moreover have "hand_step d i q h = Some (Hand_Data vid n dst (le_decode ?code) [0..<min n (h_size h vid)], h)"
      using Hand_Result b(2,3) read calculation(2) by simp
    ultimately show ?thesis using Hand_Result hand f(1) by auto
  next
    case (Hand_Data vid n dst code todo)
    then have vid: "vid \<in> set (req_variables r)" and n: "n \<le> length dst" using hand by (simp_all add: call_ok_def)
    show ?thesis
    proof (cases "i \<in> set todo")
      case False
      then have "todo = []" using may Hand_Data by simp
      with Hand_Data hand show ?thesis by simp
    next
      case True
      from slot_facts [OF v(1) vid] obtain c b bs where c: "c \<in> set (get_chunks r)" "vid \<in> set (chunk_variables c)"
        and b: "b = h_buf h (chunk_buffer c)" "reader_buf h vid = Some b" "buf_buffer b = Some bs"
        and pos: "pos_buffer (h_reader h vid) = Some (chunk_buffer c)"
        and off: "start_of_data_offset b = 4 * length (chunk_variables c)" "slot_index h c vid + h_size h vid \<le> length bs"
        by blast
      have bs: "bs = now_bytes h0 a p c" using v(5) [OF c(1)] b by simp
      have i: "i < min n (h_size h vid)" using hand Hand_Data True f(1) by auto
      have idx: "data_index h vid b i = slot_index h0 c vid + i" "data_index h vid b i < length bs"
        using off i f(2) by (simp_all add: data_index_def slot_index_def)
      let ?x = "bs ! data_index h vid b i"
      have step: "hand_step d i q h = Some (Hand_Data vid n (dst[i := ?x]) code (remove1 i todo), h)"
        using Hand_Data True b(2,3) idx(2) i n by simp
      have "seen h0 a vid (slot_index h0 c vid + i) ?x"
        using now_bytes_seen [of h0 vid c "slot_index h0 c vid + i" a p] pos f(2) bs idx by simp
      moreover have "c' = c" if "c' \<in> set (get_chunks r)" "vid \<in> set (chunk_variables c')" for c'
        using chunk_of_variable [OF read_ok_req [OF v(1)] c(1) that(1) c(2) that(2)] .
      moreover have "set (remove1 i todo) = set todo - {i}" using hand Hand_Data by (simp add: set_remove1_eq)
      ultimately have "hand_ok r h0 a (Hand_Data vid n (dst[i := ?x]) code (remove1 i todo))"
        using hand Hand_Data n i by (auto simp: call_ok_def nth_list_update)
      with step show ?thesis by auto
    qed
  next
    case (Hand_Finish vid n dst code)
    have vid: "vid \<in> set (req_variables r)" and big: "var_write_readback (h_vars h vid) \<Longrightarrow> h_size h vid \<le> length dst"
      using hand Hand_Finish f(1,4) by (simp_all add: call_ok_def)
    have "length (var_last_written (h_vars h vid)) \<le> h_size h vid"
      using f(5) [OF fits [OF vid]] by (simp add: last_written_fits_def h_size_def)
    with big Hand_Finish hand show ?thesis
      by (auto simp: Let_def intro!: val_frame_last_written)
  qed (use may in auto)
qed

section \<open>The invariant of the interleaving\<close>

definition race_inv :: "ads_def \<Rightarrow> 'e ads_lib \<Rightarrow> sum_read_request \<Rightarrow> 'e heap \<Rightarrow> 'e race \<Rightarrow> bool" where
  "race_inv d lib r h0 s \<longleftrightarrow> wf_ads_def d \<and> read_ok r Read_Start h0 \<and> (\<forall>vid \<in> set (req_variables r). last_written_fits (h_vars h0 vid))
     \<and> scan_inv d lib r h0 (rc_read s) (rc_heap s) (rc_answers s) \<and> hand_ok r h0 (rc_answers s) (rc_hand s)"

text \<open>The scan thread does not notice that values change that wait to be read back.\<close>

lemma h_buf_val: "val_frame h h' \<Longrightarrow> h_buf h' = h_buf h"
  by (simp add: val_frame_def h_buf_def fun_eq_iff)

lemma read_rank_val: "val_frame h h' \<Longrightarrow> read_rank r p h' = read_rank r p h"
  by (cases p) (simp_all add: loop_steps_def chunk_steps_def [abs_def] h_buf_val)

lemma progress_ok_val: "val_frame h h' \<Longrightarrow> progress_ok r a p h' = progress_ok r a p h"
  by (cases p) (simp_all add: read_done_def h_buf_val all_invalid_def all_bufs_def)

lemma read_ok_val:
  assumes "val_frame h h'" and "read_ok r p h"
  shows "read_ok r p h'"
proof -
  have "req_ok h' r"
    using assms by (intro req_ok_cong_vars [of h r h']) (auto simp: val_frame_def keeps_def read_ok_def)
  moreover have "read_pc_ok r p h'" using assms by (cases p) (auto simp: read_ok_def h_buf_val)
  ultimately show ?thesis using assms by (simp add: read_ok_def all_bufs_def h_buf_val)
qed

lemma scan_inv_val: "val_frame h h' \<Longrightarrow> scan_inv d lib r h0 p h a \<Longrightarrow> scan_inv d lib r h0 p h' a"
  using read_ok_val [of h h' r p] race_frame_val [of h0 h h']
  by (simp add: scan_inv_def h_buf_val progress_ok_val)

lemma call_ok_frame: "race_frame h0 h \<Longrightarrow> call_ok r h vid n dst = call_ok r h0 vid n dst"
  using race_frameD(1,4) [of h0 h] by (simp add: call_ok_def)

lemma race_invD:
  assumes "race_inv d lib r h0 s"
  shows "wf_ads_def d" and "scan_inv d lib r h0 (rc_read s) (rc_heap s) (rc_answers s)"
    and "hand_ok r h0 (rc_answers s) (rc_hand s)"
    and "vid \<in> set (req_variables r) \<Longrightarrow> last_written_fits (h_vars h0 vid)"
    and "read_ok r Read_Start h0"
  using assms by (simp_all add: race_inv_def)

lemma race_start_inv:
  assumes "race_start d r h0 s"
  shows "race_inv d lib r h0 s"
proof -
  have ok: "read_ok r Read_Start h0" using assms by (simp add: race_start_def read_ok_def)
  have "buf_buffer (h_buf h0 (chunk_buffer c)) = Some (now_bytes h0 (\<lambda>_. None) Read_Start c)"
    if c: "c \<in> set (get_chunks r)" for c
  proof -
    obtain bs where "buf_buffer (h_buf h0 (chunk_buffer c)) = Some bs" using read_okD [OF ok c] by metis
    then show ?thesis by (simp add: now_bytes_def old_bytes_def)
  qed
  with ok assms show ?thesis by (simp add: race_inv_def race_start_def scan_inv_def)
qed

lemma race_inv_val:
  assumes "race_inv d lib r h0 s" and "val_frame (rc_heap s) h'"
  shows "race_inv d lib r h0 (s\<lparr>rc_heap := h'\<rparr>)"
  using assms scan_inv_val [OF assms(2)] by (simp add: race_inv_def)

lemma race_inv_step:
  assumes inv: "race_inv d lib r h0 s" and step: "race_step d lib r s t s'"
  shows "race_inv d lib r h0 s'"
    and "t = Scan_thread \<Longrightarrow> read_rank r (rc_read s') (rc_heap s') < read_rank r (rc_read s) (rc_heap s)"
    and "t \<noteq> Scan_thread \<Longrightarrow> read_rank r (rc_read s') (rc_heap s') = read_rank r (rc_read s) (rc_heap s)"
proof -
  note v = race_invD [OF inv]
  have "race_inv d lib r h0 s'
    \<and> (t = Scan_thread \<longrightarrow> read_rank r (rc_read s') (rc_heap s') < read_rank r (rc_read s) (rc_heap s))
    \<and> (t \<noteq> Scan_thread \<longrightarrow> read_rank r (rc_read s') (rc_heap s') = read_rank r (rc_read s) (rc_heap s))"
    using step
  proof cases
    case (race_read i p h)
    note scan = scan_inv_step [OF v(1,2) race_read(3,5)]
    have hand: "hand_ok r h0 (note_answer (rc_read s) p (rc_answers s)) (rc_hand s)"
      using v(3) by (rule hand_ok_mono) (rule note_answer_mono [OF v(2)])
    have "read_rank r p h < read_rank r (rc_read s) (rc_heap s)"
      using read_step_ok [OF scan_invD(1) [OF v(2)] race_read(3), of d lib] race_read(5) by simp
    with scan hand inv race_read(1,2) show ?thesis by (simp add: race_inv_def)
  next
    case (race_hand i q h)
    from hand_inv_step [OF v(2,3) race_hand(3) v(4)] race_hand(4)
    have h: "hand_ok r h0 (rc_answers s) q" "val_frame (rc_heap s) h" by auto
    with scan_inv_val [OF h(2) v(2)] inv race_hand(1,2) show ?thesis
      by (simp add: race_inv_def read_rank_val)
  next
    case (race_begin vid n dst)
    then have "call_ok r h0 vid n dst" using call_ok_frame [OF scan_invD(2) [OF v(2)]] by simp
    with inv race_begin(1,2) show ?thesis by (simp add: race_inv_def)
  next
    case (race_write vid src n rc h)
    from val_frame_write [OF race_write(5)] race_inv_val [OF inv] race_write(1,2) show ?thesis
      by (simp add: read_rank_val)
  next
    case (race_device e)
    have "val_frame (rc_heap s) ((rc_heap s)\<lparr>h_env := e\<rparr>)" by (rule val_frame_env)
    with race_inv_val [OF inv this] race_device show ?thesis by (simp add: read_rank_val)
  qed
  then show "race_inv d lib r h0 s'"
    "t = Scan_thread \<Longrightarrow> read_rank r (rc_read s') (rc_heap s') < read_rank r (rc_read s) (rc_heap s)"
    "t \<noteq> Scan_thread \<Longrightarrow> read_rank r (rc_read s') (rc_heap s') = read_rank r (rc_read s) (rc_heap s)"
    by blast+
qed

interpretation racem: ranked "race_start d r h0" "race_step d lib r" "race_inv d lib r h0"
  "\<lambda>t. t = Scan_thread" "\<lambda>_. True" "\<lambda>s. read_rank r (rc_read s) (rc_heap s)" for d lib r h0
proof
  show "race_inv d lib r h0 s" if "race_start d r h0 s" for s using that by (rule race_start_inv)
  show "race_inv d lib r h0 s'" if "race_inv d lib r h0 s" "race_step d lib r s t s'" for s t s'
    using that by (rule race_inv_step)
  show "read_rank r (rc_read s') (rc_heap s') < read_rank r (rc_read s) (rc_heap s)"
    if "race_inv d lib r h0 s" "race_step d lib r s t s'" "t = Scan_thread" for s t s'
    using race_inv_step(2) [OF that] .
  show "read_rank r (rc_read s') (rc_heap s') \<le> read_rank r (rc_read s) (rc_heap s)"
    if "race_inv d lib r h0 s" "race_step d lib r s t s'" "t \<noteq> Scan_thread" for s t s'
    using race_inv_step(3) [OF that] by simp
qed

end
