(* ===== verification/Race_Theorems.thy ===== *)
theory Race_Theorems
  imports Race_Inv
begin

text \<open>
  What holds while \<open>read\<close> and the handlers run at the same time: no memory error, what a handler can
  get to see, how the call ends, and that all threads come to an end.
\<close>

section \<open>Memory safety\<close>

text \<open>
  C7. Whatever the interleaving of a sum-read with handlers, writes and changes of the device, no thread
  ever runs into undefined behaviour of the kinds that are modelled: every byte that the ADS library
  stores is inside the buffer, every byte that a handler loads is inside the buffer and every byte that
  it stores inside its caller's memory, at every point that can be reached, although the contents
  change under the handler's hands.
\<close>

theorem races_memory_safe:
  assumes "reach (race_start d r h0) (race_step d lib r) s"
  shows "(\<forall>i. read_may (rc_read s) i \<longrightarrow> read_step d lib r i (rc_read s) (rc_heap s) \<noteq> None)
    \<and> (\<forall>i. hand_may (rc_hand s) i \<longrightarrow> hand_step d i (rc_hand s) (rc_heap s) \<noteq> None)"
proof -
  note v = race_invD [OF racem.reach_inv [OF assms]]
  show ?thesis
    using read_step_ok [OF scan_invD(1) [OF v(2)], of _ d lib] hand_inv_step [OF v(2,3) _ v(4)] by fastforce
qed

section \<open>What a handler gets\<close>

text \<open>
  C9. What a handler has read of a variable, when \<open>read_data\<close> has returned: there is one answer of the ADS
  library to the request of the variable's chunk, the same for all bytes, such that each byte of the
  data and each of the four bytes of the return code is the byte that was in the variable's place
  before the call of \<open>read\<close>, or the byte of that answer. Nothing else can appear, in particular no
  byte of another variable; but the mixture of old and new bytes is possible (see \<open>torn_read\<close>).
\<close>

definition old_or_new :: "byte list \<Rightarrow> byte list \<Rightarrow> nat \<Rightarrow> byte \<Rightarrow> bool" where
  "old_or_new old resp j x \<longleftrightarrow> x = old ! j \<or> j < length resp \<and> x = resp ! j"

theorem races_old_or_new:
  assumes "reach (race_start d r h0) (race_step d lib r) s" and "rc_hand s = Hand_Finish vid n dst code"
    and "c \<in> set (get_chunks r)" and "vid \<in> set (chunk_variables c)"
  shows "\<exists>e rc resp e1. chunk_call d lib (h0\<lparr>h_env := e\<rparr>) c = (rc, resp, e1)
    \<and> (\<forall>k < min n (h_size h0 vid). old_or_new (old_bytes h0 c) resp (slot_index h0 c vid + k) (dst ! k))
    \<and> (\<exists>bs. code = le_decode bs \<and> length bs = 4
         \<and> (\<forall>k < 4. old_or_new (old_bytes h0 c) resp (code_index h0 vid + k) (bs ! k)))"
proof -
  note v = race_invD [OF racem.reach_inv [OF assms(1)]]
  note i = scan_invD [OF v(2)]
  from slot_facts [OF i(1), of vid] chunk_of_variable [OF read_ok_req [OF i(1)] assms(3) _ assms(4)]
    chunk_in_req [OF assms(3,4)]
  have pos: "pos_buffer (h_reader h0 vid) = Some (chunk_buffer c)" using race_frameD(2) [OF i(2)] by auto
  obtain e rc resp e1 where call: "chunk_call d lib (h0\<lparr>h_env := e\<rparr>) c = (rc, resp, e1)"
    and ans: "\<And>rc' resp'. rc_answers s (chunk_buffer c) = Some (rc', resp') \<Longrightarrow> resp' = resp"
  proof (cases "rc_answers s (chunk_buffer c)")
    case None
    with that show ?thesis by (metis option.distinct(1) prod_cases3)
  next
    case (Some x)
    then obtain rc resp where x: "rc_answers s (chunk_buffer c) = Some (rc, resp)" by (cases x) auto
    with i(6) [OF assms(3) x] that show ?thesis by auto
  qed
  have one: "old_or_new (old_bytes h0 c) resp j x" if "seen h0 (rc_answers s) vid j x" for j x
    using that pos ans by (auto simp: seen_def old_or_new_def old_bytes_def)
  have hand: "code_seen h0 (rc_answers s) vid code"
    "\<forall>k < min n (h_size h0 vid). seen h0 (rc_answers s) vid (slot_index h0 c vid + k) (dst ! k)"
    using v(3) assms(2-4) by simp_all
  have "\<exists>bs. code = le_decode bs \<and> length bs = 4
      \<and> (\<forall>k < 4. old_or_new (old_bytes h0 c) resp (code_index h0 vid + k) (bs ! k))"
    using hand(1) one unfolding code_seen_def by blast
  with call hand(2) one show ?thesis by blast
qed

text \<open>
  As long as the ADS library is not storing into it, a buffer is consistent: it holds exactly what it
  held before the call of \<open>read\<close>, or exactly that with one answer to the request of its chunk in
  place. So a handler that copies while the library is not storing cannot get a mixture.
\<close>

theorem races_snapshot:
  assumes "reach (race_start d r h0) (race_step d lib r) s" and "c \<in> set (get_chunks r)"
    and "\<nexists>cs rc resp todo. rc_read s = Read_Store c cs rc resp todo"
  shows "buf_buffer (h_buf (rc_heap s) (chunk_buffer c)) = Some (old_bytes h0 c)
    \<or> (\<exists>e rc resp e1. chunk_call d lib (h0\<lparr>h_env := e\<rparr>) c = (rc, resp, e1)
         \<and> buf_buffer (h_buf (rc_heap s) (chunk_buffer c))
             = Some (fill (u32 (length (old_bytes h0 c))) resp (old_bytes h0 c)))"
proof -
  note v = race_invD [OF racem.reach_inv [OF assms(1)]]
  note i = scan_invD [OF v(2)]
  have "to_store (rc_read s) c = []" using assms(3) by (cases "rc_read s") auto
  moreover have "put_bytes [0..<min (u32 (length bs)) (length resp)] (\<lambda>i. resp ! i) bs = fill (u32 (length bs)) resp bs"
    for resp bs :: "byte list" by (rule fill_put_bytes [OF u32_le])
  ultimately have now: "buf_buffer (h_buf (rc_heap s) (chunk_buffer c)) =
      (case rc_answers s (chunk_buffer c) of
         None \<Rightarrow> Some (old_bytes h0 c)
       | Some (rc, resp) \<Rightarrow> Some (fill (u32 (length (old_bytes h0 c))) resp (old_bytes h0 c)))"
    using i(5) [OF assms(2)] by (simp add: now_bytes_def split: option.split)
  show ?thesis
  proof (cases "rc_answers s (chunk_buffer c)")
    case (Some x)
    then obtain rc resp where x: "rc_answers s (chunk_buffer c) = Some (rc, resp)" by (cases x) auto
    from i(6) [OF assms(2) x] now x show ?thesis by auto
  qed (use now in simp)
qed

section \<open>How the call ends\<close>

lemma stored_is_read_at:
  assumes inv: "scan_inv d lib r h0 p h a" and start: "read_ok r Read_Start h0" and c: "c \<in> set (get_chunks r)" and p: "to_store p c = []"
    and a: "a (chunk_buffer c) = Some (0, resp)"
  shows "\<exists>e. chunk_read_at d lib h0 h c e"
proof -
  note i = scan_invD [OF inv]
  obtain e e1 where call: "chunk_call d lib (h0\<lparr>h_env := e\<rparr>) c = (0, resp, e1)" using i(6) [OF c a] by blast
  have len: "buf_buffer_size (h_buf h0 (chunk_buffer c)) = length (old_bytes h0 c)"
    using length_old [OF inv c] race_frameD(7) [OF i(2)] by (simp add: same_layout_def)
  obtain bs where "buf_buffer (h_buf h0 (chunk_buffer c)) = Some bs" using read_okD [OF start c] by metis
  then have "buf_buffer (h_buf h (chunk_buffer c)) = buf_buffer (store_full resp (h_buf h0 (chunk_buffer c)))"
    using i(5) [OF c] p a len fill_put_bytes [OF u32_le, of "old_bytes h0 c" resp]
    by (auto simp: now_bytes_def store_full_def store_response_def old_bytes_def)
  with call show ?thesis unfolding chunk_read_at_def by (intro exI [of _ e]) simp
qed

text \<open>
  How a call of \<open>read\<close> ends, whatever handlers do in the meantime: when it has returned 0, every buffer is
  marked valid and holds the answer to the request of its own chunk, with nothing lost or overwritten;
  when it has returned an error, every buffer is marked invalid. The handlers have changed nothing
  in the buffers.
\<close>

theorem races_outcome:
  assumes "reach (race_start d r h0) (race_step d lib r) s" and "rc_read s = Read_Return rc"
  shows "if rc = 0 then all_valid (rc_heap s) (get_chunks r)
           \<and> (\<forall>c \<in> set (get_chunks r). \<exists>e. chunk_read_at d lib h0 (rc_heap s) c e)
         else all_invalid (rc_heap s) (get_chunks r)"
proof (cases "rc = 0")
  case True
  note v = race_invD [OF racem.reach_inv [OF assms(1)]]
  note i = scan_invD [OF v(2)]
  have finished: "\<forall>c \<in> set (get_chunks r). read_done (rc_answers s) (rc_heap s) c"
    using i(3) assms(2) True by simp
  have "\<exists>e. chunk_read_at d lib h0 (rc_heap s) c e" if "c \<in> set (get_chunks r)" for c
    using stored_is_read_at [OF v(2,5) that] finished that assms(2) by (auto simp: read_done_def)
  with finished True show ?thesis by (simp add: all_valid_def all_bufs_def read_done_def)
next
  case False
  with scan_invD(3) [OF race_invD(2) [OF racem.reach_inv [OF assms(1)]]] assms(2) show ?thesis by simp
qed

text \<open>
  The heap before the call as far as the buffers of the request are concerned, and as it is now in
  all other respects: what the results about a call of \<open>read\<close> as one step apply to.
\<close>

definition before :: "sum_read_request \<Rightarrow> 'e heap \<Rightarrow> 'e heap \<Rightarrow> 'e heap" where
  "before r h0 h = h\<lparr>h_bufs := (\<lambda>bid. if bid \<in> set (req_buffers r) then h_bufs h0 bid else h_bufs h bid)\<rparr>"

lemma before_simps [simp]:
  "h_vars (before r h0 h) = h_vars h" "h_conn (before r h0 h) = h_conn h" "h_next_buf (before r h0 h) = h_next_buf h"
  "h_size (before r h0 h) = h_size h" "h_addr (before r h0 h) = h_addr h"
  "c \<in> set (get_chunks r) \<Longrightarrow> h_buf (before r h0 h) (chunk_buffer c) = h_buf h0 (chunk_buffer c)"
  "c \<in> set (get_chunks r) \<Longrightarrow> h_bufs (before r h0 h) (chunk_buffer c) = h_bufs h0 (chunk_buffer c)"
  by (auto simp: before_def h_size_def h_addr_def h_buf_def req_buffers_def)

lemma before_ok:
  assumes "race_frame h0 h" and "read_ok r Read_Start h0"
  shows "req_ok (before r h0 h) r" and "all_bufs buf_initialized (before r h0 h) (get_chunks r)"
    and "read_frame r (before r h0 h) h" and "var_request (before r h0 h) = var_request h0"
    and "chunk_addr (before r h0 h) c = chunk_addr h0 c"
    and "c \<in> set (get_chunks r) \<Longrightarrow> chunk_read_at d lib (before r h0 h) h c e = chunk_read_at d lib h0 h c e"
proof -
  note f = race_frameD [OF assms(1)]
  have ok: "req_ok h0 r" and init: "all_bufs buf_initialized h0 (get_chunks r)" using assms(2) by (simp_all add: read_ok_def)
  have view: "same_view (h_vars h0 vid) (h_vars (before r h0 h) vid)" and next_buf: "h_next_buf h0 \<le> h_next_buf (before r h0 h)" for vid
    using assms(1) by (simp_all add: race_frame_def keeps_def)
  have "chunks_ok (before r h0 h) (req_max_vars r) (get_chunks r)"
    by (rule chunks_ok_cong [of h0 "req_max_vars r"]) (use ok next_buf view in \<open>simp_all add: req_ok_def\<close>)
  with ok show "req_ok (before r h0 h) r" by (simp add: req_ok_def)
  show "all_bufs buf_initialized (before r h0 h) (get_chunks r)" using init by (simp add: all_bufs_def)
  show "read_frame r (before r h0 h) h" by (auto simp: read_frame_def before_def)
  show "var_request (before r h0 h) = var_request h0"
    using f(6) by (simp add: fun_eq_iff var_request_def)
  show "chunk_addr (before r h0 h) c = chunk_addr h0 c" using f(8) by (simp add: chunk_addr_def)
  show "chunk_read_at d lib (before r h0 h) h c e = chunk_read_at d lib h0 h c e" if "c \<in> set (get_chunks r)"
    using that f(8) by (simp add: chunk_read_at_def chunk_call_def)
qed

text \<open>
  C8. End to end, with interference: when \<open>read\<close> has returned 0, then, whatever handlers and writes did in the
  meantime, each chunk is a consistent snapshot of the ADS device: there is one state of the device
  such that reading any variable of the chunk from now on gives the data that the device answers in
  that state for the variable, with return code 0, or \<open>NO_DATA\<close> if the device reports an error for it.
\<close>

theorem races_deliver:
  assumes "reach (race_start d r h0) (race_step d lib r) s" and "rc_read s = Read_Return 0"
    and "answers_sum_reads d lib plc" and "complete_request h0 r" and "readable_vars h0 r"
    and "c \<in> set (get_chunks r)"
  shows "\<exists>e. \<forall>vid \<in> set (chunk_variables c). \<forall>n dst.
    n \<le> length dst \<longrightarrow> \<not> readback_pending (rc_heap s) vid \<longrightarrow>
    (case plc e (chunk_addr h0 c) (var_request h0 vid) of (code, bytes) \<Rightarrow>
       read_from_buffer d vid n (Some dst) (rc_heap s) =
         Some (if code = 0 then 0 else EPICSADS_NO_DATA,
               Some (take (min n (h_size h0 vid)) bytes @ drop (min n (h_size h0 vid)) dst), rc_heap s))"
proof -
  note v = race_invD [OF racem.reach_inv [OF assms(1)]]
  note i = scan_invD [OF v(2)]
  let ?h = "rc_heap s" and ?before = "before r h0 (rc_heap s)"
  have ok: "req_ok ?h r" "all_bufs buf_initialized ?h (get_chunks r)" using i(1) by (simp_all add: read_ok_def)
  have finished: "\<forall>c \<in> set (get_chunks r). read_done (rc_answers s) ?h c" using i(3) assms(2) by simp
  then obtain e where e: "chunk_read_at d lib h0 ?h c e"
    using stored_is_read_at [OF v(2,5) assms(6)] assms(2,6) by (auto simp: read_done_def)
  note b = before_ok [OF i(2) v(5)]
  have vars: "readable_vars ?before r" "complete_request ?before r" and sz: "h_size ?before = h_size h0"
    unfolding readable_vars_def complete_request_def b(4)
    using assms(4,5) race_frameD(1) [OF i(2)] by (simp_all add: readable_vars_def complete_request_def)
  note slots = chunk_read_slots [OF assms(3) b(1,2) vars assms(6) _ ok(1) b(3) ok(2), unfolded b(4,5) sz b(6) [OF assms(6)], OF e]
  show ?thesis
  proof (intro exI [of _ e] ballI allI impI)
    fix vid n and dst :: "byte list"
    assume vid: "vid \<in> set (chunk_variables c)" and n: "n \<le> length dst" and np: "\<not> readback_pending ?h vid"
    have "data_valid ?h vid" using slots(3) [OF vid] finished assms(6) by (simp add: read_done_def)
    moreover have "h_size ?h vid = h_size h0 vid" using race_frameD(1) [OF i(2)] by simp
    ultimately show "case plc e (chunk_addr h0 c) (var_request h0 vid) of (code, bytes) \<Rightarrow>
       read_from_buffer d vid n (Some dst) ?h =
         Some (if code = 0 then 0 else EPICSADS_NO_DATA,
               Some (take (min n (h_size h0 vid)) bytes @ drop (min n (h_size h0 vid)) dst), ?h)"
      using read_from_buffer_eq(1) [OF ok chunk_in_req [OF assms(6) vid] n, of d] slots(1,2) [OF vid] np
      by (simp add: split_def Let_def)
  qed
qed

section \<open>All threads come to an end\<close>

lemma read_step_size:
  assumes "scan_inv d lib r h0 p h a" and "scan_inv d lib r h0 p' h' a'"
  shows "h_size h' = h_size h"
  using race_frameD(1) scan_invD(2) assms by metis

text \<open>No other thread delays a handler: not the scan thread, whatever it does.\<close>

interpretation handm: ranked "race_start d r h0" "race_step d lib r" "race_inv d lib r h0"
  "\<lambda>t. t = Handler_thread" "\<lambda>s. hand_busy (rc_hand s)" "\<lambda>s. hand_rank (rc_hand s) (rc_heap s)" for d lib r h0
proof
  show "hand_rank (rc_hand s') (rc_heap s') < hand_rank (rc_hand s) (rc_heap s)"
    if "race_step d lib r s t s'" "t = Handler_thread" for s t s'
    using that by cases (auto intro: hand_step_rank)
  show "hand_rank (rc_hand s') (rc_heap s') \<le> hand_rank (rc_hand s) (rc_heap s)"
    if inv: "race_inv d lib r h0 s" and busy: "hand_busy (rc_hand s)" and step: "race_step d lib r s t s'"
      and t: "t \<noteq> Handler_thread" for s t s'
  proof -
    have "h_size (rc_heap s') = h_size (rc_heap s)"
      using read_step_size [OF race_invD(2) [OF inv] race_invD(2) [OF race_inv_step(1) [OF inv step]]] .
    then have rank: "hand_rank q (rc_heap s') = hand_rank q (rc_heap s)" for q by (cases q) simp_all
    have "rc_hand s' = rc_hand s" using step busy t by cases auto
    with rank show ?thesis by simp
  qed
qed

lemma race_enabled:
  assumes "race_inv d lib r h0 s"
  shows "hand_busy (rc_hand s) \<Longrightarrow> \<exists>s'. race_step d lib r s Handler_thread s'"
    and "read_result (rc_read s) = None \<Longrightarrow> \<not> blocked (rc_read s) (rc_hand s) (rc_heap s) \<Longrightarrow>
      \<exists>s'. race_step d lib r s Scan_thread s'"
proof -
  note v = race_invD [OF assms]
  show "\<exists>s'. race_step d lib r s Handler_thread s'" if "hand_busy (rc_hand s)"
  proof -
    have "rc_hand s \<noteq> Hand_Idle" "hand_result (rc_hand s) = None" using that by (cases "rc_hand s"; simp)+
    then obtain i where i: "hand_may (rc_hand s) i" using hand.may_step by blast
    from hand_inv_step [OF v(2,3) i v(4)] race_hand [OF i] show ?thesis by blast
  qed
  show "\<exists>s'. race_step d lib r s Scan_thread s'"
    if res: "read_result (rc_read s) = None" and free: "\<not> blocked (rc_read s) (rc_hand s) (rc_heap s)"
  proof -
    have ok: "read_ok r (rc_read s) (rc_heap s)" by (rule scan_invD(1) [OF v(2)])
    obtain i where i: "read_may (rc_read s) i" using reader.may_step [OF ok res] by blast
    from read_step_ok [OF ok i, of d lib] race_read [OF i free] show ?thesis by blast
  qed
qed

lemma blocked_busy: "blocked p q h \<Longrightarrow> hand_busy q"
  by (cases "(p, q, h)" rule: blocked.cases; cases q) auto

text \<open>
  C11. Nobody waits forever. However the threads are interleaved, the scan thread returns from \<open>read\<close>
  after at most as many of its steps as the buffers have bytes plus four per chunk and three. A call of
  a handler returns after at most five of its steps more than bytes are copied, and while it has not
  returned it can always take its next step: it never waits, as \<open>save_buffer\<close> is one step here (with
  the calls of the lock, see \<open>locked_races_end\<close>, it waits at most for that). Until \<open>read\<close> has returned, the scan thread
  can take its next step, or it waits for a handler, which can take its own; so there is no deadlock.
\<close>

theorem races_end:
  assumes "race_start d r h0 s0"
  shows "(\<forall>n s. run_while (race_step d lib r) (\<lambda>t. t = Scan_thread) (\<lambda>_. True) s0 n s \<longrightarrow>
       n \<le> sum_list (map (\<lambda>c. buf_buffer_size (h_buf h0 (chunk_buffer c)) + 4) (get_chunks r)) + 3)
   \<and> (\<forall>s vid k dst n s'. reach (race_start d r h0) (race_step d lib r) s \<longrightarrow> rc_hand s = Hand_Start vid k dst \<longrightarrow>
       run_while (race_step d lib r) (\<lambda>t. t = Handler_thread) (\<lambda>s. hand_busy (rc_hand s)) s n s' \<longrightarrow>
       n \<le> min k (h_size h0 vid) + 5 \<and> (hand_busy (rc_hand s') \<longrightarrow> (\<exists>s''. race_step d lib r s' Handler_thread s'')))
   \<and> (\<forall>s. reach (race_start d r h0) (race_step d lib r) s \<longrightarrow> read_result (rc_read s) = None \<longrightarrow>
       (\<exists>s'. race_step d lib r s Scan_thread s')
       \<or> hand_busy (rc_hand s) \<and> (\<exists>s'. race_step d lib r s Handler_thread s'))"
proof (intro conjI allI impI)
  fix n s assume run: "run_while (race_step d lib r) (\<lambda>t. t = Scan_thread) (\<lambda>_. True) s0 n s"
  have "s0 = \<lparr> rc_read = Read_Start, rc_hand = Hand_Idle, rc_heap = h0, rc_answers = (\<lambda>_. None) \<rparr>"
    using assms by (simp add: race_start_def)
  with racem.run_bound [OF run racem.inv_init [OF assms]]
  show "n \<le> sum_list (map (\<lambda>c. buf_buffer_size (h_buf h0 (chunk_buffer c)) + 4) (get_chunks r)) + 3"
    using read_rank_start [of r h0] by simp
next
  fix s vid k dst n s' assume s: "reach (race_start d r h0) (race_step d lib r) s" and q: "rc_hand s = Hand_Start vid k dst"
    and run: "run_while (race_step d lib r) (\<lambda>t. t = Handler_thread) (\<lambda>s. hand_busy (rc_hand s)) s n s'"
  note inv = racem.reach_inv [OF s]
  have "h_size (rc_heap s) = h_size h0" by (rule race_frameD(1) [OF scan_invD(2) [OF race_invD(2) [OF inv]]])
  with handm.run_bound [OF run inv] q show "n \<le> min k (h_size h0 vid) + 5" by simp
  show "\<exists>s''. race_step d lib r s' Handler_thread s''" if "hand_busy (rc_hand s')"
    using race_enabled(1) [OF racem.run_inv [OF run inv] that] .
next
  fix s assume s: "reach (race_start d r h0) (race_step d lib r) s" and res: "read_result (rc_read s) = None"
  note e = race_enabled [OF racem.reach_inv [OF s]]
  show "(\<exists>s'. race_step d lib r s Scan_thread s')
       \<or> hand_busy (rc_hand s) \<and> (\<exists>s'. race_step d lib r s Handler_thread s')"
    using e(1) e(2) [OF res] blocked_busy by blast
qed

end
