(* ===== verification/Driver_Props.thy ===== *)
theory Driver_Props
  imports Driver_System
begin

text \<open>
  What the driver guarantees while the IOC runs, whatever the interleaving of the scan thread with
  record initialisation, the handlers of other threads, the ADS device and shutdown: safety, the
  meaning of "connected", refinement of a four-phase machine, recovery and shutdown.
\<close>

section \<open>The control flow of the scan thread\<close>

definition scan_flow :: "scan_pc \<Rightarrow> scan_pc list" where
  "scan_flow pc = (case pc of
       Scan_Head \<Rightarrow> [Scan_Head, Scan_Connect, Scan_Info, Scan_Exit]
     | Scan_Connect \<Rightarrow> [Scan_Head]
     | Scan_Info \<Rightarrow> [Scan_State, Scan_Read, Scan_Head]
     | Scan_State \<Rightarrow> [Scan_Read, Scan_Head]
     | Scan_Read \<Rightarrow> [Scan_Intr, Scan_Head]
     | Scan_Intr \<Rightarrow> [Scan_Head]
     | Scan_Exit \<Rightarrow> [Scan_Done]
     | Scan_Done \<Rightarrow> [Scan_Done])"

lemma scan_step_flow:
  "scan_step d lib se pc D = Some (evs, pc', D') \<Longrightarrow> pc' \<in> set (scan_flow pc)"
  by (cases pc) (auto simp: scan_flow_def split: if_splits prod.splits)

lemma scan_step_head:
  assumes "scan_step d lib se Scan_Head D = Some (evs, pc', D')"
  shows "D' = D" and "d_exit D \<Longrightarrow> pc' = Scan_Exit"
    and "\<not> d_exit D \<Longrightarrow> d_init D \<Longrightarrow> pc' = (if is_connected (d_heap D) \<and> req_initialized (d_req D)
          \<and> req_allocated (d_req D) then Scan_Info else Scan_Connect)"
  using assms by auto

lemma other_step_pc: "sys_step d lib s Other_label s' \<Longrightarrow> s_pc s' = s_pc s"
  by (auto elim: sys_step.cases)

lemma other_step_conn:
  assumes "sys_ok d lib s" and "sys_step d lib s Other_label s'"
  shows "is_connected (d_heap (s_drv s')) = is_connected (d_heap (s_drv s))"
    and "d_exit (s_drv s) \<Longrightarrow> d_exit (s_drv s')"
    and "d_init (s_drv s) \<Longrightarrow> d_init (s_drv s') \<and> up (s_drv s') = up (s_drv s) \<and> all_vars (s_drv s') = all_vars (s_drv s)"
proof -
  have wf: "wf_ads_def d" and inv: "sys_inv s" using assms(1) by (simp_all add: sys_ok_def)
  note i = sys_invD [OF inv]
  note p = pre_hook_down [OF inv]
  have vals: "is_connected h' = is_connected (d_heap (s_drv s)) \<and> up ((s_drv s)\<lparr>d_heap := h'\<rparr>) = up (s_drv s)"
    if "val_frame (d_heap (s_drv s)) h'" for h'
    using that val_frame_ok(3) [OF that i(1)] by (simp add: val_frame_def is_connected_def)
  have "is_connected (d_heap (s_drv s')) = is_connected (d_heap (s_drv s))
    \<and> (d_exit (s_drv s) \<longrightarrow> d_exit (s_drv s'))
    \<and> (d_init (s_drv s) \<longrightarrow> d_init (s_drv s') \<and> up (s_drv s') = up (s_drv s) \<and> all_vars (s_drv s') = all_vars (s_drv s))"
    using assms(2)
  proof cases
    case (sys_create func args a g x D')
    note c = createDeviceVariable_ok [OF i(1) p(2) [OF sys_create(2)] wf sys_create(3,4)]
    from c p [OF sys_create(2)] show ?thesis by (simp add: sys_create(1) down_def pre_hook_def)
  next
    case (sys_hook vs mem D')
    obtain D2 where "initHook mem vs (s_drv s) = Inr D2" "d_exit D2 = d_exit (s_drv s)" "down (s_drv s) \<longrightarrow> down D2"
      using initHook_total [OF i(1) p(2) [OF sys_hook(2)] sys_hook(3-5)] by blast
    with sys_hook(6) p [OF sys_hook(2)] show ?thesis by (simp add: sys_hook(1) down_def pre_hook_def)
  next
    case (sys_read vid n dst rc out h')
    from vals [OF val_frame_read [OF sys_read(3)]] show ?thesis by (simp add: sys_read(1) all_vars_def)
  next
    case (sys_write vid src n rc h')
    from vals [OF val_frame_write [OF sys_write(3)]] show ?thesis by (simp add: sys_write(1) all_vars_def)
  next
    case (sys_device e)
    from vals [OF val_frame_env] show ?thesis by (simp add: sys_device(1) all_vars_def)
  next
    case sys_exit
    then show ?thesis by (simp add: signal_exit_def all_vars_def)
  qed
  then show "is_connected (d_heap (s_drv s')) = is_connected (d_heap (s_drv s))"
    and "d_exit (s_drv s) \<Longrightarrow> d_exit (s_drv s')"
    and "d_init (s_drv s) \<Longrightarrow> d_init (s_drv s') \<and> up (s_drv s') = up (s_drv s) \<and> all_vars (s_drv s') = all_vars (s_drv s)"
    by blast+
qed

text \<open>A step of the scan thread, with what \<open>scan_step_ok\<close> says of it.\<close>

lemma scan_label_step:
  assumes "sys_ok d lib s" and "sys_step d lib s (Scan_label evs) s'"
  obtains se where "scan_env_ok (s_drv s) se"
    and "scan_step d lib se (s_pc s) (s_drv s) = Some (evs, s_pc s', s_drv s')"
    and "same_driver (s_drv s) (s_drv s')" and "at_pc (s_pc s') (s_drv s')"
    and "evs \<noteq> [] \<Longrightarrow> s_pc s = Scan_Intr" and "s_pc s = Scan_Intr \<Longrightarrow> s_pc s' = Scan_Head \<and> up (s_drv s') \<and> callbacks_last evs"
proof -
  have wf: "wf_ads_def d" "names_end lib" and inv: "sys_inv s" using assms(1) by (simp_all add: sys_ok_def)
  obtain se where env: "scan_env_ok (s_drv s) se"
    and run: "scan_step d lib se (s_pc s) (s_drv s) = Some (evs, s_pc s', s_drv s')"
    using assms(2) by (auto simp: sys_step_scan)
  from scan_step_ok [OF wf sys_invD(1-4) [OF inv] env] run
  show ?thesis by (intro that [OF env run]) auto
qed

section \<open>The abstract machine\<close>

text \<open>
  What the driver promises to the outside: it is offline, online, online with fresh data, or
  stopped. Records get values only in the step that leaves the phase with fresh data, which
  ends with the callbacks.
\<close>

datatype phase = Offline | Online | Fresh | Stopped

definition phase_step :: "phase \<Rightarrow> io_event list \<Rightarrow> phase \<Rightarrow> bool" where
  "phase_step p evs p' \<longleftrightarrow>
     evs = [] \<and> (p, p') \<in> {(Offline, Online), (Online, Offline), (Online, Fresh), (Online, Stopped), (Offline, Stopped)}
     \<or> p = Fresh \<and> p' = Online \<and> callbacks_last evs"

definition phase_of :: "'e sys \<Rightarrow> phase" where
  "phase_of s = (if s_pc s = Scan_Done then Stopped
     else if s_pc s = Scan_Intr then Fresh
     else if is_connected (d_heap (s_drv s)) then Online else Offline)"

fun label_events :: "label \<Rightarrow> io_event list" where
  "label_events (Scan_label evs) = evs"
| "label_events Other_label = []"

lemma read_phase: "at_pc Scan_Read D \<Longrightarrow> is_connected (d_heap D)"
  by (simp add: at_pc_def up_def)

lemma phase_simulates:
  assumes ok: "sys_ok d lib s" and step: "sys_step d lib s l s'"
  shows "phase_step (phase_of s) (label_events l) (phase_of s') \<or> phase_of s' = phase_of s \<and> label_events l = []"
proof (cases l)
  case Other_label
  with other_step_conn(1) [OF ok] other_step_pc step have "phase_of s' = phase_of s"
    by (metis phase_of_def)
  with Other_label show ?thesis by simp
next
  case (Scan_label evs)
  obtain se where run: "scan_step d lib se (s_pc s) (s_drv s) = Some (evs, s_pc s', s_drv s')"
    and at: "at_pc (s_pc s') (s_drv s')" and ev: "evs \<noteq> [] \<Longrightarrow> s_pc s = Scan_Intr"
    and intr: "s_pc s = Scan_Intr \<Longrightarrow> s_pc s' = Scan_Head \<and> up (s_drv s') \<and> callbacks_last evs"
    using scan_label_step [OF ok step [unfolded Scan_label]] by blast
  have atp: "at_pc (s_pc s) (s_drv s)" using ok by (simp add: sys_ok_def sys_inv_def)
  have flow: "s_pc s' \<in> set (scan_flow (s_pc s))" by (rule scan_step_flow [OF run])
  show ?thesis
  proof (cases "s_pc s = Scan_Intr")
    case True
    with intr Scan_label show ?thesis by (simp add: phase_step_def phase_of_def up_def)
  next
    case False
    then have "evs = []" using ev by blast
    with False flow atp Scan_label show ?thesis
      by (cases "s_pc s") (auto simp: phase_step_def phase_of_def scan_flow_def at_pc_def up_def)
  qed
qed

interpretation phases: simulation "sys_start d lib" "sys_step d lib" "sys_ok d lib" phase_of label_events phase_step for d lib
  by unfold_locales (rule phase_simulates)

section \<open>Progress\<close>

definition scan_label :: "label \<Rightarrow> bool" where
  "scan_label l \<longleftrightarrow> (case l of Scan_label _ \<Rightarrow> True | Other_label \<Rightarrow> False)"

lemma not_scan_label: "\<not> scan_label l \<longleftrightarrow> l = Other_label"
  by (cases l) (simp_all add: scan_label_def)

text \<open>How far the thread is from the end, once it has been asked to stop.\<close>

definition exit_rank :: "scan_pc \<Rightarrow> nat" where
  "exit_rank pc = (case pc of Scan_Done \<Rightarrow> 0 | Scan_Exit \<Rightarrow> 1 | Scan_Head \<Rightarrow> 2 | Scan_Connect \<Rightarrow> 3
     | Scan_Intr \<Rightarrow> 3 | Scan_Read \<Rightarrow> 4 | Scan_State \<Rightarrow> 5 | Scan_Info \<Rightarrow> 6)"

definition stopping :: "'e sys \<Rightarrow> bool" where
  "stopping s \<longleftrightarrow> d_exit (s_drv s) \<and> s_pc s \<noteq> Scan_Done"

interpretation exits: ranked "sys_start d lib" "sys_step d lib" "sys_ok d lib" scan_label stopping "\<lambda>s. exit_rank (s_pc s)" for d lib
proof
  fix s l s' assume ok: "sys_ok d lib s" and Q: "stopping s" and step: "sys_step d lib s l s'"
  show "exit_rank (s_pc s') < exit_rank (s_pc s)" if "scan_label l"
  proof -
    obtain evs where l: "l = Scan_label evs" using \<open>scan_label l\<close> by (cases l) (simp_all add: scan_label_def)
    from scan_label_step [OF ok step [unfolded l]] obtain se
      where run: "scan_step d lib se (s_pc s) (s_drv s) = Some (evs, s_pc s', s_drv s')" by blast
    show ?thesis
    proof (cases "s_pc s = Scan_Head")
      case True
      have "s_pc s' = Scan_Exit" using scan_step_head(2) [OF run [unfolded True]] Q by (simp add: stopping_def)
      with True show ?thesis by (simp add: exit_rank_def)
    next
      case False
      with scan_step_flow [OF run] Q show ?thesis
        by (cases "s_pc s") (auto simp: scan_flow_def exit_rank_def stopping_def)
    qed
  qed
  show "exit_rank (s_pc s') \<le> exit_rank (s_pc s)" if "\<not> scan_label l"
    using other_step_pc [of d lib s s'] step that by (simp add: not_scan_label)
qed

text \<open>An ADS library that serves every call of the scan thread.\<close>

definition serving :: "'e ads_lib \<Rightarrow> bool" where
  "serving lib \<longleftrightarrow> connects lib \<and> reads_succeed lib
     \<and> (\<forall>e p a. fst (AdsSyncReadDeviceInfoReqEx lib e p a) = 0)
     \<and> (\<forall>e p a. fst (AdsSyncReadStateReqEx lib e p a) = 0)"

lemma serving_info:
  assumes "serving lib" and "is_connected (d_heap D)" and "readADSDeviceInfo d lib ui uv D = Some (st, D')"
    and "wf_ads_def d"
  shows "st = asynSuccess"
proof -
  obtain chars version e where "AdsSyncReadDeviceInfoReqEx lib (h_env (d_heap D)) (conn_ads_port (h_conn (d_heap D)))
      (remote_ams_netid (h_conn (d_heap D)), device_read_ads_port (h_conn (d_heap D))) = (0, (chars, version), e)"
    using assms(1) unfolding serving_def by (metis prod.collapse)
  with assms(2,3) show ?thesis
    by (auto simp: readADSDeviceInfo_def read_device_info_def Let_def bind_eq_Some_conv)
qed

lemma serving_state:
  assumes "serving lib" and "is_connected (d_heap D)" and "readADSDeviceState d lib ud us D = (st, D')"
  shows "st = asynSuccess"
proof -
  obtain sv dv e where "AdsSyncReadStateReqEx lib (h_env (d_heap D)) (conn_ads_port (h_conn (d_heap D)))
      (remote_ams_netid (h_conn (d_heap D)), device_read_ads_port (h_conn (d_heap D))) = (0, (sv, dv), e)"
    using assms(1) unfolding serving_def by (metis prod.collapse)
  with assms(2,3) show ?thesis
    by (auto simp: readADSDeviceState_def read_device_state_def Let_def)
qed

text \<open>How far the thread is from fresh data.\<close>

definition recover_rank :: "'e sys \<Rightarrow> nat" where
  "recover_rank s = (case s_pc s of Scan_Intr \<Rightarrow> 0 | Scan_Read \<Rightarrow> 1 | Scan_State \<Rightarrow> 2 | Scan_Info \<Rightarrow> 3
     | Scan_Connect \<Rightarrow> 5 | Scan_Head \<Rightarrow> if is_connected (d_heap (s_drv s)) then 4 else 6
     | Scan_Exit \<Rightarrow> 0 | Scan_Done \<Rightarrow> 0)"

text \<open>The driver is initialised and not asked to stop, and has no fresh data.\<close>

definition stale :: "'e sys \<Rightarrow> bool" where
  "stale s \<longleftrightarrow> d_init (s_drv s) \<and> \<not> d_exit (s_drv s) \<and> s_pc s \<noteq> Scan_Intr"

lemma recover_decreases:
  assumes ok: "sys_ok d lib s" and lib: "serving lib" and Q: "stale s"
    and run: "scan_step d lib se (s_pc s) (s_drv s) = Some (evs, s_pc s', s_drv s')"
  shows "recover_rank s' < recover_rank s"
proof -
  let ?D = "s_drv s"
  have wf: "wf_ads_def d" and inv: "sys_inv s" using ok by (simp_all add: sys_ok_def)
  note i = sys_invD [OF inv]
  have q: "d_init ?D" "\<not> d_exit ?D" "s_pc s \<noteq> Scan_Intr" using Q by (simp_all add: stale_def)
  then have npc: "s_pc s \<noteq> Scan_Exit" "s_pc s \<noteq> Scan_Done" using i(4) by auto
  have con: "up ?D" if "s_pc s \<in> {Scan_Info, Scan_State, Scan_Read}" using i(2) that by (auto simp: at_pc_def)
  then have isc: "is_connected (d_heap ?D)" if "s_pc s \<in> {Scan_Info, Scan_State, Scan_Read}"
    using that by (simp add: up_def)
  consider (h) "s_pc s = Scan_Head" | (c) "s_pc s = Scan_Connect" | (i) "s_pc s = Scan_Info"
    | (s) "s_pc s = Scan_State" | (r) "s_pc s = Scan_Read" using q npc by (cases "s_pc s") auto
  then show ?thesis
  proof cases
    case h
    have alloc: "req_allocated (d_req ?D)" by (rule drv_okD(9) [OF i(1) q(1)])
    have "is_connected (d_heap ?D) \<longleftrightarrow> req_initialized (d_req ?D)" using i(2) h by (auto simp: at_pc_def up_def down_def)
    with alloc have st: "s_drv s' = ?D"
      "s_pc s' = (if is_connected (d_heap ?D) then Scan_Info else Scan_Connect)"
      using scan_step_head(1,3) [OF run [unfolded h]] q by simp_all
    show ?thesis unfolding recover_rank_def st h by simp
  next
    case c
    have "up ?D \<or> down ?D" using i(2) c by (auto simp: at_pc_def)
    from ADSConnect_ok [OF wf i(1) this, of lib] obtain D1 where "ADSConnect d lib ?D = Some (asynSuccess, D1)" "up D1"
      using lib q by (auto simp: serving_def)
    then have "s_pc s' = Scan_Head" "is_connected (d_heap (s_drv s'))" using run c by (auto simp: up_def)
    then show ?thesis by (simp add: recover_rank_def c)
  next
    case i
    have "s_pc s' \<in> {Scan_State, Scan_Read}"
      using run i serving_info [OF lib isc _ wf] by (auto split: if_splits)
    then show ?thesis by (auto simp: recover_rank_def i)
  next
    case s
    have "s_pc s' = Scan_Read"
      using run s serving_state [OF lib isc] by (auto split: if_splits prod.splits)
    then show ?thesis by (simp add: recover_rank_def s)
  next
    case r
    have "s_pc s' = Scan_Intr"
      using run r doSumRead_ok [OF wf i(1) con, of lib] lib by (auto simp: serving_def split: if_splits)
    then show ?thesis by (simp add: recover_rank_def r)
  qed
qed

interpretation recovers: ranked "\<lambda>s. sys_start d lib s \<and> serving lib" "sys_step d lib"
  "\<lambda>s. sys_ok d lib s \<and> serving lib" scan_label stale recover_rank for d lib
proof
  show "sys_start d lib s \<and> serving lib \<Longrightarrow> sys_ok d lib s \<and> serving lib" for s
    using sysm.inv_init by blast
  show "sys_ok d lib s \<and> serving lib \<Longrightarrow> sys_step d lib s l s' \<Longrightarrow> sys_ok d lib s' \<and> serving lib" for s l s'
    using sysm.inv_step by blast
  fix s l s' assume ok: "sys_ok d lib s \<and> serving lib" and Q: "stale s" and step: "sys_step d lib s l s'"
  show "recover_rank s' < recover_rank s" if "scan_label l"
  proof -
    obtain evs where l: "l = Scan_label evs" using \<open>scan_label l\<close> by (cases l) (simp_all add: scan_label_def)
    from scan_label_step [OF conjunct1 [OF ok] step [unfolded l]] obtain se
      where "scan_step d lib se (s_pc s) (s_drv s) = Some (evs, s_pc s', s_drv s')" by blast
    from recover_decreases [OF conjunct1 [OF ok] conjunct2 [OF ok] Q this] show ?thesis .
  qed
  show "recover_rank s' \<le> recover_rank s" if "\<not> scan_label l"
  proof -
    have l: "l = Other_label" using that by (simp add: not_scan_label)
    from other_step_pc other_step_conn(1) [OF conjunct1 [OF ok]] step l
    have "s_pc s' = s_pc s" "is_connected (d_heap (s_drv s')) = is_connected (d_heap (s_drv s))" by blast+
    then show ?thesis by (simp add: recover_rank_def)
  qed
qed

section \<open>A concrete run\<close>

text \<open>An ADS device that answers everything, and a scan thread that meets an empty environment.\<close>

definition plc_lib :: "nat ads_lib" where
  "plc_lib = sevens_lib\<lparr>AdsSyncReadDeviceInfoReqEx :=
     (\<lambda>e p a. (0, (''PLC'' @ [CHR 0x00], [3, 1, 4024]), e + 1))\<rparr>"

definition quiet_env :: scan_env where
  "quiet_env = \<lparr> se_due = False, se_unset_info = replicate 16 CHR 0x00, se_unset_version = [], se_unset_dev = 0,
     se_unset_state = 0, se_interrupts = [], se_io = example_env \<rparr>"

lemma plc_lib_ok: "names_end plc_lib" "serving plc_lib"
  by (simp_all add: names_end_def serving_def connects_def reads_succeed_def plc_lib_def sevens_lib_def example_lib_def
      del: split_paired_All)

lemma quiet_env_ok: "scan_env_ok D quiet_env"
  by (simp add: scan_env_ok_def quiet_env_def io_env_ok_def example_env_def)

abbreviation example_reach :: "nat sys \<Rightarrow> bool" where
  "example_reach \<equiv> reach (sys_start ads_def_documented plc_lib) (sys_step ads_def_documented plc_lib)"

lemma example_start: "sys_start ads_def_documented plc_lib \<lparr>s_pc = Scan_Head, s_drv = example_new, s_hooked = False\<rparr>"
proof -
  have "(500 :: nat) < 2 ^ 16" by simp
  with example_new_eq show ?thesis
    unfolding sys_start_def sys_init_def using plc_lib_ok(1) wf_ads_def_documented by fastforce
qed

lemma example_scan:
  assumes "example_reach s" and "scan_step ads_def_documented plc_lib quiet_env (s_pc s) (s_drv s) = Some (evs, pc', D')"
  shows "example_reach (s\<lparr>s_pc := pc', s_drv := D'\<rparr>)"
  by (rule reach_step [OF assms(1) sys_scan [OF quiet_env_ok assms(2)]])

text \<open>After the hook: one variable, an output that is read back.\<close>

lemma example_hooked:
  obtains D where "example_reach \<lparr>s_pc = Scan_Head, s_drv = D, s_hooked = True\<rparr>" and "d_init D" and "\<not> d_exit D"
    and "down D" and "all_vars D = {0}" and "d_read_vars D = [0]" and "d_func D 0 = ''UINT[]''"
    and "h_addr (d_heap D) 0 = example_address"
proof -
  let ?s0 = "\<lparr>s_pc = Scan_Head, s_drv = example_new, s_hooked = False\<rparr>"
  have s0: "example_reach ?s0" using example_start by (rule reach_init)
  have "sys_step ads_def_documented plc_lib ?s0 Other_label (?s0\<lparr>s_drv := example_made\<rparr>)"
    by (rule sys_create [where g = 0 and x = "Some 0", OF _ example_device_link]) (simp_all add: example_made_eq)
  from reach_step [OF s0 this] have s1: "example_reach \<lparr>s_pc = Scan_Head, s_drv = example_made, s_hooked = False\<rparr>" by simp
  have vs: "set [0] \<subseteq> all_vars example_made" "distinct [0 :: nat]" by (simp_all add: example_made_fields)
  obtain D where D: "initHook (\<lambda>_. True) [0] example_made = Inr D" "d_init D" "d_exit D = d_exit example_made"
      "all_vars D = all_vars example_made" "down D" "d_read_vars D = d_read_vars example_made @ hook_vars example_made [0]"
      "d_func D = d_func example_made" "h_addr (d_heap D) = h_addr (d_heap example_made)"
    using initHook_total [OF example_made_ok(1,2) vs all_mem] example_made_ok(3) by auto
  have "sys_step ads_def_documented plc_lib \<lparr>s_pc = Scan_Head, s_drv = example_made, s_hooked = False\<rparr> Other_label
      (\<lparr>s_pc = Scan_Head, s_drv = example_made, s_hooked = False\<rparr>\<lparr>s_drv := D, s_hooked := True\<rparr>)"
    by (rule sys_hook [of _ "[0]" "\<lambda>_. True"]) (simp_all add: example_made_fields all_mem D(1))
  from reach_step [OF s1 this] have "example_reach \<lparr>s_pc = Scan_Head, s_drv = D, s_hooked = True\<rparr>" by simp
  with D example_made_ok(4) example_made_fields show ?thesis by (intro that [of D]) (simp_all add: hook_vars_def)
qed

text \<open>The thread then connects, and is about to read.\<close>

lemma example_reading:
  obtains D where "example_reach \<lparr>s_pc = Scan_Read, s_drv = D, s_hooked = True\<rparr>" and "up D" and "drv_ok D"
    and "\<not> d_exit D" and "all_vars D = {0}" and "d_read_vars D = [0]" and "h_size (d_heap D) 0 \<le> 10"
proof -
  obtain D where r: "example_reach \<lparr>s_pc = Scan_Head, s_drv = D, s_hooked = True\<rparr>" and D: "d_init D" "\<not> d_exit D"
    "down D" "all_vars D = {0}" "d_read_vars D = [0]" "d_func D 0 = ''UINT[]''" "h_addr (d_heap D) 0 = example_address"
    by (rule example_hooked)
  have ok: "drv_ok D" using reach_sys(3) [OF r] by (simp add: sys_inv_def)
  have "scan_step ads_def_documented plc_lib quiet_env Scan_Head D = Some ([], Scan_Connect, D)"
    using D by (simp add: down_def)
  with example_scan [OF r] have r1: "example_reach \<lparr>s_pc = Scan_Connect, s_drv = D, s_hooked = True\<rparr>" by fastforce
  obtain D1 where c: "ADSConnect ads_def_documented plc_lib D = Some (asynSuccess, D1)" and D1: "drv_ok D1" "same_driver D D1" "up D1"
    using ADSConnect_ok [OF wf_ads_def_documented ok disjI2 [OF D(3)], of plc_lib] D plc_lib_ok(2)
    by (auto simp: serving_def)
  have "scan_step ads_def_documented plc_lib quiet_env Scan_Connect D = Some ([], Scan_Head, D1)" using c by simp
  with example_scan [OF r1] have r2: "example_reach \<lparr>s_pc = Scan_Head, s_drv = D1, s_hooked = True\<rparr>" by fastforce
  have "scan_step ads_def_documented plc_lib quiet_env Scan_Head D1 = Some ([], Scan_Info, D1)"
    using D D1 drv_okD(9) [OF D1(1)] by (simp add: same_driver_def up_def)
  with example_scan [OF r2] have r3: "example_reach \<lparr>s_pc = Scan_Info, s_drv = D1, s_hooked = True\<rparr>" by fastforce
  have "scan_step ads_def_documented plc_lib quiet_env Scan_Info D1 = Some ([], Scan_Read, D1)"
    by (simp add: quiet_env_def)
  with example_scan [OF r3] have r4: "example_reach \<lparr>s_pc = Scan_Read, s_drv = D1, s_hooked = True\<rparr>" by fastforce
  have v: "all_vars D1 = {0}" "d_func D1 0 = ''UINT[]''"
    "addr_data_type (h_addr (d_heap D1) 0) = T_UINT" "addr_nelem (h_addr (d_heap D1) 0) = 5"
    using D D1(2) same_driver_vars [OF D1(2)]
    by (simp_all add: same_driver_def keeps_def h_addr_def example_address_def)
  have "io_capacity ''UINT[]'' (h_addr (d_heap D1) 0) = 10" "io_intr_handler ''UINT[]'' T_UINT \<noteq> None"
    using v by (simp_all add: io_capacity_def example_io_intr)
  then have "h_size (d_heap D1) 0 \<le> 10"
    using drv_okD(6) [OF D1(1), of 0] v by (simp add: var_ok_def h_addr_def h_size_def)
  with r4 D1 D v show ?thesis by (intro that [of D1]) (simp_all add: same_driver_def)
qed

lemma example_fresh:
  obtains s where "example_reach s" and "s_pc s = Scan_Intr" and "all_vars (s_drv s) = {0}" and "\<not> d_exit (s_drv s)"
proof -
  obtain D1 where r: "example_reach \<lparr>s_pc = Scan_Read, s_drv = D1, s_hooked = True\<rparr>" and D1: "drv_ok D1" "up D1"
    "all_vars D1 = {0}" "\<not> d_exit D1" by (rule example_reading)
  obtain D2 where s: "doSumRead ads_def_documented plc_lib D1 = Some (asynSuccess, D2)" and D2: "same_driver D1 D2"
    using doSumRead_ok [OF wf_ads_def_documented D1(1,2), of plc_lib] plc_lib_ok(2) by (auto simp: serving_def)
  have "scan_step ads_def_documented plc_lib quiet_env Scan_Read D1 = Some ([], Scan_Intr, D2)" using s by simp
  with example_scan [OF r] have "example_reach \<lparr>s_pc = Scan_Intr, s_drv = D2, s_hooked = True\<rparr>" by fastforce
  moreover have "all_vars D2 = {0}" "\<not> d_exit D2" using D1 D2 by (simp_all add: same_driver_def all_vars_def)
  ultimately show ?thesis using that by fastforce
qed

end
