(* ===== verification/Race_Example.thy ===== *)
theory Race_Example
  imports Race_Theorems Driver_Props
begin

text \<open>
  A concrete interleaving in which a handler returns, with return code 0, bytes that are partly from the
  last sum-read and partly from the one that is under way.
\<close>

section \<open>Runs\<close>

text \<open>A handler that runs alone for a while.\<close>

lemma reach_hand_run:
  assumes "steps hand_may (hand_step d) q h k q' h'" and "reach init (race_step d lib r) s"
    and "rc_hand s = q" and "rc_heap s = h"
  shows "reach init (race_step d lib r) (s\<lparr>rc_hand := q', rc_heap := h'\<rparr>)"
  using assms
proof (induction arbitrary: s rule: steps.induct)
  case (steps_nil q h)
  then show ?case by (cases s) simp
next
  case (steps_step q i h q1 h1 n q2 h2)
  have "race_step d lib r s Handler_thread (s\<lparr>rc_hand := q1, rc_heap := h1\<rparr>)"
    using steps_step.hyps(1,2) steps_step.prems by (intro race_hand) simp_all
  from steps_step.IH [OF reach_step [OF steps_step.prems(1) this]] show ?case by simp
qed

text \<open>The scan thread alone, when every call of the ADS library succeeds.\<close>

lemma scan_moves:
  assumes "reach (race_start d r h0) (race_step d lib r) s" and "rc_hand s = Hand_Idle" and "read_may (rc_read s) i"
    and "read_step d lib r i (rc_read s) (rc_heap s) = Some (p, h)"
  shows "\<exists>s'. reach (race_start d r h0) (race_step d lib r) s' \<and> rc_hand s' = Hand_Idle \<and> rc_read s' = p \<and> rc_heap s' = h"
proof -
  have "\<not> blocked (rc_read s) (rc_hand s) (rc_heap s)" using assms(2) blocked_busy [of "rc_read s" "rc_hand s"] by auto
  from reach_step [OF assms(1) race_read [OF assms(3) this assms(4)]] assms(2) show ?thesis
    by (intro exI [of _ "s\<lparr>rc_read := p, rc_heap := h, rc_answers := note_answer (rc_read s) p (rc_answers s)\<rparr>"]) simp
qed

lemma scan_ok: "reach (race_start d r h0) (race_step d lib r) s \<Longrightarrow> read_ok r (rc_read s) (rc_heap s)"
  by (rule scan_invD(1) [OF race_invD(2) [OF racem.reach_inv]])

definition calls_succeed :: "ads_def \<Rightarrow> 'e ads_lib \<Rightarrow> bool" where
  "calls_succeed d lib \<longleftrightarrow> (\<forall>(h :: 'e heap) c. fst (chunk_call d lib h c) = 0)"

lemma scan_calls:
  assumes s: "reach (race_start d r h0) (race_step d lib r) s" "rc_hand s = Hand_Idle" "rc_read s = Read_Loop (c # cs)"
    and succ: "calls_succeed d lib"
  shows "\<exists>s' resp. reach (race_start d r h0) (race_step d lib r) s' \<and> rc_hand s' = Hand_Idle
    \<and> rc_read s' = Read_Store c cs 0 resp
        [0..<min (u32 (buf_buffer_size (h_buf (rc_heap s') (chunk_buffer c)))) (length resp)]"
proof -
  have ok: "read_ok r (Read_Loop (c # cs)) (rc_heap s)" using scan_ok [OF s(1)] s(3) by simp
  obtain b where b: "read_step d lib r 0 (Read_Loop (c # cs)) (rc_heap s)
      = Some (Read_Call c cs, set_buf (chunk_buffer c) b (rc_heap s))"
    using step_loop [OF ok, of d lib 0] by metis
  have "read_may (rc_read s) 0" using s(3) by simp
  from scan_moves [OF s(1,2) this] b s(3) obtain s1 where s1: "reach (race_start d r h0) (race_step d lib r) s1"
    "rc_hand s1 = Hand_Idle" "rc_read s1 = Read_Call c cs" by fastforce
  have ok1: "read_ok r (Read_Call c cs) (rc_heap s1)" using scan_ok [OF s1(1)] s1(3) by simp
  obtain rc resp e1 where call: "chunk_call d lib (rc_heap s1) c = (rc, resp, e1)"
    by (cases "chunk_call d lib (rc_heap s1) c") auto
  with succ have "rc = 0" by (metis calls_succeed_def fst_conv)
  have "read_may (rc_read s1) 0" using s1(3) by simp
  from scan_moves [OF s1(1,2) this] step_call [OF ok1 call, of 0] s1(3) \<open>rc = 0\<close>
  obtain s2 where "reach (race_start d r h0) (race_step d lib r) s2" "rc_hand s2 = Hand_Idle"
    "rc_read s2 = Read_Store c cs 0 resp
        [0..<min (u32 (buf_buffer_size (h_buf (rc_heap s1) (chunk_buffer c)))) (length resp)]"
    "rc_heap s2 = (rc_heap s1)\<lparr>h_env := e1\<rparr>" by fastforce
  then show ?thesis by auto
qed

lemma scan_stores:
  assumes "reach (race_start d r h0) (race_step d lib r) s" "rc_hand s = Hand_Idle"
    and "rc_read s = Read_Store c cs 0 resp todo"
  shows "\<exists>s'. reach (race_start d r h0) (race_step d lib r) s' \<and> rc_hand s' = Hand_Idle \<and> rc_read s' = Read_Loop cs"
  using assms
proof (induction todo arbitrary: s)
  case Nil
  then have "read_may (rc_read s) 0" by simp
  from scan_moves [OF Nil(1,2) this] Nil(3) show ?case by fastforce
next
  case (Cons i todo)
  have ok: "read_ok r (Read_Store c cs 0 resp (i # todo)) (rc_heap s)" using scan_ok [OF Cons.prems(1)] Cons.prems(3) by simp
  have "i \<in> set (i # todo)" by simp
  from step_store [OF ok this, of d lib] obtain h where
    "read_step d lib r i (Read_Store c cs 0 resp (i # todo)) (rc_heap s) = Some (Read_Store c cs 0 resp todo, h)"
    by (metis remove1.simps(2))
  moreover have "read_may (rc_read s) i" using Cons.prems(3) by simp
  ultimately obtain s1 where "reach (race_start d r h0) (race_step d lib r) s1" "rc_hand s1 = Hand_Idle"
    "rc_read s1 = Read_Store c cs 0 resp todo"
    using scan_moves [OF Cons.prems(1,2)] Cons.prems(3) by metis
  with Cons.IH show ?case by blast
qed

text \<open>The scan thread gets to every chunk.\<close>

lemma scan_reaches:
  assumes start: "race_start d r h0 s0" and succ: "calls_succeed d lib" and split: "get_chunks r = ds @ cs"
  shows "\<exists>s. reach (race_start d r h0) (race_step d lib r) s \<and> rc_hand s = Hand_Idle \<and> rc_read s = Read_Loop cs"
  using split
proof (induction ds arbitrary: cs rule: rev_induct)
  case Nil
  have s0: "reach (race_start d r h0) (race_step d lib r) s0" "rc_hand s0 = Hand_Idle" "rc_read s0 = Read_Start"
    "req_initialized r"
    using reach_init [of "race_start d r h0", OF start] start by (simp_all add: race_start_def)
  then have "read_may (rc_read s0) 0" by simp
  from scan_moves [OF s0(1,2) this] s0(3,4) Nil show ?case by fastforce
next
  case (snoc c ds)
  then obtain s where s: "reach (race_start d r h0) (race_step d lib r) s" "rc_hand s = Hand_Idle"
    "rc_read s = Read_Loop (c # cs)" by auto
  from scan_calls [OF s succ] scan_stores show ?case by blast
qed

section \<open>A torn read\<close>

text \<open>The example after a sum-read, as the start of the next one.\<close>

definition example_race :: "nat heap \<Rightarrow> nat race" where
  "example_race h = \<lparr> rc_read = Read_Start, rc_hand = Hand_Idle, rc_heap = h, rc_answers = (\<lambda>_. None) \<rparr>"

lemma example_vars:
  assumes "\<forall>v. \<exists>pos. h_vars h v = set_buffer_reader pos example_resolved"
  shows "h_size h v = 10" and "\<not> var_write_readback (h_vars h v)" and "last_written_fits (h_vars h v)"
    and "readable_vars h r"
proof -
  have l: "\<exists>pos. h_vars h v = set_buffer_reader pos example_resolved" for v using assms by blast
  have ten: "var_size example_resolved = 10"
    by (simp add: example_resolved_def var_size_def resolve_def example_address_def example_variable_def)
  show size: "h_size h v = 10" for v using like_example(2) [OF l] ten by simp
  show "\<not> var_write_readback (h_vars h v)" "last_written_fits (h_vars h v)" for v
    using like_example(4,5) [OF l]
    by (simp_all add: last_written_fits_def example_resolved_def example_variable_def)
  have "fits32 (var_request h v)" for v
    using like_example(1) [OF l [of v]] size [of v]
    by (simp add: fits32_def var_request_def h_size_def example_resolved_def example_variable_def
        resolve_def example_address_def)
  with size show "readable_vars h r" by (simp add: readable_vars_def)
qed

lemma example_race_start:
  assumes "req_ok h r" and "req_initialized r" and "all_bufs buf_initialized h (get_chunks r)"
    and "\<forall>v. \<exists>pos. h_vars h v = set_buffer_reader pos example_resolved"
  shows "race_start ads_def_documented r h (example_race h)"
  using assms example_vars(3) [OF assms(4)] by (simp add: race_start_def example_race_def wf_ads_def_documented)

lemma constant_calls: "calls_succeed d (constant_lib x)"
  by (simp add: calls_succeed_def chunk_call_def constant_lib_def)

text \<open>After one byte of the answer has been stored, one byte of the buffer is new.\<close>

lemma one_byte_new:
  assumes s: "reach (race_start d r h0) (race_step d lib r) s"
    and p: "rc_read s = Read_Store c cs 0 resp (remove1 j [0..<m])" and c: "c \<in> set (get_chunks r)"
    and m: "m = min (u32 (length (old_bytes h0 c))) (length resp)" and j: "j < m"
  shows "buf_buffer (h_buf (rc_heap s) (chunk_buffer c)) = Some ((old_bytes h0 c)[j := resp ! j])"
proof -
  note i = scan_invD [OF race_invD(2) [OF racem.reach_inv [OF s]]]
  have a: "rc_answers s (chunk_buffer c) = Some (0, resp)" using i(3) p by simp
  have "set (filter (\<lambda>i. i \<notin> set (remove1 j [0..<m])) [0..<m]) = {j}" using j by auto
  then have "put_bytes (filter (\<lambda>i. i \<notin> set (remove1 j [0..<m])) [0..<m]) (\<lambda>i. resp ! i) (old_bytes h0 c)
      = (old_bytes h0 c)[j := resp ! j]"
    by (intro nth_equalityI) (simp_all add: nth_list_update del: set_filter)
  with i(5) [OF c] a p m show ?thesis by (simp add: now_bytes_def)
qed

lemma constant_answer:
  assumes "chunk_call d (constant_lib x) h c = (rc, resp, e)"
  shows "resp = replicate (4 * length (chunk_variables c)) 0
    @ replicate (u32 (buf_buffer_size (h_buf h (chunk_buffer c))) - 4 * length (chunk_variables c)) x"
  using assms by (auto simp: chunk_call_def constant_lib_def)

lemma two_bytes: "Suc j < length xs \<Longrightarrow> take 2 (drop j xs) = [xs ! j, xs ! Suc j]"
  by (metis Cons_nth_drop_Suc Suc_lessD numeral_2_eq_2 take0 take_Suc_Cons)

text \<open>The state after the first data byte of variable 3 has been stored.\<close>

lemma half_stored:
  assumes ex: "example_read example_resolved h0 r"
  shows "\<exists>s. reach (race_start ads_def_documented r h0) (race_step ads_def_documented (constant_lib 9) r) s
    \<and> rc_hand s = Hand_Idle \<and> data_valid (rc_heap s) 3 \<and> slot_code (rc_heap s) 3 = 0
    \<and> slot_data (rc_heap s) 3 2 = [9, 7]"
proof -
  let ?lib = "constant_lib 9" and ?d = ads_def_documented
  have ok: "req_ok h0 r" "req_initialized r" "all_bufs buf_initialized h0 (get_chunks r)"
    and like: "\<forall>v. \<exists>pos. h_vars h0 v = set_buffer_reader pos example_resolved"
    and vars: "set (req_variables r) = {3, 4}" and valid: "data_valid h0 3" "slot_code h0 3 = 0"
    and data: "slot_data h0 3 2 = replicate 2 7"
    using ex by (auto simp: example_read_def example_vars example_resolved_def var_size_def resolve_def
        example_address_def example_variable_def)
  note ten = example_vars(1) [OF like] and readable = example_vars(4) [OF like]
  note start = example_race_start [OF ok like]
  have ok0: "read_ok r Read_Start h0" using ok by (simp add: read_ok_def)
  have three: "3 \<in> set (req_variables r)" using vars by simp
  from slot_facts [OF ok0 three] ten obtain c bs where c: "c \<in> set (get_chunks r)" "3 \<in> set (chunk_variables c)"
    and pos: "pos_buffer (h_reader h0 3) = Some (chunk_buffer c)" and bs: "buf_buffer (h_buf h0 (chunk_buffer c)) = Some bs"
    and idx: "code_index h0 3 + 4 \<le> 4 * length (chunk_variables c)" "slot_index h0 c 3 + 10 \<le> length bs"
    by auto
  let ?j = "slot_index h0 c 3" and ?n = "length (chunk_variables c)" and ?size = "buf_buffer_size (h_buf h0 (chunk_buffer c))"
  have old: "old_bytes h0 c = bs" using bs by (simp add: old_bytes_def)
  have len: "length bs = ?size" "buf_variables (h_buf h0 (chunk_buffer c)) = chunk_variables c"
    using read_okD [OF ok0 c(1)] bs by (metis option.inject)+
  have small: "u32 ?size = ?size" using chunk_small [OF ok(1) readable c(1)] by simp
  obtain ds cs where split: "get_chunks r = ds @ c # cs" using c(1) by (metis split_list)
  obtain s where s: "reach (race_start ?d r h0) (race_step ?d ?lib r) s" "rc_hand s = Hand_Idle" "rc_read s = Read_Loop (c # cs)"
    using scan_reaches [OF start constant_calls split] by blast
  obtain s1 resp where s1: "reach (race_start ?d r h0) (race_step ?d ?lib r) s1" "rc_hand s1 = Hand_Idle"
    and p1: "rc_read s1 = Read_Store c cs 0 resp
      [0..<min (u32 (buf_buffer_size (h_buf (rc_heap s1) (chunk_buffer c)))) (length resp)]"
    using scan_calls [OF s constant_calls] by blast
  note v = race_invD(2) [OF racem.reach_inv [OF s1(1)]]
  note i = scan_invD [OF v]
  have size1: "buf_buffer_size (h_buf (rc_heap s1) (chunk_buffer c)) = ?size"
    using race_frameD(7) [OF i(2)] by (simp add: same_layout_def)
  have "rc_answers s1 (chunk_buffer c) = Some (0, resp)" using i(3) p1 by simp
  from i(6) [OF c(1) this] constant_answer
  have resp: "resp = replicate (4 * ?n) 0 @ replicate (?size - 4 * ?n) 9" using small by fastforce
  have j: "4 * ?n \<le> ?j" "?j < ?size" using idx(2) len by (simp_all add: slot_index_def)
  then have r9: "resp ! ?j = 9" "length resp = ?size" by (simp_all add: resp nth_append)
  have p1': "rc_read s1 = Read_Store c cs 0 resp [0..<?size]" using p1 size1 small r9 by simp
  have jt: "?j \<in> set [0..<?size]" using j by simp
  obtain h2 where "read_step ?d ?lib r ?j (rc_read s1) (rc_heap s1)
      = Some (Read_Store c cs 0 resp (remove1 ?j [0..<?size]), h2)"
    using step_store [OF _ jt, of r c cs 0 resp "rc_heap s1" ?d ?lib] i(1) p1' by metis
  moreover have "read_may (rc_read s1) ?j" using p1' jt by simp
  ultimately obtain s2 where s2: "reach (race_start ?d r h0) (race_step ?d ?lib r) s2" "rc_hand s2 = Hand_Idle"
    and p2: "rc_read s2 = Read_Store c cs 0 resp (remove1 ?j [0..<?size])"
    using scan_moves [OF s1] by metis
  let ?new = "bs[?j := 9]"
  have new: "buf_buffer (h_buf (rc_heap s2) (chunk_buffer c)) = Some ?new"
    using one_byte_new [OF s2(1) p2 c(1) _ j(2)] old len small r9 by simp
  note i2 = scan_invD [OF race_invD(2) [OF racem.reach_inv [OF s2(1)]]]
  note f = race_frameD [OF i2(2)]
  have bv: "buf_variables (h_buf (rc_heap s2) (chunk_buffer c)) = chunk_variables c"
    using f(7) [of "chunk_buffer c"] len by (simp add: same_layout_def)
  have lt: "Suc ?j < length bs" using idx(2) by simp
  have "take 2 (drop ?j bs) = [7, 7]"
    using data pos bs len by (simp add: slot_data_def slot_index_def numeral_2_eq_2)
  with two_bytes [OF lt] have seven: "bs ! Suc ?j = 7" by simp
  have "slot_data (rc_heap s2) 3 2 = [9, 7]"
    using two_bytes [of ?j ?new] lt seven new pos f(2) bv by (simp add: slot_data_def slot_index_def)
  moreover have "slot_code (rc_heap s2) 3 = slot_code h0 3"
    using new bs pos f(2) idx(1) j(1) by (simp add: slot_code_def code_index_def drop_update_swap)
  moreover have "data_valid (rc_heap s2) 3"
    using i2(7) [of c] p2 valid(1) pos f(2) by (simp add: data_valid_def)
  ultimately show ?thesis using s2 valid(2) by auto
qed

text \<open>A handler that starts in this state.\<close>

lemma handler_starts:
  obtains h0 :: "nat heap" and r s where "example_read example_resolved h0 r"
    and "reach (race_start ads_def_documented r h0) (race_step ads_def_documented (constant_lib 9) r) s"
    and "rc_hand s = Hand_Start 3 2 [0, 0]"
    and "read_from_buffer ads_def_documented 3 2 (Some [0, 0]) (rc_heap s) = Some (0, Some [9, 7], rc_heap s)"
proof -
  let ?d = ads_def_documented and ?lib = "constant_lib 9"
  obtain h0 :: "nat heap" and r where ex: "example_read example_resolved h0 r"
    using example_read_exists [OF example_resolved_ok] by blast
  obtain s where s: "reach (race_start ?d r h0) (race_step ?d ?lib r) s" "rc_hand s = Hand_Idle"
    and slot: "data_valid (rc_heap s) 3" "slot_code (rc_heap s) 3 = 0" "slot_data (rc_heap s) 3 2 = [9, 7]"
    using half_stored [OF ex] by blast
  have like: "\<forall>v. \<exists>pos. h_vars h0 v = set_buffer_reader pos example_resolved" and vars: "set (req_variables r) = {3, 4}"
    using ex by (simp_all add: example_read_def)
  note i = scan_invD [OF race_invD(2) [OF racem.reach_inv [OF s(1)]]]
  note f = race_frameD [OF i(2)]
  have wr: "\<not> var_write_readback (h_vars (rc_heap s) 3)" using example_vars(2) [OF like] f(4) by simp
  let ?s = "s\<lparr>rc_hand := Hand_Start 3 2 [0, 0]\<rparr>"
  have "race_step ?d ?lib r s Outside ?s"
    using s(2) vars wr by (intro race_begin) (simp_all add: call_ok_def)
  with s(1) have start: "reach (race_start ?d r h0) (race_step ?d ?lib r) ?s" by (rule reach_step)
  have ok: "req_ok (rc_heap s) r" "all_bufs buf_initialized (rc_heap s) (get_chunks r)" using i(1) by (simp_all add: read_ok_def)
  have three: "3 \<in> set (req_variables r)" using vars by simp
  have "read_from_buffer ?d 3 2 (Some [0, 0]) (rc_heap s) = Some (0, Some [9, 7], rc_heap s)"
    using read_from_buffer_eq(1) [OF ok three, of 2 "[0, 0]" ?d] slot wr f(1) example_vars(1) [OF like]
    by (simp add: readback_pending_def Let_def)
  with that [OF ex start] show ?thesis by simp
qed

text \<open>
  C10. A torn read: a handler can return, with return code 0, a value that the PLC variable never had. In
  the example the bytes of variable 3 are 7 7 before the call of \<open>read\<close> and the device answers 9 9;
  a handler that reads two bytes while the library is storing the answer returns 9 7. The
  read lock that the handler takes does not prevent it, because \<open>read\<close> hands the buffer to the ADS
  library without taking the write lock.
\<close>

theorem torn_read:
  "\<exists>r (h0 :: nat heap) s. reach (race_start ads_def_documented r h0) (race_step ads_def_documented (constant_lib 9) r) s
     \<and> answers_sum_reads ads_def_documented (constant_lib 9) (constant_plc 9)
     \<and> 3 \<in> set (req_variables r) \<and> data_valid h0 3 \<and> slot_code h0 3 = 0 \<and> slot_data h0 3 2 = [7, 7]
     \<and> rc_hand s = Hand_Return 3 2 0 [9, 7]"
proof -
  let ?d = ads_def_documented and ?lib = "constant_lib 9"
  obtain h0 :: "nat heap" and r s where ex: "example_read example_resolved h0 r"
    and start: "reach (race_start ?d r h0) (race_step ?d ?lib r) s" "rc_hand s = Hand_Start 3 2 [0, 0]"
    and read: "read_from_buffer ?d 3 2 (Some [0, 0]) (rc_heap s) = Some (0, Some [9, 7], rc_heap s)"
    by (rule handler_starts)
  have old: "data_valid h0 3" "slot_code h0 3 = 0" "slot_data h0 3 2 = [7, 7]" "3 \<in> set (req_variables r)"
    using ex by (auto simp: example_read_def example_resolved_def var_size_def resolve_def
        example_address_def example_variable_def numeral_2_eq_2)
  from hand_run [OF read] obtain k where
    "steps hand_may (hand_step ?d) (Hand_Start 3 2 [0, 0]) (rc_heap s) k (Hand_Return 3 2 0 [9, 7]) (rc_heap s)" by blast
  from reach_hand_run [OF this start refl] have "reach (race_start ?d r h0) (race_step ?d ?lib r)
      (s\<lparr>rc_hand := Hand_Return 3 2 0 [9, 7], rc_heap := rc_heap s\<rparr>)" .
  with constant_answers [of ?d 9] old show ?thesis by force
qed

section \<open>The driver\<close>

text \<open>
  C14. In every state of the driver in which the scan thread is about to make its sum-read, the assumptions
  of the results about interleaving hold, with the driver's own request and heap; and the steps of the
  scan thread alone are the sum-read that the driver's step takes as one.
\<close>

theorem driver_read_interleaves:
  assumes "reach (sys_start d lib) (sys_step d lib) S" and "s_pc S = Scan_Read"
  shows "race_start d (d_req (s_drv S)) (d_heap (s_drv S))
       \<lparr> rc_read = Read_Start, rc_hand = Hand_Idle, rc_heap = d_heap (s_drv S), rc_answers = (\<lambda>_. None) \<rparr>
    \<and> (\<forall>n rc h. steps read_may (read_step d lib (d_req (s_drv S))) Read_Start (d_heap (s_drv S)) n (Read_Return rc) h \<longrightarrow>
         sum_read d lib (d_heap (s_drv S)) (d_req (s_drv S)) = Some (rc, h))"
proof -
  let ?D = "s_drv S"
  note r = reach_sys [OF assms(1)]
  note o = drv_okD [OF sys_invD(1) [OF r(3)]]
  have up: "up ?D" using sys_invD(2) [OF r(3)] assms(2) by (simp add: at_pc_def)
  then have init: "d_init ?D" "req_initialized (d_req ?D)" by (simp_all add: up_def)
  have vars: "last_written_fits (h_vars (d_heap ?D) vid)" if "vid \<in> set (req_variables (d_req ?D))" for vid
  proof -
    have "vid \<in> all_vars ?D" using that o(10) [OF init(1)] o(5) by auto
    with o(6) show ?thesis by (simp add: var_ok_def last_written_fits_def)
  qed
  have ok: "read_ok (d_req ?D) Read_Start (d_heap ?D)" using o(1) o(11) [OF init(1)] by (simp add: read_ok_def)
  have "race_start d (d_req ?D) (d_heap ?D)
       \<lparr> rc_read = Read_Start, rc_hand = Hand_Idle, rc_heap = d_heap ?D, rc_answers = (\<lambda>_. None) \<rparr>"
    using r(1) o(1) o(11) [OF init(1)] init(2) vars by (simp add: race_start_def)
  moreover have "sum_read d lib (d_heap ?D) (d_req ?D) = Some (rc, h)"
    if "steps read_may (read_step d lib (d_req ?D)) Read_Start (d_heap ?D) n (Read_Return rc) h" for n rc h
    using reader.steps_result [OF that ok, of rc] by simp
  ultimately show ?thesis by blast
qed

section \<open>Instances\<close>

theorem races_memory_safe_witness:
  "\<exists>r (h0 :: nat heap) s. reach (race_start ads_def_documented r h0) (race_step ads_def_documented (constant_lib 9) r) s
     \<and> rc_hand s = Hand_Start 3 2 [0, 0] \<and> hand_step ads_def_documented 0 (rc_hand s) (rc_heap s) \<noteq> None"
proof -
  obtain h0 :: "nat heap" and r s where
    s: "reach (race_start ads_def_documented r h0) (race_step ads_def_documented (constant_lib 9) r) s"
      "rc_hand s = Hand_Start 3 2 [0, 0]" by (rule handler_starts)
  have "hand_may (rc_hand s) 0" using s(2) by simp
  with races_memory_safe [OF s(1)] have "hand_step ads_def_documented 0 (rc_hand s) (rc_heap s) \<noteq> None" by blast
  with s show ?thesis by blast
qed

text \<open>Before a handler returns 0 it is after \<open>read_data\<close>.\<close>

lemma hand_finishes:
  assumes wf: "wf_ads_def d" and run: "steps hand_may (hand_step d) (Hand_Start vid n dst0) h k (Hand_Return vid n 0 out) h'"
  shows "\<exists>k dst code h1. steps hand_may (hand_step d) (Hand_Start vid n dst0) h k (Hand_Finish vid n dst code) h1"
proof -
  have "k \<noteq> 0" using run by (auto elim: steps.cases)
  from steps_last [OF run this] obtain k1 q h1 i where q: "steps hand_may (hand_step d) (Hand_Start vid n dst0) h k1 q h1"
    and may: "hand_may q i" and step: "hand_step d i q h1 = Some (Hand_Return vid n 0 out, h')" by blast
  have call: "hand_call q = Some (vid, n)" using hand_steps_call [OF q] by simp
  have "ads_rc_to_epicsads_error d EPICSADS_NOT_INITIALIZED \<noteq> 0" "ads_rc_to_epicsads_error d EPICSADS_OUT_OF_RANGE \<noteq> 0"
    by (simp_all add: ads_rc_nonzero [OF wf])
  with may step call obtain dst code where "q = Hand_Finish vid n dst code"
    by (cases q) (auto simp: Let_def bind_eq_Some_conv split: if_splits)
  with q show ?thesis by blast
qed

theorem races_old_or_new_witness:
  "\<exists>r (h0 :: nat heap) s c dst code e rc resp e1.
     reach (race_start ads_def_documented r h0) (race_step ads_def_documented (constant_lib 9) r) s
     \<and> rc_hand s = Hand_Finish 3 2 dst code
     \<and> chunk_call ads_def_documented (constant_lib 9) (h0\<lparr>h_env := e\<rparr>) c = (rc, resp, e1)
     \<and> old_or_new (old_bytes h0 c) resp (slot_index h0 c 3) (dst ! 0)
     \<and> old_or_new (old_bytes h0 c) resp (slot_index h0 c 3 + 1) (dst ! 1)"
proof -
  let ?d = ads_def_documented and ?lib = "constant_lib 9"
  obtain h0 :: "nat heap" and r s where ex: "example_read example_resolved h0 r"
    and s: "reach (race_start ?d r h0) (race_step ?d ?lib r) s" "rc_hand s = Hand_Start 3 2 [0, 0]"
    and read: "read_from_buffer ?d 3 2 (Some [0, 0]) (rc_heap s) = Some (0, Some [9, 7], rc_heap s)"
    by (rule handler_starts)
  obtain k dst code h1 where "steps hand_may (hand_step ?d) (Hand_Start 3 2 [0, 0]) (rc_heap s) k (Hand_Finish 3 2 dst code) h1"
    using hand_run [OF read] hand_finishes [OF wf_ads_def_documented] by blast
  note r = reach_hand_run [OF this s refl]
  have three: "3 \<in> set (req_variables r)" using ex by (simp add: example_read_def)
  obtain c i where c: "c \<in> set (get_chunks r)" "i < length (chunk_variables c)" "chunk_variables c ! i = 3"
    by (rule req_variable_slot [OF three])
  then have v: "3 \<in> set (chunk_variables c)" using nth_mem by fastforce
  have "\<forall>v. \<exists>pos. h_vars h0 v = set_buffer_reader pos example_resolved" using ex by (simp add: example_read_def)
  then have ten: "h_size h0 3 = 10" by (rule example_vars)
  from races_old_or_new [OF r _ c(1) v, of 2 dst code] obtain e rc resp e1
    where call: "chunk_call ?d ?lib (h0\<lparr>h_env := e\<rparr>) c = (rc, resp, e1)"
      and bytes: "\<forall>k < min 2 (h_size h0 3). old_or_new (old_bytes h0 c) resp (slot_index h0 c 3 + k) (dst ! k)" by auto
  have "old_or_new (old_bytes h0 c) resp (slot_index h0 c 3) (dst ! 0)"
    "old_or_new (old_bytes h0 c) resp (slot_index h0 c 3 + 1) (dst ! 1)"
    using bytes [rule_format, of 0] bytes [rule_format, of 1] ten by simp_all
  with r call show ?thesis by fastforce
qed

text \<open>The end of a call of \<open>read\<close> when every call of the ADS library succeeds.\<close>

lemma read_returns:
  obtains h0 :: "nat heap" and r s where "example_initialized example_resolved h0 r"
    and "race_start ads_def_documented r h0 (example_race h0)"
    and "reach (race_start ads_def_documented r h0) (race_step ads_def_documented (constant_lib x) r) s"
    and "rc_read s = Read_Return 0" and "rc_hand s = Hand_Idle"
proof -
  obtain h0 :: "nat heap" and r where e: "example_initialized example_resolved h0 r"
    using example_initialized_exists [OF example_resolved_ok] by blast
  note ok = example_initialized_ok [OF e example_resolved_ok]
  have "\<forall>v. \<exists>pos. h_vars h0 v = set_buffer_reader pos example_resolved" using e by (simp add: example_initialized_def)
  note start = example_race_start [OF ok(1,2,3) this]
  obtain s where s: "reach (race_start ads_def_documented r h0) (race_step ads_def_documented (constant_lib x) r) s"
    "rc_hand s = Hand_Idle" "rc_read s = Read_Loop []"
    using scan_reaches [OF start constant_calls, of "get_chunks r" "[]"] by auto
  have "read_may (rc_read s) 0" using s(3) by simp
  from scan_moves [OF s(1,2) this] s(3) e start that show ?thesis by fastforce
qed

theorem races_snapshot_witness:
  "\<exists>r (h0 :: nat heap) s c. reach (race_start ads_def_documented r h0) (race_step ads_def_documented (constant_lib 9) r) s
     \<and> 3 \<in> set (chunk_variables c)
     \<and> (buf_buffer (h_buf (rc_heap s) (chunk_buffer c)) = Some (old_bytes h0 c)
        \<or> (\<exists>e rc resp e1. chunk_call ads_def_documented (constant_lib 9) (h0\<lparr>h_env := e\<rparr>) c = (rc, resp, e1)
             \<and> buf_buffer (h_buf (rc_heap s) (chunk_buffer c))
                 = Some (fill (u32 (length (old_bytes h0 c))) resp (old_bytes h0 c))))"
proof -
  obtain h0 :: "nat heap" and r s where e: "example_initialized example_resolved h0 r"
    and s: "reach (race_start ads_def_documented r h0) (race_step ads_def_documented (constant_lib 9) r) s"
      "rc_read s = Read_Return 0" by (rule read_returns)
  have three: "3 \<in> set (req_variables r)" using e by (simp add: example_initialized_def)
  obtain c i where c: "c \<in> set (get_chunks r)" "i < length (chunk_variables c)" "chunk_variables c ! i = 3"
    by (rule req_variable_slot [OF three])
  then have v: "3 \<in> set (chunk_variables c)" using nth_mem by fastforce
  have "\<nexists>cs rc resp todo. rc_read s = Read_Store c cs rc resp todo" using s(2) by simp
  from races_snapshot [OF s(1) c(1) this] s(1) v show ?thesis by blast
qed

theorem races_deliver_witness:
  "\<exists>r (h0 :: nat heap) s. reach (race_start ads_def_documented r h0) (race_step ads_def_documented (constant_lib 9) r) s
     \<and> rc_read s = Read_Return 0
     \<and> read_from_buffer ads_def_documented 3 10 (Some (replicate 10 0)) (rc_heap s)
         = Some (0, Some (replicate 10 9), rc_heap s)"
proof -
  obtain h0 :: "nat heap" and r s where e: "example_initialized example_resolved h0 r"
    and s: "reach (race_start ads_def_documented r h0) (race_step ads_def_documented (constant_lib 9) r) s"
      "rc_read s = Read_Return 0" by (rule read_returns)
  note ok = example_initialized_ok [OF e example_resolved_ok]
  have three: "3 \<in> set (req_variables r)" and like: "\<forall>v. \<exists>pos. h_vars h0 v = set_buffer_reader pos example_resolved"
    using e by (simp_all add: example_initialized_def)
  obtain c i where c: "c \<in> set (get_chunks r)" "i < length (chunk_variables c)" "chunk_variables c ! i = 3"
    by (rule req_variable_slot [OF three])
  then have v: "3 \<in> set (chunk_variables c)" using nth_mem by fastforce
  have ten: "h_size h0 3 = 10" using like by (rule example_vars)
  note f = race_frameD [OF scan_invD(2) [OF race_invD(2) [OF racem.reach_inv [OF s(1)]]]]
  have np: "\<not> readback_pending (rc_heap s) 3" using f(4) example_vars(2) [OF like] by (simp add: readback_pending_def)
  obtain st where *: "\<forall>vid \<in> set (chunk_variables c). \<forall>n dst.
    n \<le> length dst \<longrightarrow> \<not> readback_pending (rc_heap s) vid \<longrightarrow>
    (case constant_plc 9 st (chunk_addr h0 c) (var_request h0 vid) of (code, bytes) \<Rightarrow>
       read_from_buffer ads_def_documented vid n (Some dst) (rc_heap s) =
         Some (if code = 0 then 0 else EPICSADS_NO_DATA,
               Some (take (min n (h_size h0 vid)) bytes @ drop (min n (h_size h0 vid)) dst), rc_heap s))"
    using races_deliver [OF s constant_answers ok(4,5) c(1)] by blast
  have "constant_plc 9 st (chunk_addr h0 c) (var_request h0 3) = (0, replicate 10 9)"
    using ten by (simp add: constant_plc_def var_request_def h_size_def)
  with * v np ten have "read_from_buffer ads_def_documented 3 10 (Some (replicate 10 0)) (rc_heap s)
      = Some (0, Some (replicate 10 9), rc_heap s)" by force
  with s show ?thesis by blast
qed

theorem races_end_witness:
  "\<exists>r (h0 :: nat heap) s. reach (race_start ads_def_documented r h0) (race_step ads_def_documented (constant_lib 9) r) s
     \<and> rc_hand s = Hand_Start 3 2 [0, 0]
     \<and> (\<exists>s'. race_step ads_def_documented (constant_lib 9) r s Handler_thread s')"
proof -
  let ?d = ads_def_documented and ?lib = "constant_lib 9"
  obtain h0 :: "nat heap" and r s where ex: "example_read example_resolved h0 r"
    and s: "reach (race_start ?d r h0) (race_step ?d ?lib r) s" "rc_hand s = Hand_Start 3 2 [0, 0]" by (rule handler_starts)
  have start: "race_start ?d r h0 (example_race h0)"
    using ex by (intro example_race_start) (simp_all add: example_read_def)
  have "run_while (race_step ?d ?lib r) (\<lambda>t. t = Handler_thread) (\<lambda>s. hand_busy (rc_hand s)) s 0 s" by (rule run_nil)
  with races_end [OF start, of ?lib] s have "hand_busy (rc_hand s) \<longrightarrow> (\<exists>s'. race_step ?d ?lib r s Handler_thread s')"
    by blast
  with s show ?thesis by auto
qed

theorem driver_read_interleaves_witness:
  "\<exists>S :: nat sys. s_pc S = Scan_Read \<and> race_start ads_def_documented (d_req (s_drv S)) (d_heap (s_drv S))
     \<lparr> rc_read = Read_Start, rc_hand = Hand_Idle, rc_heap = d_heap (s_drv S), rc_answers = (\<lambda>_. None) \<rparr>"
proof -
  obtain D where D: "example_reach \<lparr>s_pc = Scan_Read, s_drv = D, s_hooked = True\<rparr>" by (rule example_reading)
  let ?S = "\<lparr>s_pc = Scan_Read, s_drv = D, s_hooked = True\<rparr>"
  have pc: "s_pc ?S = Scan_Read" by simp
  from driver_read_interleaves [OF D pc] pc show ?thesis by blast
qed

end
