(* ===== verification/RW_Lock.thy ===== *)
theory RW_Lock
  imports Err Transitions
begin

text \<open>
  The read-write lock, \<open>RWLock.h\<close> and \<open>RWLock.cpp\<close>, over the lock of the operating system or of Boost.
  The functions of those are parameters; \<open>None\<close> as the result of a call is that it does not return,
  because it waits for the lock.
\<close>

section \<open>The libraries\<close>

text \<open>
  The build with \<open>LINUX_USE_CPP11\<close> uses the POSIX lock, the other one Boost's shared mutex. The state \<open>'l\<close>
  is that of the lock object.
\<close>

record 'l pthreads =
  pthread_rwlockattr_init :: "'l \<Rightarrow> int \<times> 'l"
  pthread_rwlockattr_setkind_np :: "'l \<Rightarrow> int \<Rightarrow> int \<times> 'l"
  pthread_rwlock_init :: "'l \<Rightarrow> int \<times> 'l"
  pthread_rwlock_rdlock :: "'l \<Rightarrow> (int \<times> 'l) option"
  pthread_rwlock_tryrdlock :: "'l \<Rightarrow> int \<times> 'l"
  pthread_rwlock_wrlock :: "'l \<Rightarrow> (int \<times> 'l) option"
  pthread_rwlock_trywrlock :: "'l \<Rightarrow> int \<times> 'l"
  pthread_rwlock_unlock :: "'l \<Rightarrow> int \<times> 'l"
  pthread_rwlock_destroy :: "'l \<Rightarrow> int \<times> 'l"
  pthread_rwlockattr_destroy :: "'l \<Rightarrow> int \<times> 'l"

record 'l shared_mutex =
  sm_lock_shared :: "'l \<Rightarrow> 'l option"
  sm_try_lock_shared :: "'l \<Rightarrow> bool \<times> 'l"
  sm_unlock_shared :: "'l \<Rightarrow> 'l"
  sm_lock :: "'l \<Rightarrow> 'l option"
  sm_try_lock :: "'l \<Rightarrow> bool \<times> 'l"
  sm_unlock :: "'l \<Rightarrow> 'l"

datatype 'l lock_build = Linux_use_cpp11 "'l pthreads" | Boost "'l shared_mutex"

section \<open>The operations\<close>

text \<open>
  The constructor. The messages are built as \<open>"..." + rc\<close>, which in C++ is not the number appended but
  the address of the literal advanced by \<open>rc\<close> characters: the message without its first characters,
  and undefined behaviour past its end (\<open>Undefined\<close>).
\<close>

definition literal_plus :: "string \<Rightarrow> int \<Rightarrow> string option" where
  "literal_plus s n = (if 0 \<le> n \<and> n \<le> int (length s) then Some (drop (nat n) s) else None)"

datatype lock_exn = Runtime_error string | Undefined_message

definition throw_literal :: "string \<Rightarrow> int \<Rightarrow> lock_exn + 'a" where
  "throw_literal s rc = Inl (case literal_plus s rc of Some m \<Rightarrow> Runtime_error m | None \<Rightarrow> Undefined_message)"

definition attr_init_message :: string where
  "attr_init_message = ''could not initialize RW lock attributes; pthread_rwlockattr_init: ''"

definition setkind_message :: string where
  "setkind_message = ''could not set RW lock attributes; pthread_rwlockattr_setkind_np: ''"

definition init_message :: string where
  "init_message = ''could not initialize RW lock; pthread_rwlock_init: ''"

fun RWLock :: "'l lock_build \<Rightarrow> int \<Rightarrow> 'l \<Rightarrow> lock_exn + 'l" where
  "RWLock (Linux_use_cpp11 lib) flags l =
     (case pthread_rwlockattr_init lib l of (rc, l1) \<Rightarrow>
        if rc \<noteq> 0 then throw_literal attr_init_message rc
        else (case pthread_rwlockattr_setkind_np lib l1 flags of (rc, l2) \<Rightarrow>
          if rc \<noteq> 0 then throw_literal setkind_message rc
          else (case pthread_rwlock_init lib l2 of (rc, l3) \<Rightarrow>
            if rc \<noteq> 0 then throw_literal init_message rc
            else Inr l3)))"
| "RWLock (Boost lib) flags l = Inr l"

fun RWLock_destroy :: "'l lock_build \<Rightarrow> 'l \<Rightarrow> 'l" where
  "RWLock_destroy (Linux_use_cpp11 lib) l =
     snd (pthread_rwlockattr_destroy lib (snd (pthread_rwlock_destroy lib l)))"
| "RWLock_destroy (Boost lib) l = l"

text \<open>\<open>if (rc != 0) return EPICSADS_ERROR; return 0;\<close>\<close>

definition lock_rc :: "int \<Rightarrow> int" where
  "lock_rc rc = (if rc \<noteq> 0 then EPICSADS_ERROR else 0)"

fun lock_read :: "'l lock_build \<Rightarrow> 'l \<Rightarrow> (int \<times> 'l) option" where
  "lock_read (Linux_use_cpp11 lib) l = map_option (apfst lock_rc) (pthread_rwlock_rdlock lib l)"
| "lock_read (Boost lib) l = map_option (\<lambda>l'. (0, l')) (sm_lock_shared lib l)"

fun try_lock_read :: "'l lock_build \<Rightarrow> 'l \<Rightarrow> (int \<times> 'l) option" where
  "try_lock_read (Linux_use_cpp11 lib) l = Some (apfst lock_rc (pthread_rwlock_tryrdlock lib l))"
| "try_lock_read (Boost lib) l =
     Some (apfst (\<lambda>ok. if ok then 0 else EPICSADS_ERROR) (sm_try_lock_shared lib l))"

fun unlock_read :: "'l lock_build \<Rightarrow> 'l \<Rightarrow> (int \<times> 'l) option" where
  "unlock_read (Linux_use_cpp11 lib) l = Some (apfst lock_rc (pthread_rwlock_unlock lib l))"
| "unlock_read (Boost lib) l = Some (0, sm_unlock_shared lib l)"

fun lock_write :: "'l lock_build \<Rightarrow> 'l \<Rightarrow> (int \<times> 'l) option" where
  "lock_write (Linux_use_cpp11 lib) l = map_option (apfst lock_rc) (pthread_rwlock_wrlock lib l)"
| "lock_write (Boost lib) l = map_option (\<lambda>l'. (0, l')) (sm_lock lib l)"

fun try_lock_write :: "'l lock_build \<Rightarrow> 'l \<Rightarrow> (int \<times> 'l) option" where
  "try_lock_write (Linux_use_cpp11 lib) l = Some (apfst lock_rc (pthread_rwlock_trywrlock lib l))"
| "try_lock_write (Boost lib) l =
     Some (apfst (\<lambda>ok. if ok then 0 else EPICSADS_ERROR) (sm_try_lock lib l))"

definition unlock :: "'l pthreads \<Rightarrow> 'l \<Rightarrow> int \<times> 'l" where
  "unlock lib l = pthread_rwlock_unlock lib l"

fun unlock_write :: "'l lock_build \<Rightarrow> 'l \<Rightarrow> (int \<times> 'l) option" where
  "unlock_write (Linux_use_cpp11 lib) l = Some (apfst lock_rc (unlock lib l))"
| "unlock_write (Boost lib) l = Some (0, sm_unlock lib l)"

section \<open>What the libraries promise\<close>

text \<open>
  The documented behaviour, over a view of the lock as the number of its readers and whether a writer
  holds it. Acquiring succeeds only when the lock is not held in a conflicting way; failing changes
  nothing; releasing a lock that is held succeeds. Nothing is said about waiting or about when an
  attempt fails.
\<close>

type_synonym holders = "nat \<times> bool"

definition acquires_read :: "holders \<Rightarrow> holders \<Rightarrow> bool" where
  "acquires_read v v' \<longleftrightarrow> \<not> snd v \<and> v' = (fst v + 1, False)"

definition acquires_write :: "holders \<Rightarrow> holders \<Rightarrow> bool" where
  "acquires_write v v' \<longleftrightarrow> v = (0, False) \<and> v' = (0, True)"

definition posix_ok :: "('l \<Rightarrow> holders) \<Rightarrow> 'l pthreads \<Rightarrow> bool" where
  "posix_ok view lib \<longleftrightarrow>
     (\<forall>l rc l'. pthread_rwlock_rdlock lib l = Some (rc, l') \<longrightarrow>
        (if rc = 0 then acquires_read (view l) (view l') else view l' = view l))
   \<and> (\<forall>l rc l'. pthread_rwlock_tryrdlock lib l = (rc, l') \<longrightarrow>
        (if rc = 0 then acquires_read (view l) (view l') else view l' = view l))
   \<and> (\<forall>l rc l'. pthread_rwlock_wrlock lib l = Some (rc, l') \<longrightarrow>
        (if rc = 0 then acquires_write (view l) (view l') else view l' = view l))
   \<and> (\<forall>l rc l'. pthread_rwlock_trywrlock lib l = (rc, l') \<longrightarrow>
        (if rc = 0 then acquires_write (view l) (view l') else view l' = view l))
   \<and> (\<forall>l rc l' n. pthread_rwlock_unlock lib l = (rc, l') \<longrightarrow> view l = (Suc n, False) \<longrightarrow> rc = 0 \<and> view l' = (n, False))
   \<and> (\<forall>l rc l'. pthread_rwlock_unlock lib l = (rc, l') \<longrightarrow> view l = (0, True) \<longrightarrow> rc = 0 \<and> view l' = (0, False))"

definition boost_ok :: "('l \<Rightarrow> holders) \<Rightarrow> 'l shared_mutex \<Rightarrow> bool" where
  "boost_ok view lib \<longleftrightarrow>
     (\<forall>l l'. sm_lock_shared lib l = Some l' \<longrightarrow> acquires_read (view l) (view l'))
   \<and> (\<forall>l ok l'. sm_try_lock_shared lib l = (ok, l') \<longrightarrow>
        (if ok then acquires_read (view l) (view l') else view l' = view l))
   \<and> (\<forall>l l'. sm_lock lib l = Some l' \<longrightarrow> acquires_write (view l) (view l'))
   \<and> (\<forall>l ok l'. sm_try_lock lib l = (ok, l') \<longrightarrow>
        (if ok then acquires_write (view l) (view l') else view l' = view l))
   \<and> (\<forall>l n. view l = (Suc n, False) \<longrightarrow> view (sm_unlock_shared lib l) = (n, False))
   \<and> (\<forall>l. view l = (0, True) \<longrightarrow> view (sm_unlock lib l) = (0, False))"

fun build_ok :: "('l \<Rightarrow> holders) \<Rightarrow> 'l lock_build \<Rightarrow> bool" where
  "build_ok view (Linux_use_cpp11 lib) = posix_ok view lib"
| "build_ok view (Boost lib) = boost_ok view lib"

section \<open>Threads that use the lock\<close>

text \<open>
  Each operation of the class keeps the promise of its library: 0 is returned exactly when the lock
  was acquired or released.
\<close>

lemma lock_rc_0 [simp]: "lock_rc rc = 0 \<longleftrightarrow> rc = 0"
  by (simp add: lock_rc_def)

lemma boost_try:
  assumes "build_ok view (Boost lib)"
  shows "sm_try_lock_shared lib l = (ok, l') \<Longrightarrow> if ok then acquires_read (view l) (view l') else view l' = view l"
    and "sm_try_lock lib l = (ok, l') \<Longrightarrow> if ok then acquires_write (view l) (view l') else view l' = view l"
  using assms unfolding build_ok.simps boost_ok_def by blast+

lemma acquire_read_ok:
  assumes "build_ok view b" and "lock_read b l = Some (rc, l') \<or> try_lock_read b l = Some (rc, l')"
  shows "if rc = 0 then acquires_read (view l) (view l') else view l' = view l"
proof (cases b)
  case (Linux_use_cpp11 lib)
  then show ?thesis
    using assms by (auto simp: posix_ok_def apfst_def map_prod_def split: prod.splits)
next
  case (Boost lib)
  from assms(2) consider "rc = 0" "sm_lock_shared lib l = Some l'"
    | ok where "sm_try_lock_shared lib l = (ok, l')" "rc = (if ok then 0 else EPICSADS_ERROR)"
    by (auto simp: Boost apfst_def map_prod_def split: prod.splits)
  then show ?thesis
  proof cases
    case 1
    with assms(1) Boost show ?thesis by (simp add: boost_ok_def)
  next
    case (2 ok)
    from boost_try(1) [OF assms(1) [unfolded Boost] 2(1)] 2(2) show ?thesis by simp
  qed
qed

lemma acquire_write_ok:
  assumes "build_ok view b" and "lock_write b l = Some (rc, l') \<or> try_lock_write b l = Some (rc, l')"
  shows "if rc = 0 then acquires_write (view l) (view l') else view l' = view l"
proof (cases b)
  case (Linux_use_cpp11 lib)
  then show ?thesis
    using assms by (auto simp: posix_ok_def apfst_def map_prod_def split: prod.splits)
next
  case (Boost lib)
  from assms(2) consider "rc = 0" "sm_lock lib l = Some l'"
    | ok where "sm_try_lock lib l = (ok, l')" "rc = (if ok then 0 else EPICSADS_ERROR)"
    by (auto simp: Boost apfst_def map_prod_def split: prod.splits)
  then show ?thesis
  proof cases
    case 1
    with assms(1) Boost show ?thesis by (simp add: boost_ok_def)
  next
    case (2 ok)
    from boost_try(2) [OF assms(1) [unfolded Boost] 2(1)] 2(2) show ?thesis by simp
  qed
qed

lemma release_ok:
  assumes "build_ok view b"
  shows "unlock_read b l = Some (rc, l') \<Longrightarrow> view l = (Suc n, False) \<Longrightarrow> rc = 0 \<and> view l' = (n, False)"
    and "unlock_write b l = Some (rc, l') \<Longrightarrow> view l = (0, True) \<Longrightarrow> rc = 0 \<and> view l' = (0, False)"
  using assms
  by (cases b; auto simp: posix_ok_def boost_ok_def unlock_def apfst_def map_prod_def split: prod.splits)+

text \<open>
  The lock and the threads that hold it for reading and for writing, as the return codes told them.
  The threads follow the rules of the header: they do not acquire recursively and do not release a
  lock that they do not hold.
\<close>

record 'l locked =
  lk_lock :: 'l
  lk_readers :: "nat set"
  lk_writers :: "nat set"

definition idle :: "nat \<Rightarrow> 'l locked \<Rightarrow> bool" where
  "idle t s \<longleftrightarrow> t \<notin> lk_readers s \<and> t \<notin> lk_writers s"

inductive lock_step :: "'l lock_build \<Rightarrow> 'l locked \<Rightarrow> int \<Rightarrow> 'l locked \<Rightarrow> bool" for b where
  reads: "idle t s \<Longrightarrow> lock_read b (lk_lock s) = Some (rc, l') \<or> try_lock_read b (lk_lock s) = Some (rc, l') \<Longrightarrow>
    lock_step b s rc (s\<lparr>lk_lock := l', lk_readers := if rc = 0 then insert t (lk_readers s) else lk_readers s\<rparr>)"
| writes: "idle t s \<Longrightarrow> lock_write b (lk_lock s) = Some (rc, l') \<or> try_lock_write b (lk_lock s) = Some (rc, l') \<Longrightarrow>
    lock_step b s rc (s\<lparr>lk_lock := l', lk_writers := if rc = 0 then insert t (lk_writers s) else lk_writers s\<rparr>)"
| ends_read: "t \<in> lk_readers s \<Longrightarrow> unlock_read b (lk_lock s) = Some (rc, l') \<Longrightarrow>
    lock_step b s rc (s\<lparr>lk_lock := l', lk_readers := if rc = 0 then lk_readers s - {t} else lk_readers s\<rparr>)"
| ends_write: "t \<in> lk_writers s \<Longrightarrow> unlock_write b (lk_lock s) = Some (rc, l') \<Longrightarrow>
    lock_step b s rc (s\<lparr>lk_lock := l', lk_writers := if rc = 0 then lk_writers s - {t} else lk_writers s\<rparr>)"

definition lock_start :: "('l \<Rightarrow> holders) \<Rightarrow> 'l lock_build \<Rightarrow> 'l locked \<Rightarrow> bool" where
  "lock_start view b s \<longleftrightarrow> build_ok view b \<and> view (lk_lock s) = (0, False) \<and> lk_readers s = {} \<and> lk_writers s = {}"

definition lock_inv :: "('l \<Rightarrow> holders) \<Rightarrow> 'l lock_build \<Rightarrow> 'l locked \<Rightarrow> bool" where
  "lock_inv view b s \<longleftrightarrow> build_ok view b \<and> finite (lk_readers s)
     \<and> view (lk_lock s) = (card (lk_readers s), lk_writers s \<noteq> {})
     \<and> (lk_writers s = {} \<or> lk_readers s = {} \<and> (\<exists>t. lk_writers s = {t}))"

lemma lock_inv_step:
  assumes "lock_inv view b s" and "lock_step b s rc s'"
  shows "lock_inv view b s'"
proof -
  have b: "build_ok view b" and fin: "finite (lk_readers s)"
    and v: "view (lk_lock s) = (card (lk_readers s), lk_writers s \<noteq> {})"
    and ex: "lk_writers s = {} \<or> lk_readers s = {} \<and> (\<exists>t. lk_writers s = {t})"
    using assms(1) by (simp_all add: lock_inv_def)
  from assms(2) show ?thesis
  proof cases
    case (reads t l')
    from acquire_read_ok [OF b reads(3)] reads(1,2) b fin v ex show ?thesis
      by (auto simp: lock_inv_def acquires_read_def idle_def split: if_splits)
  next
    case (writes t l')
    from acquire_write_ok [OF b writes(3)] writes(1,2) b fin v ex show ?thesis
      by (auto simp: lock_inv_def acquires_write_def idle_def split: if_splits)
  next
    case (ends_read t l')
    obtain n where n: "card (lk_readers s) = Suc n" using ends_read(2) fin by (cases "card (lk_readers s)") auto
    have w: "lk_writers s = {}" using ex ends_read(2) by auto
    have "view (lk_lock s) = (Suc n, False)" using v n w by simp
    from release_ok(1) [OF b ends_read(3) this] n w fin ends_read(1,2) b show ?thesis
      by (simp add: lock_inv_def)
  next
    case (ends_write t l')
    then have w: "lk_writers s = {t}" "lk_readers s = {}" using ex by auto
    have "view (lk_lock s) = (0, True)" using v w by simp
    from release_ok(2) [OF b ends_write(3) this] w ends_write(1) b show ?thesis
      by (simp add: lock_inv_def)
  qed
qed

interpretation lk: machine "lock_start view b" "lock_step b" "lock_inv view b" for view b
proof
  show "lock_start view b s \<Longrightarrow> lock_inv view b s" for s by (simp add: lock_start_def lock_inv_def)
  show "lock_inv view b s \<Longrightarrow> lock_step b s rc s' \<Longrightarrow> lock_inv view b s'" for s rc s' by (rule lock_inv_step)
qed

text \<open>
  C40. The lock excludes: over a library that keeps its documented promises, in both builds, and
  whatever sequence of acquiring, trying and releasing the threads go through, the threads that the
  return codes told that they hold the lock are either readers only or a single writer, and the
  lock has exactly these holders; releasing by one of them succeeds.
\<close>

theorem rwlock_excludes:
  assumes "reach (lock_start view b) (lock_step b) s"
  shows "(lk_writers s = {} \<or> lk_readers s = {} \<and> (\<exists>t. lk_writers s = {t}))
    \<and> view (lk_lock s) = (card (lk_readers s), lk_writers s \<noteq> {})
    \<and> (\<forall>t \<in> lk_readers s. \<exists>l'. unlock_read b (lk_lock s) = Some (0, l'))
    \<and> (\<forall>t \<in> lk_writers s. \<exists>l'. unlock_write b (lk_lock s) = Some (0, l'))"
proof -
  have i: "build_ok view b" "finite (lk_readers s)" "view (lk_lock s) = (card (lk_readers s), lk_writers s \<noteq> {})"
    "lk_writers s = {} \<or> lk_readers s = {} \<and> (\<exists>t. lk_writers s = {t})"
    using lk.reach_inv [OF assms] by (simp_all add: lock_inv_def)
  have "\<exists>p. unlock_read b (lk_lock s) = Some p" "\<exists>p. unlock_write b (lk_lock s) = Some p" by (cases b; simp)+
  then obtain rc l1 rc' l2 where u: "unlock_read b (lk_lock s) = Some (rc, l1)" "unlock_write b (lk_lock s) = Some (rc', l2)"
    by (metis surj_pair)
  have "rc = 0" if t: "t \<in> lk_readers s" for t
  proof -
    obtain n where "card (lk_readers s) = Suc n" using t i(2) by (cases "card (lk_readers s)") auto
    with i(3,4) t have "view (lk_lock s) = (Suc n, False)" by auto
    from release_ok(1) [OF i(1) u(1) this] show ?thesis by simp
  qed
  moreover have "rc' = 0" if "t \<in> lk_writers s" for t
  proof -
    have "view (lk_lock s) = (0, True)" using i(3,4) that by auto
    from release_ok(2) [OF i(1) u(2) this] show ?thesis by simp
  qed
  ultimately show ?thesis using i u by auto
qed

text \<open>For concrete instances: locks that are their own view.\<close>

definition example_mutex :: "holders shared_mutex" where
  "example_mutex = \<lparr> sm_lock_shared = (\<lambda>(r, w). if w then None else Some (r + 1, False)),
     sm_try_lock_shared = (\<lambda>(r, w). if w then (False, (r, w)) else (True, (r + 1, False))),
     sm_unlock_shared = (\<lambda>(r, w). (r - 1, w)),
     sm_lock = (\<lambda>(r, w). if w \<or> 0 < r then None else Some (0, True)),
     sm_try_lock = (\<lambda>(r, w). if w \<or> 0 < r then (False, (r, w)) else (True, (0, True))),
     sm_unlock = (\<lambda>(r, w). (r, False)) \<rparr>"

lemma example_mutex_ok: "build_ok (\<lambda>l. l) (Boost example_mutex)"
  by (auto simp: boost_ok_def example_mutex_def acquires_read_def acquires_write_def split: if_splits)

theorem rwlock_excludes_witness:
  "\<exists>s. reach (lock_start (\<lambda>l. l) (Boost example_mutex)) (lock_step (Boost example_mutex)) s
     \<and> lk_readers s = {1, 2} \<and> lk_writers s = {} \<and> lk_lock s = (2, False)"
proof -
  let ?b = "Boost example_mutex" and ?s0 = "\<lparr>lk_lock = (0, False), lk_readers = {}, lk_writers = {}\<rparr> :: holders locked"
  let ?s1 = "?s0\<lparr>lk_lock := (1, False), lk_readers := {1}\<rparr>" and ?s2 = "?s0\<lparr>lk_lock := (2, False), lk_readers := {1, 2}\<rparr>"
  have r0: "reach (lock_start (\<lambda>l. l) ?b) (lock_step ?b) ?s0"
    using example_mutex_ok by (intro reach_init) (simp add: lock_start_def)
  have "lock_step ?b ?s0 0 ?s1"
    using reads [of 1 ?s0 ?b 0 "(1, False)"] by (simp add: idle_def example_mutex_def)
  with r0 have r1: "reach (lock_start (\<lambda>l. l) ?b) (lock_step ?b) ?s1" by (rule reach_step)
  have "lock_step ?b ?s1 0 ?s2"
    using reads [of 2 ?s1 ?b 0 "(2, False)"] by (simp add: idle_def example_mutex_def insert_commute)
  with r1 have r2: "reach (lock_start (\<lambda>l. l) ?b) (lock_step ?b) ?s2" by (rule reach_step)
  from conjunct1 [OF conjunct2 [OF rwlock_excludes [OF r2]]] r2 show ?thesis by (intro exI [of _ ?s2]) simp
qed

section \<open>The messages of the constructor\<close>

lemma throw_literal_eq:
  "0 \<le> rc \<Longrightarrow> throw_literal s rc
    = Inl (if int (length s) < rc then Undefined_message else Runtime_error (drop (nat rc) s))"
  by (simp add: throw_literal_def literal_plus_def)

text \<open>
  What the constructor throws is never the message it means to throw: when one of the three
  functions of the POSIX lock fails with a positive number \<open>rc\<close>, the exception's text lacks the first
  \<open>rc\<close> characters of the literal, and the number is not in it; for a number beyond the end of the
  literal the behaviour is undefined. Without a failure the lock is what the library made of it.
\<close>

theorem rwlock_constructor:
  assumes "pthread_rwlockattr_init lib l = (rc1, l1)" and "pthread_rwlockattr_setkind_np lib l1 flags = (rc2, l2)"
    and "pthread_rwlock_init lib l2 = (rc3, l3)"
    and "msg = (if rc1 \<noteq> 0 then attr_init_message else if rc2 \<noteq> 0 then setkind_message else init_message)"
    and "rc = (if rc1 \<noteq> 0 then rc1 else if rc2 \<noteq> 0 then rc2 else rc3)" and "0 \<le> rc"
  shows "RWLock (Linux_use_cpp11 lib) flags l =
    (if rc = 0 then Inr l3
     else if int (length msg) < rc then Inl Undefined_message
     else Inl (Runtime_error (drop (nat rc) msg)))"
  using assms by (cases "rc1 = 0"; cases "rc2 = 0") (simp_all add: throw_literal_eq)

text \<open>A failure of \<open>pthread_rwlock_init\<close> with \<open>EAGAIN\<close>, which is 11 on Linux.\<close>

definition failing_pthreads :: "nat pthreads" where
  "failing_pthreads = \<lparr> pthread_rwlockattr_init = Pair 0, pthread_rwlockattr_setkind_np = (\<lambda>l k. (0, l)),
      pthread_rwlock_init = Pair 11, pthread_rwlock_rdlock = (\<lambda>l. None), pthread_rwlock_tryrdlock = Pair 16,
      pthread_rwlock_wrlock = (\<lambda>l. None), pthread_rwlock_trywrlock = Pair 16, pthread_rwlock_unlock = Pair 0,
      pthread_rwlock_destroy = Pair 0, pthread_rwlockattr_destroy = Pair 0 \<rparr>"

theorem rwlock_constructor_witness:
  "RWLock (Linux_use_cpp11 failing_pthreads) 2 0 = Inl (Runtime_error ''nitialize RW lock; pthread_rwlock_init: '')"
proof -
  have f: "pthread_rwlockattr_init failing_pthreads 0 = (0, 0)" "pthread_rwlockattr_setkind_np failing_pthreads 0 2 = (0, 0)"
    "pthread_rwlock_init failing_pthreads 0 = (11, 0)" by (simp_all add: failing_pthreads_def)
  show ?thesis using rwlock_constructor [OF f refl refl] by (simp add: init_message_def)
qed

end
