(* ===== verification/Buffer_Object.thy ===== *)
theory Buffer_Object
  imports Sum_Read_Buffer RW_Lock
begin

text \<open>
  The object of class \<open>SumReadBuffer\<close> as it is in memory: with the pointers to the two blocks that it
  allocates, and with its read-write lock. The other theories look at a buffer as a record that contains
  the bytes; here the blocks are in a store, from which they can be missing, and the operations
  allocate, free and lock. \<open>None\<close> as a result is undefined behaviour (a block that does not exist is
  used or freed, or a read or write is out of bounds) or a lock that is never granted.
\<close>

section \<open>Blocks\<close>

text \<open>Blocks by address, none of them 0; \<open>st_next\<close> is the address of the next one.\<close>

record block_store =
  st_blocks :: "nat \<Rightarrow> byte list option"
  st_next :: nat

definition store_ok :: "block_store \<Rightarrow> bool" where
  "store_ok st \<longleftrightarrow> 0 < st_next st \<and> (\<forall>p. st_blocks st p \<noteq> None \<longrightarrow> 0 < p \<and> p < st_next st)"

text \<open>\<open>calloc\<close>: the null pointer if the memory is not available (\<open>ok\<close>).\<close>

definition calloc :: "bool \<Rightarrow> nat \<Rightarrow> block_store \<Rightarrow> nat \<times> block_store" where
  "calloc ok n st =
     (if ok then (st_next st, st\<lparr>st_blocks := (st_blocks st)(st_next st \<mapsto> replicate n 0), st_next := st_next st + 1\<rparr>)
      else (0, st))"

definition free_block :: "nat \<Rightarrow> block_store \<Rightarrow> block_store option" where
  "free_block p st =
     (if p = 0 then Some st
      else if st_blocks st p = None then None
      else Some (st\<lparr>st_blocks := (st_blocks st)(p := None)\<rparr>))"

section \<open>The object\<close>

record 'l buffer_object =
  ob_variables :: "nat list"
  ob_max_nvariables :: nat
  ob_soft_limit :: nat
  ob_next_result_offset :: nat
  ob_next_data_offset :: nat
  ob_buffer_size :: nat
  ob_buffer :: nat                   \<comment> \<open>a pointer, 0 is null\<close>
  ob_initialized :: bool
  ob_prev_data :: nat                \<comment> \<open>a pointer, 0 is null\<close>
  ob_state :: buffer_state
  ob_rwlock :: 'l

text \<open>What the other theories see of it.\<close>

definition pointee :: "block_store \<Rightarrow> nat \<Rightarrow> byte list option" where
  "pointee st p = (if p = 0 then None else st_blocks st p)"

definition buffer_view :: "block_store \<Rightarrow> 'l buffer_object \<Rightarrow> sum_read_buffer" where
  "buffer_view st o1 =
     \<lparr> buf_variables = ob_variables o1, buf_max_nvariables = ob_max_nvariables o1, buf_soft_limit = ob_soft_limit o1,
       buf_next_result_offset = ob_next_result_offset o1, buf_next_data_offset = ob_next_data_offset o1,
       buf_buffer_size = ob_buffer_size o1, buf_buffer = pointee st (ob_buffer o1),
       buf_initialized = ob_initialized o1, buf_prev_data = pointee st (ob_prev_data o1), buf_state = ob_state o1 \<rparr>"

lemma buffer_view_simps [simp]:
  "buf_variables (buffer_view st o1) = ob_variables o1"
  "buf_next_result_offset (buffer_view st o1) = ob_next_result_offset o1"
  "buf_next_data_offset (buffer_view st o1) = ob_next_data_offset o1"
  "buf_buffer_size (buffer_view st o1) = ob_buffer_size o1"
  "buf_initialized (buffer_view st o1) = ob_initialized o1"
  "buf_buffer (buffer_view st o1) = pointee st (ob_buffer o1)"
  "buf_prev_data (buffer_view st o1) = pointee st (ob_prev_data o1)"
  "get_num_variables (buffer_view st o1) = u32 (length (ob_variables o1))"
  "start_of_data_offset (buffer_view st o1) = u64 (u32 (length (ob_variables o1)) * result_size)"
  by (simp_all add: buffer_view_def get_num_variables_def start_of_data_offset_def results_size_def)

section \<open>The operations\<close>

text \<open>The constructor: first the members, of which the lock can throw, then the check.\<close>

fun prefer_writer :: "'l lock_build \<Rightarrow> int" where
  "prefer_writer (Linux_use_cpp11 lib) = 2"      \<comment> \<open>\<open>PTHREAD_RWLOCK_PREFER_WRITER_NONRECURSIVE_NP\<close> of glibc\<close>
| "prefer_writer (Boost lib) = 1"

definition buffer_object_new ::
  "'l lock_build \<Rightarrow> 'l \<Rightarrow> nat \<Rightarrow> (lock_exn + exn) + 'l buffer_object" where
  "buffer_object_new b raw max_nvariables =
     (case RWLock b (prefer_writer b) raw of
        Inl e \<Rightarrow> Inl (Inl e)
      | Inr l \<Rightarrow>
          if max_nvariables = 0 then Inl (Inr (Invalid_argument ''max_nvariables must be larger that zero''))
          else Inr \<lparr> ob_variables = [], ob_max_nvariables = max_nvariables, ob_soft_limit = 1000000,
                     ob_next_result_offset = 0, ob_next_data_offset = 0, ob_buffer_size = 0, ob_buffer = 0,
                     ob_initialized = False, ob_prev_data = 0, ob_state = Buf_Invalid, ob_rwlock = l \<rparr>)"

text \<open>
  The constructor with a limit delegates to the first one. When it throws, the object exists already,
  so its destructor runs.
\<close>

definition buffer_object_new_limit ::
  "'l lock_build \<Rightarrow> 'l \<Rightarrow> nat \<Rightarrow> nat \<Rightarrow> (lock_exn + exn) + 'l buffer_object" where
  "buffer_object_new_limit b raw max_nvariables data_size_soft_limit =
     (case buffer_object_new b raw max_nvariables of
        Inl e \<Rightarrow> Inl e
      | Inr o1 \<Rightarrow>
          if data_size_soft_limit = 0
          then Inl (Inr (Invalid_argument ''data_size_soft_limit must be larger that zero''))
          else Inr (o1\<lparr>ob_soft_limit := data_size_soft_limit\<rparr>))"

text \<open>\<open>mem\<close> says which of the two allocations succeeds.\<close>

definition object_initialize_buffer ::
  "(alloc_site \<Rightarrow> bool) \<Rightarrow> nat \<Rightarrow> 'l buffer_object \<Rightarrow> block_store
     \<Rightarrow> (int \<times> 'l buffer_object \<times> block_store) option" where
  "object_initialize_buffer mem this o1 st =
     (if u32 (length (ob_variables o1)) = 0 then Some (EPICSADS_NO_DATA, o1, st)
      else if ob_initialized o1 then Some (EPICSADS_INV_CALL, o1, st)
      else
        (case calloc (mem (Calloc_buffer this)) (ob_buffer_size o1) st of (buffer, st1) \<Rightarrow>
         let o2 = o1\<lparr>ob_buffer := buffer\<rparr> in
         if buffer = 0 then Some (EPICSADS_ERROR, o2, st1)
         else
           (case calloc (mem (Calloc_prev this)) (ob_buffer_size o1) st1 of (prev, st2) \<Rightarrow>
            let o3 = o2\<lparr>ob_prev_data := prev\<rparr> in
            if prev = 0
            then map_option (\<lambda>st3. (EPICSADS_ERROR, o3\<lparr>ob_buffer := 0\<rparr>, st3)) (free_block buffer st2)
            else Some (0, o3\<lparr>ob_initialized := True\<rparr>, st2))))"

text \<open>The lock is taken and released around the copy; what the lock returns is not looked at.\<close>

definition object_save_buffer ::
  "'l lock_build \<Rightarrow> 'l buffer_object \<Rightarrow> block_store \<Rightarrow> ('l buffer_object \<times> block_store) option" where
  "object_save_buffer b o1 st =
     (if ob_prev_data o1 = 0 then Some (o1, st)
      else
        Option.bind (lock_write b (ob_rwlock o1)) (\<lambda>(_, l1).
        Option.bind (pointee st (ob_buffer o1)) (\<lambda>buffer.
        Option.bind (pointee st (ob_prev_data o1)) (\<lambda>prev.
        Option.bind (mem_read buffer 0 (ob_buffer_size o1)) (\<lambda>d.
        Option.bind (mem_write prev d) (\<lambda>prev'.
        Option.bind (unlock_write b l1) (\<lambda>(_, l2).
        Some (o1\<lparr>ob_rwlock := l2\<rparr>, st\<lparr>st_blocks := (st_blocks st)(ob_prev_data o1 \<mapsto> prev')\<rparr>))))))))"

definition object_read_data ::
  "'l lock_build \<Rightarrow> nat \<Rightarrow> nat \<Rightarrow> nat \<Rightarrow> nat option \<Rightarrow> byte list option \<Rightarrow> 'l buffer_object \<Rightarrow> block_store
     \<Rightarrow> ((int \<times> nat option \<times> byte list option) \<times> 'l buffer_object) option" where
  "object_read_data b offset_result offset_data nbytes result data o1 st =
     (if ob_buffer o1 = 0 then Some ((EPICSADS_NOT_INITIALIZED, result, data), o1)
      else
        (case data of
           None \<Rightarrow> Some ((EPICSADS_INV_PARAM, result, data), o1)
         | Some dst \<Rightarrow>
             if result = None then Some ((EPICSADS_INV_PARAM, result, data), o1)
             else if u16 offset_result \<ge> ob_next_result_offset o1
               then Some ((EPICSADS_OUT_OF_RANGE, result, data), o1)
             else if u64 (offset_data + nbytes) > ob_next_data_offset o1
               then Some ((EPICSADS_OUT_OF_RANGE, result, data), o1)
             else
               Option.bind (lock_read b (ob_rwlock o1)) (\<lambda>(_, l1).
               Option.bind (pointee st (ob_buffer o1)) (\<lambda>buffer.
               Option.bind (mem_read buffer (4 * u16 offset_result) 4) (\<lambda>rc.
               Option.bind (mem_read buffer (u64 (u32 (length (ob_variables o1)) * result_size) + offset_data) nbytes) (\<lambda>d.
               Option.bind (mem_write dst d) (\<lambda>dst'.
               Option.bind (unlock_read b l1) (\<lambda>(_, l2).
               Some ((0, Some (le_decode rc), Some dst'), o1\<lparr>ob_rwlock := l2\<rparr>)))))))))"

text \<open>The destructor, and then that of the lock.\<close>

definition object_destroy ::
  "'l lock_build \<Rightarrow> 'l buffer_object \<Rightarrow> block_store \<Rightarrow> ('l \<times> block_store) option" where
  "object_destroy b o1 st =
     Option.bind (if ob_prev_data o1 \<noteq> 0 then free_block (ob_prev_data o1) st else Some st) (\<lambda>st1.
     map_option (\<lambda>st2. (RWLock_destroy b (ob_rwlock o1), st2))
       (if ob_buffer o1 \<noteq> 0 then free_block (ob_buffer o1) st1 else Some st1))"

text \<open>
  \<open>add_variable\<close> touches neither the blocks nor the lock: it is the operation on the view, of which
  the members that it can change are stored back.
\<close>

definition object_add_variable ::
  "(alloc_site \<Rightarrow> bool) \<Rightarrow> nat \<Rightarrow> nat \<Rightarrow> ads_variable \<Rightarrow> block_store \<Rightarrow> 'l buffer_object
     \<Rightarrow> int \<times> ads_variable \<times> 'l buffer_object" where
  "object_add_variable mem this vid v st o1 =
     (case buf_add_variable mem this vid v (buffer_view st o1) of (rc, v', b) \<Rightarrow>
        (rc, v', o1\<lparr>ob_variables := buf_variables b, ob_next_result_offset := buf_next_result_offset b,
                    ob_next_data_offset := buf_next_data_offset b, ob_buffer_size := buf_buffer_size b\<rparr>))"

text \<open>The ADS library stores \<open>n\<close> bytes of an answer through the pointer that \<open>get_buffer()\<close> returns.\<close>

definition get_buffer :: "'l buffer_object \<Rightarrow> nat" where
  "get_buffer o1 = ob_buffer o1"

text \<open>The data behind the return codes: the block and the offset in it.\<close>

definition get_buffer_data_section :: "'l buffer_object \<Rightarrow> nat \<times> nat" where
  "get_buffer_data_section o1 = (ob_buffer o1, u64 (u32 (length (ob_variables o1)) * result_size))"

definition store_through :: "nat \<Rightarrow> nat \<Rightarrow> byte list \<Rightarrow> block_store \<Rightarrow> block_store option" where
  "store_through p n resp st =
     map_option (\<lambda>bs. st\<lparr>st_blocks := (st_blocks st)(p \<mapsto> fill n resp bs)\<rparr>) (pointee st p)"

section \<open>Calls\<close>

text \<open>What a client can call between the constructor and the destructor, and what it gets back.\<close>

datatype object_call =
    Call_add "alloc_site \<Rightarrow> bool" nat ads_variable
  | Call_initialize "alloc_site \<Rightarrow> bool"
  | Call_save
  | Call_read nat nat nat "nat option" "byte list option"
  | Call_response nat "byte list"

datatype object_result =
    Res_add int ads_variable | Res_rc int | Res_read "int \<times> nat option \<times> byte list option" | Res_unit

fun call_object ::
  "'l lock_build \<Rightarrow> nat \<Rightarrow> object_call \<Rightarrow> 'l buffer_object \<times> block_store
     \<Rightarrow> (object_result \<times> 'l buffer_object \<times> block_store) option" where
  "call_object b this (Call_add mem vid v) (o1, st) =
     (case object_add_variable mem this vid v st o1 of (rc, v', o2) \<Rightarrow> Some (Res_add rc v', o2, st))"
| "call_object b this (Call_initialize mem) (o1, st) = map_option (apfst Res_rc) (object_initialize_buffer mem this o1 st)"
| "call_object b this Call_save (o1, st) = map_option (Pair Res_unit) (object_save_buffer b o1 st)"
| "call_object b this (Call_read i off n r dst) (o1, st) =
     map_option (\<lambda>(res, o2). (Res_read res, o2, st)) (object_read_data b i off n r dst o1 st)"
| "call_object b this (Call_response n resp) (o1, st) =
     map_option (\<lambda>st'. (Res_unit, o1, st')) (store_through (get_buffer o1) n resp st)"

text \<open>The same calls for the record of the other theories.\<close>

fun call_record :: "nat \<Rightarrow> object_call \<Rightarrow> sum_read_buffer \<Rightarrow> (object_result \<times> sum_read_buffer) option" where
  "call_record this (Call_add mem vid v) v1 =
     (case buf_add_variable mem this vid v v1 of (rc, v', v2) \<Rightarrow> Some (Res_add rc v', v2))"
| "call_record this (Call_initialize mem) v1 = Some (apfst Res_rc (initialize_buffer mem this v1))"
| "call_record this Call_save v1 = map_option (Pair Res_unit) (save_buffer v1)"
| "call_record this (Call_read i off n r dst) v1 = map_option (\<lambda>res. (Res_read res, v1)) (read_data i off n r dst v1)"
| "call_record this (Call_response n resp) v1 = Some (Res_unit, store_response n resp v1)"

text \<open>
  The calls that clients make: a variable has the size \<open>sz\<close> that it had before, the memory for the
  data is as large as the number of bytes that are asked for, and an answer is stored only into an
  initialised buffer.
\<close>

fun call_fits :: "(nat \<Rightarrow> nat) \<Rightarrow> 'l buffer_object \<Rightarrow> object_call \<Rightarrow> bool" where
  "call_fits sz o1 (Call_add mem vid v) \<longleftrightarrow> sz vid = var_size v"
| "call_fits sz o1 (Call_read i off n r dst) \<longleftrightarrow> off + n < 2 ^ 64 \<and> n \<le> (case dst of None \<Rightarrow> n | Some d \<Rightarrow> length d)"
| "call_fits sz o1 (Call_response n resp) \<longleftrightarrow> ob_initialized o1"
| "call_fits sz o1 _ \<longleftrightarrow> True"

end
