(* ===== verification/Buffer_Object_Props.thy ===== *)
theory Buffer_Object_Props
  imports Buffer_Object Buffer_Props Transitions
begin

text \<open>
  The object with its blocks and its lock does what the record \<open>sum_read_buffer\<close> says, call by call;
  no call is undefined, and the destructor frees what was allocated, once.
\<close>

section \<open>The invariant\<close>

text \<open>A lock that nobody holds is granted, at once and without an error.\<close>

definition granted_when_free :: "('l \<Rightarrow> holders) \<Rightarrow> 'l lock_build \<Rightarrow> bool" where
  "granted_when_free view b \<longleftrightarrow>
     (\<forall>l. view l = (0, False) \<longrightarrow> (\<exists>l'. lock_read b l = Some (0, l')) \<and> (\<exists>l'. lock_write b l = Some (0, l')))"

text \<open>
  The pointers of the object are null or lead to two blocks that did not exist before the object; all
  other blocks are as they were in \<open>st0\<close>, and the lock is free between two calls.
\<close>

definition owned :: "'l buffer_object \<Rightarrow> nat set" where
  "owned o1 = {p \<in> {ob_buffer o1, ob_prev_data o1}. p \<noteq> 0}"

definition blocks_ok :: "block_store \<Rightarrow> 'l buffer_object \<Rightarrow> block_store \<Rightarrow> bool" where
  "blocks_ok st0 o1 st \<longleftrightarrow> store_ok st
     \<and> (\<forall>p. p \<notin> owned o1 \<longrightarrow> st_blocks st p = st_blocks st0 p)
     \<and> (\<forall>p \<in> owned o1. st_blocks st p \<noteq> None \<and> st_blocks st0 p = None)
     \<and> (ob_buffer o1 = ob_prev_data o1 \<longrightarrow> ob_buffer o1 = 0)"

definition object_inv ::
  "('l \<Rightarrow> holders) \<Rightarrow> 'l lock_build \<Rightarrow> (nat \<Rightarrow> nat) \<Rightarrow> block_store \<Rightarrow> 'l buffer_object \<times> block_store \<Rightarrow> bool" where
  "object_inv view b sz st0 s \<longleftrightarrow> (case s of (o1, st) \<Rightarrow>
     build_ok view b \<and> granted_when_free view b \<and> view (ob_rwlock o1) = (0, False)
     \<and> blocks_ok st0 o1 st \<and> buf_inv sz (buffer_view st o1))"

lemma object_invD:
  assumes "object_inv view b sz st0 (o1, st)"
  shows "build_ok view b" and "granted_when_free view b" and "view (ob_rwlock o1) = (0, False)"
    and "blocks_ok st0 o1 st" and "buf_inv sz (buffer_view st o1)"
  using assms by (simp_all add: object_inv_def)

lemma object_pointers:
  assumes "blocks_ok st0 o1 st"
  shows "pointee st (ob_buffer o1) = None \<longleftrightarrow> ob_buffer o1 = 0"
    and "pointee st (ob_prev_data o1) = None \<longleftrightarrow> ob_prev_data o1 = 0"
    and "ob_buffer o1 \<noteq> 0 \<Longrightarrow> ob_prev_data o1 \<noteq> ob_buffer o1"
  using assms by (auto simp: blocks_ok_def owned_def pointee_def)

lemma owned_none: "ob_buffer o1 = 0 \<Longrightarrow> ob_prev_data o1 = 0 \<Longrightarrow> owned o1 = {}"
  by (auto simp: owned_def)

text \<open>All three say the same: the buffer is initialised, and each of the blocks exists.\<close>

lemma object_initialized:
  assumes "object_inv view b sz st0 (o1, st)"
  shows "ob_initialized o1 \<longleftrightarrow> ob_buffer o1 \<noteq> 0" and "ob_prev_data o1 = 0 \<longleftrightarrow> ob_buffer o1 = 0"
  using object_invD(5) [OF assms] object_pointers [OF object_invD(4) [OF assms]] by (simp_all add: buf_inv_def)

text \<open>The data section is the rest of the block behind the return codes.\<close>

lemma data_section:
  assumes "object_inv view b sz st0 (o1, st)"
  shows "get_buffer_data_section o1 = (get_buffer o1, start_of_data_offset (buffer_view st o1))"
    and "snd (get_buffer_data_section o1) + ob_next_data_offset o1 = ob_buffer_size o1"
  using object_invD(5) [OF assms] buf_inv_results [OF object_invD(5) [OF assms]]
  by (simp_all add: get_buffer_data_section_def get_buffer_def results_size_def result_size_def buf_inv_def)

lemma pointee_update [simp]:
  "pointee (st\<lparr>st_blocks := (st_blocks st)(p := x)\<rparr>) q = (if q = 0 then None else if q = p then x else pointee st q)"
  by (simp add: pointee_def)

text \<open>Blocks may get other contents.\<close>

lemma blocks_ok_store:
  assumes "blocks_ok st0 o1 st" and "p \<in> owned o1" and "ob_buffer o2 = ob_buffer o1" and "ob_prev_data o2 = ob_prev_data o1"
  shows "blocks_ok st0 o2 (st\<lparr>st_blocks := (st_blocks st)(p \<mapsto> bs)\<rparr>)"
  using assms by (auto simp: blocks_ok_def store_ok_def owned_def)

lemma blocks_ok_frame:
  "blocks_ok st0 o1 st \<Longrightarrow> ob_buffer o2 = ob_buffer o1 \<Longrightarrow> ob_prev_data o2 = ob_prev_data o1 \<Longrightarrow> blocks_ok st0 o2 st"
  by (simp add: blocks_ok_def owned_def)

text \<open>A pair of lock operations around a critical section, for an object whose lock is free.\<close>

lemma free_lock_pair:
  assumes "build_ok view b" and "granted_when_free view b" and "view l = (0, False)"
  obtains l1 l2 where "lock_read b l = Some (0, l1)" "unlock_read b l1 = Some (0, l2)" "view l2 = (0, False)"
    and "view l1 = (1, False)"
proof -
  obtain l1 where l1: "lock_read b l = Some (0, l1)" using assms(2,3) by (auto simp: granted_when_free_def)
  then have v: "view l1 = (Suc 0, False)" using acquire_read_ok [OF assms(1), of l 0 l1] assms(3) by (simp add: acquires_read_def)
  obtain rc l2 where l2: "unlock_read b l1 = Some (rc, l2)" by (cases b; cases "unlock_read b l1") auto
  from that [OF l1] release_ok(1) [OF assms(1) l2 v] l2 v show thesis by simp
qed

lemma free_lock_pair_write:
  assumes "build_ok view b" and "granted_when_free view b" and "view l = (0, False)"
  obtains l1 l2 where "lock_write b l = Some (0, l1)" "unlock_write b l1 = Some (0, l2)" "view l2 = (0, False)"
proof -
  obtain l1 where l1: "lock_write b l = Some (0, l1)" using assms(2,3) by (auto simp: granted_when_free_def)
  then have v: "view l1 = (0, True)" using acquire_write_ok [OF assms(1), of l 0 l1] by (simp add: acquires_write_def)
  obtain rc l2 where l2: "unlock_write b l1 = Some (rc, l2)" by (cases b; cases "unlock_write b l1") auto
  from that [OF l1] release_ok(2) [OF assms(1) l2 v] l2 show thesis by simp
qed

section \<open>Every call\<close>

text \<open>What each of the calls does: it is defined, agrees with the record, and keeps the invariant.\<close>

definition call_agrees ::
  "('l \<Rightarrow> holders) \<Rightarrow> 'l lock_build \<Rightarrow> (nat \<Rightarrow> nat) \<Rightarrow> block_store \<Rightarrow> nat \<Rightarrow> object_call
     \<Rightarrow> 'l buffer_object \<times> block_store \<Rightarrow> bool" where
  "call_agrees view b sz st0 this c s \<longleftrightarrow>
     (\<exists>r o2 st2. call_object b this c s = Some (r, o2, st2)
        \<and> call_record this c (buffer_view (snd s) (fst s)) = Some (r, buffer_view st2 o2)
        \<and> object_inv view b sz st0 (o2, st2))"

lemma call_agreesI:
  assumes "object_inv view b sz st0 (o1, st)" and "call_object b this c (o1, st) = Some (r, o2, st2)"
    and "call_record this c (buffer_view st o1) = Some (r, buffer_view st2 o2)"
    and "view (ob_rwlock o2) = (0, False)" and "blocks_ok st0 o2 st2" and "buf_inv sz (buffer_view st2 o2)"
  shows "call_agrees view b sz st0 this c (o1, st)"
  using assms by (simp add: call_agrees_def object_inv_def)

lemma add_agrees:
  assumes "object_inv view b sz st0 (o1, st)" and "sz vid = var_size v"
  shows "call_agrees view b sz st0 this (Call_add mem vid v) (o1, st)"
proof -
  note i = object_invD [OF assms(1)]
  obtain rc v' b' where add: "buf_add_variable mem this vid v (buffer_view st o1) = (rc, v', b')"
    by (cases "buf_add_variable mem this vid v (buffer_view st o1)") auto
  let ?o = "o1\<lparr>ob_variables := buf_variables b', ob_next_result_offset := buf_next_result_offset b',
    ob_next_data_offset := buf_next_data_offset b', ob_buffer_size := buf_buffer_size b'\<rparr>"
  have view: "buffer_view st ?o = b'"
    using add by (auto simp: buf_add_variable_def buffer_view_def Let_def split: if_splits)
  have "buf_inv sz b'"
    using buf_add_ok(2) [OF i(5) assms(2)] buf_add_refused [OF add] add i(5) by (cases "rc = 0") auto
  then show ?thesis
    using i add view blocks_ok_frame [OF i(4), of ?o]
    by (intro call_agreesI [OF assms(1), where r = "Res_add rc v'" and ?o2.0 = ?o and ?st2.0 = st])
      (simp_all add: object_add_variable_def)
qed

text \<open>
  Reading takes the lock only after all its checks; the codes with which the lock answers have no
  influence on it.
\<close>

lemma object_read_data_eq:
  assumes "pointee st (ob_buffer o1) = None \<longleftrightarrow> ob_buffer o1 = 0"
    and "lock_read b (ob_rwlock o1) = Some (rc, l1)" and "unlock_read b l1 = Some (rc', l2)"
  shows "object_read_data b i off n r dst o1 st =
    map_option (\<lambda>res. (res, if fst res = 0 then o1\<lparr>ob_rwlock := l2\<rparr> else o1)) (read_data i off n r dst (buffer_view st o1))"
proof (cases "ob_buffer o1 = 0 \<or> r = None \<or> dst = None \<or> ob_next_result_offset o1 \<le> u16 i \<or> ob_next_data_offset o1 < u64 (off + n)")
  case True
  with assms(1) show ?thesis
    by (auto simp: object_read_data_def read_data_def split: option.split)
next
  case False
  then obtain bs r1 d where "pointee st (ob_buffer o1) = Some bs" "r = Some r1" "dst = Some d"
    using assms(1) by (cases "pointee st (ob_buffer o1)") auto
  with False assms(2,3) show ?thesis
    by (simp add: object_read_data_def read_data_def map_option_bind comp_def bind_map_option)
qed

lemma read_agrees:
  assumes inv: "object_inv view b sz st0 (o1, st)" and fits: "call_fits sz o1 (Call_read i off n r dst)"
  shows "call_agrees view b sz st0 this (Call_read i off n r dst) (o1, st)"
proof -
  note v = object_invD [OF inv]
  obtain l1 l2 where l: "lock_read b (ob_rwlock o1) = Some (0, l1)" "unlock_read b l1 = Some (0, l2)" "view l2 = (0, False)"
    using free_lock_pair [OF v(1,2,3)] by metis
  have "\<exists>res. read_data i off n r dst (buffer_view st o1) = Some res"
  proof (cases "r = None \<or> dst = None")
    case True
    then show ?thesis by (auto simp: read_data_def split: option.split)
  next
    case False
    then obtain r1 d where "r = Some r1" "dst = Some d" by auto
    with read_data_safe [OF v(5), of off n d i r1] fits show ?thesis by auto
  qed
  then obtain res where res: "read_data i off n r dst (buffer_view st o1) = Some res" by blast
  let ?o = "if fst res = 0 then o1\<lparr>ob_rwlock := l2\<rparr> else o1"
  have "buffer_view st ?o = buffer_view st o1" by (simp add: buffer_view_def)
  with res v l(3) blocks_ok_frame [OF v(4), of ?o] object_read_data_eq [OF object_pointers(1) [OF v(4)] l(1,2)]
  show ?thesis
    by (intro call_agreesI [OF inv, where r = "Res_read res" and ?o2.0 = ?o and ?st2.0 = st]) simp_all
qed

text \<open>Allocating: the block is new, and everything that existed is as before.\<close>

lemma calloc_new:
  assumes "store_ok st" and "calloc ok n st = (p, st')"
  shows "store_ok st'"
    and "p \<noteq> 0 \<Longrightarrow> st_blocks st p = None \<and> st_blocks st' = (st_blocks st)(p \<mapsto> replicate n 0)"
    and "p = 0 \<Longrightarrow> st' = st" and "p = 0 \<longleftrightarrow> \<not> ok"
  using assms by (auto simp: calloc_def store_ok_def less_Suc_eq split: if_splits)

lemma initialize_agrees:
  assumes inv: "object_inv view b sz st0 (o1, st)"
  shows "call_agrees view b sz st0 this (Call_initialize mem) (o1, st)"
proof (cases "u32 (length (ob_variables o1)) = 0 \<or> ob_initialized o1")
  case True
  with inv show ?thesis
    by (auto simp: call_agrees_def object_initialize_buffer_def initialize_buffer_def)
next
  case False
  note v = object_invD [OF inv] and ini = object_initialized [OF inv]
  have null: "ob_buffer o1 = 0" "ob_prev_data o1 = 0" using False ini by simp_all
  have st: "store_ok st" "st_blocks st = st_blocks st0"
    using v(4) owned_none [OF null] by (auto simp: blocks_ok_def)
  obtain p st1 where p: "calloc (mem (Calloc_buffer this)) (ob_buffer_size o1) st = (p, st1)" by fastforce
  note c = calloc_new [OF st(1) p]
  have binv: "buf_inv sz (snd (initialize_buffer mem this (buffer_view st o1)))" by (rule initialize_buffer_inv [OF v(5)])
  show ?thesis
  proof (cases "p = 0")
    case True
    have e: "object_initialize_buffer mem this o1 st = Some (EPICSADS_ERROR, o1\<lparr>ob_buffer := 0\<rparr>, st)"
      using False p c True by (simp add: object_initialize_buffer_def)
    have r: "initialize_buffer mem this (buffer_view st o1) = (EPICSADS_ERROR, buffer_view st (o1\<lparr>ob_buffer := 0\<rparr>))"
      using False c(4) True by (simp add: initialize_buffer_def) (simp add: buffer_view_def pointee_def)
    show ?thesis
      using binv v blocks_ok_frame [OF v(4), of "o1\<lparr>ob_buffer := 0\<rparr>"] null
      by (intro call_agreesI [OF inv, where r = "Res_rc EPICSADS_ERROR" and ?o2.0 = "o1\<lparr>ob_buffer := 0\<rparr>" and ?st2.0 = st])
        (simp_all add: e r)
  next
    case p0: False
    obtain q st2 where q: "calloc (mem (Calloc_prev this)) (ob_buffer_size o1) st1 = (q, st2)" by fastforce
    note d = calloc_new [OF c(1) q]
    let ?f = "st2\<lparr>st_blocks := (st_blocks st2)(p := None)\<rparr>"
    show ?thesis
    proof (cases "q = 0")
      case True
      have e: "object_initialize_buffer mem this o1 st = Some (EPICSADS_ERROR, o1\<lparr>ob_buffer := 0, ob_prev_data := 0\<rparr>, ?f)"
        using False p q p0 c d True by (simp add: object_initialize_buffer_def free_block_def)
      have r: "initialize_buffer mem this (buffer_view st o1)
          = (EPICSADS_ERROR, buffer_view ?f (o1\<lparr>ob_buffer := 0, ob_prev_data := 0\<rparr>))"
        using False c(4) d(4) True p0 by (simp add: initialize_buffer_def) (simp add: buffer_view_def pointee_def)
      have "store_ok ?f" "st_blocks ?f = st_blocks st0"
        using d(1) c(2) d(3) p0 True st(2) by (auto simp: store_ok_def)
      then have "blocks_ok st0 (o1\<lparr>ob_buffer := 0, ob_prev_data := 0\<rparr>) ?f" by (simp add: blocks_ok_def owned_def)
      then show ?thesis
        using binv v
        by (intro call_agreesI [OF inv, where r = "Res_rc EPICSADS_ERROR"
              and ?o2.0 = "o1\<lparr>ob_buffer := 0, ob_prev_data := 0\<rparr>" and ?st2.0 = ?f])
          (simp_all add: e r)
    next
      case q0: False
      let ?o = "o1\<lparr>ob_buffer := p, ob_prev_data := q, ob_initialized := True\<rparr>"
      have e: "object_initialize_buffer mem this o1 st = Some (0, ?o, st2)"
        using False p q p0 q0 by (simp add: object_initialize_buffer_def)
      have pq: "p \<noteq> q" "st_blocks st0 p = None" "st_blocks st0 q = None"
        "st_blocks st2 = (st_blocks st0)(p \<mapsto> replicate (ob_buffer_size o1) 0, q \<mapsto> replicate (ob_buffer_size o1) 0)"
        using c(2) [OF p0] d(2) [OF q0] st(2) by (auto split: if_splits)
      have r: "initialize_buffer mem this (buffer_view st o1) = (0, buffer_view st2 ?o)"
        using False c(4) d(4) p0 q0 pq by (simp add: initialize_buffer_def) (simp add: buffer_view_def pointee_def)
      have "blocks_ok st0 ?o st2" using d(1) pq p0 q0 by (auto simp: blocks_ok_def owned_def)
      then show ?thesis
        using binv v
        by (intro call_agreesI [OF inv, where r = "Res_rc 0" and ?o2.0 = ?o and ?st2.0 = st2]) (simp_all add: e r)
    qed
  qed
qed

text \<open>Storing into one of the blocks.\<close>

lemma buffer_view_store:
  assumes "blocks_ok st0 o1 st" and "ob_buffer o1 \<noteq> 0"
  shows "buffer_view (st\<lparr>st_blocks := (st_blocks st)(ob_buffer o1 \<mapsto> bs)\<rparr>) o1 = (buffer_view st o1)\<lparr>buf_buffer := Some bs\<rparr>"
    and "ob_prev_data o1 \<noteq> 0 \<Longrightarrow> buffer_view (st\<lparr>st_blocks := (st_blocks st)(ob_prev_data o1 \<mapsto> bs)\<rparr>) (o1\<lparr>ob_rwlock := l\<rparr>)
      = (buffer_view st o1)\<lparr>buf_prev_data := Some bs\<rparr>"
  using assms object_pointers(3) [OF assms] by (simp_all add: buffer_view_def pointee_def)

lemma save_agrees:
  assumes inv: "object_inv view b sz st0 (o1, st)"
  shows "call_agrees view b sz st0 this Call_save (o1, st)"
proof -
  note v = object_invD [OF inv] and ini = object_initialized [OF inv] and p = object_pointers [OF object_invD(4) [OF inv]]
  obtain b' where b': "save_buffer (buffer_view st o1) = Some b'" "buf_inv sz b'" using save_buffer_ok [OF v(5)] by metis
  obtain l1 l2 where l: "lock_write b (ob_rwlock o1) = Some (0, l1)" "unlock_write b l1 = Some (0, l2)" "view l2 = (0, False)"
    using free_lock_pair_write [OF v(1,2,3)] by metis
  show ?thesis
  proof (cases "ob_prev_data o1 = 0")
    case True
    then have "b' = buffer_view st o1" using b' p by (simp add: save_buffer_def split: option.splits)
    with True inv b' show ?thesis by (simp add: call_agrees_def object_save_buffer_def)
  next
    case False
    then have n0: "ob_buffer o1 \<noteq> 0" using ini by simp
    obtain bs prev where "pointee st (ob_buffer o1) = Some bs" "pointee st (ob_prev_data o1) = Some prev"
      using p False n0 by auto
    note pt = this
    with v(5) have "length bs = ob_buffer_size o1" "length prev = ob_buffer_size o1" by (auto simp: buf_inv_def)
    note len = this
    let ?st = "st\<lparr>st_blocks := (st_blocks st)(ob_prev_data o1 \<mapsto> bs)\<rparr>" and ?o = "o1\<lparr>ob_rwlock := l2\<rparr>"
    have e: "object_save_buffer b o1 st = Some (?o, ?st)"
      using False pt len l by (simp add: object_save_buffer_def)
    have r: "b' = buffer_view ?st ?o"
      using b'(1) pt len buffer_view_store(2) [OF v(4) n0 False] by (simp add: save_buffer_def)
    have "blocks_ok st0 ?o ?st" using False by (intro blocks_ok_store [OF v(4)]) (simp_all add: owned_def)
    then show ?thesis
      using b' v l(3) by (intro call_agreesI [OF inv, where r = Res_unit and ?o2.0 = ?o and ?st2.0 = ?st]) (simp_all add: e r)
  qed
qed

lemma response_agrees:
  assumes inv: "object_inv view b sz st0 (o1, st)" and ini: "ob_initialized o1"
  shows "call_agrees view b sz st0 this (Call_response n resp) (o1, st)"
proof -
  note v = object_invD [OF inv]
  have n0: "ob_buffer o1 \<noteq> 0" using object_initialized [OF inv] ini by simp
  then obtain bs where bs: "pointee st (ob_buffer o1) = Some bs" using object_pointers(1) [OF v(4)] by auto
  let ?st = "st\<lparr>st_blocks := (st_blocks st)(ob_buffer o1 \<mapsto> fill n resp bs)\<rparr>"
  have r: "store_response n resp (buffer_view st o1) = buffer_view ?st o1"
    using bs buffer_view_store(1) [OF v(4) n0] by (simp add: store_response_def)
  have "blocks_ok st0 o1 ?st" using n0 by (intro blocks_ok_store [OF v(4)]) (simp_all add: owned_def)
  then show ?thesis
    using bs v store_response_inv [OF v(5), of n resp]
    by (intro call_agreesI [OF inv, where r = Res_unit and ?o2.0 = o1 and ?st2.0 = ?st])
      (simp_all add: get_buffer_def store_through_def r)
qed

lemma every_call_agrees:
  "object_inv view b sz st0 (o1, st) \<Longrightarrow> call_fits sz o1 c \<Longrightarrow> call_agrees view b sz st0 this c (o1, st)"
  by (cases c) (simp_all add: add_agrees read_agrees initialize_agrees save_agrees response_agrees)

section \<open>From the constructor to the destructor\<close>

text \<open>
  The object with the calls of its clients as a labelled transition system, and the record as the
  abstract machine: the labels, a call with its result, are what is observed.
\<close>

inductive object_step ::
  "'l lock_build \<Rightarrow> (nat \<Rightarrow> nat) \<Rightarrow> nat \<Rightarrow> 'l buffer_object \<times> block_store \<Rightarrow> object_call \<times> object_result
     \<Rightarrow> 'l buffer_object \<times> block_store \<Rightarrow> bool" for b sz this where
  object_stepI: "call_fits sz (fst s) c \<Longrightarrow> call_object b this c s = Some (r, s') \<Longrightarrow> object_step b sz this s (c, r) s'"

fun record_step :: "nat \<Rightarrow> sum_read_buffer \<Rightarrow> (object_call \<times> object_result) list \<Rightarrow> sum_read_buffer \<Rightarrow> bool" where
  "record_step this v1 [(c, r)] v2 \<longleftrightarrow> call_record this c v1 = Some (r, v2)"
| "record_step this v1 _ v2 \<longleftrightarrow> False"

definition object_start ::
  "('l \<Rightarrow> holders) \<Rightarrow> 'l lock_build \<Rightarrow> block_store \<Rightarrow> 'l buffer_object \<times> block_store \<Rightarrow> bool" where
  "object_start view b st0 s \<longleftrightarrow> build_ok view b \<and> granted_when_free view b \<and> store_ok st0 \<and> snd s = st0
     \<and> view (ob_rwlock (fst s)) = (0, False)
     \<and> (\<exists>raw n. n < 2 ^ 16 \<and> (buffer_object_new b raw n = Inr (fst s) \<or> (\<exists>lim. buffer_object_new_limit b raw n lim = Inr (fst s))))"

lemma new_object:
  "buffer_object_new b raw n = Inr o1 \<Longrightarrow> n < 2 ^ 16 \<Longrightarrow>
     ob_buffer o1 = 0 \<and> ob_prev_data o1 = 0 \<and> buf_inv sz (buffer_view st o1)"
  "buffer_object_new_limit b raw n lim = Inr o1 \<Longrightarrow> n < 2 ^ 16 \<Longrightarrow>
     ob_buffer o1 = 0 \<and> ob_prev_data o1 = 0 \<and> buf_inv sz (buffer_view st o1)"
proof -
  have *: "ob_buffer o2 = 0 \<and> ob_prev_data o2 = 0 \<and> buf_inv sz (buffer_view st (o2\<lparr>ob_soft_limit := k\<rparr>))"
    if "buffer_object_new b raw n = Inr o2" "n < 2 ^ 16" for o2 k
    using that by (auto simp: buffer_object_new_def buf_inv_def buffer_view_def pointee_def split: sum.splits if_splits)
  show "buffer_object_new b raw n = Inr o1 \<Longrightarrow> n < 2 ^ 16 \<Longrightarrow>
     ob_buffer o1 = 0 \<and> ob_prev_data o1 = 0 \<and> buf_inv sz (buffer_view st o1)"
    using * [of o1 "ob_soft_limit o1"] by simp
  show "buffer_object_new_limit b raw n lim = Inr o1 \<Longrightarrow> n < 2 ^ 16 \<Longrightarrow>
     ob_buffer o1 = 0 \<and> ob_prev_data o1 = 0 \<and> buf_inv sz (buffer_view st o1)"
    using * [of _ lim] by (auto simp: buffer_object_new_limit_def split: sum.splits if_splits)
qed

lemma object_start_inv:
  assumes "object_start view b st0 s"
  shows "object_inv view b sz st0 s"
proof -
  obtain o1 where s: "s = (o1, st0)" using assms by (cases s) (auto simp: object_start_def)
  have "ob_buffer o1 = 0 \<and> ob_prev_data o1 = 0 \<and> buf_inv sz (buffer_view st0 o1)"
  proof -
    obtain raw n where "n < 2 ^ 16" "buffer_object_new b raw n = Inr o1 \<or> (\<exists>lim. buffer_object_new_limit b raw n lim = Inr o1)"
      using assms s by (auto simp: object_start_def)
    then show ?thesis using new_object by metis
  qed
  then show ?thesis
    using assms s by (simp add: object_start_def object_inv_def blocks_ok_def owned_def)
qed

lemma object_step_agrees:
  assumes inv: "object_inv view b sz st0 s" and step: "object_step b sz this s cr s'"
  shows "object_inv view b sz st0 s'"
    and "call_record this (fst cr) (buffer_view (snd s) (fst s)) = Some (snd cr, buffer_view (snd s') (fst s'))"
proof -
  obtain o1 st where s: "s = (o1, st)" by (cases s)
  from step obtain c r where cr: "cr = (c, r)" "call_fits sz o1 c" "call_object b this c s = Some (r, s')"
    by cases (auto simp: s)
  from every_call_agrees [OF inv [unfolded s] cr(2), of this] cr(1,3)
  show "object_inv view b sz st0 s'"
    "call_record this (fst cr) (buffer_view (snd s) (fst s)) = Some (snd cr, buffer_view (snd s') (fst s'))"
    by (auto simp: call_agrees_def s)
qed

interpretation ob: simulation "object_start view b st0" "object_step b sz this" "object_inv view b sz st0"
    "\<lambda>s. buffer_view (snd s) (fst s)" "\<lambda>l. [l]" "record_step this" for view b st0 sz this
proof
  show "object_start view b st0 s \<Longrightarrow> object_inv view b sz st0 s" for s by (rule object_start_inv)
  show "object_inv view b sz st0 s \<Longrightarrow> object_step b sz this s l s' \<Longrightarrow> object_inv view b sz st0 s'" for s l s'
    by (rule object_step_agrees)
  show "object_inv view b sz st0 s \<Longrightarrow> object_step b sz this s l s' \<Longrightarrow>
      record_step this (buffer_view (snd s) (fst s)) [l] (buffer_view (snd s') (fst s'))
      \<or> buffer_view (snd s') (fst s') = buffer_view (snd s) (fst s) \<and> [l] = []" for s l s'
    using object_step_agrees(2) [of view b sz st0 s this l s'] by (cases l) simp
qed

text \<open>
  C28. The object refines the record: in every state that calls lead to from the constructor, each call
  that a client may make is defined (it uses no block that does not exist, stays in bounds, and
  returns), its result is the one that the operation on the record gives, and what the object's
  pointers lead to afterwards is the record that the operation leaves. Whatever the lock, when it is
  free it is assumed to be granted.
\<close>

theorem object_refines:
  assumes "reach (object_start view b st0) (object_step b sz this) (o1, st)" and "call_fits sz o1 c"
  shows "\<exists>r o2 st2. call_object b this c (o1, st) = Some (r, o2, st2)
    \<and> call_record this c (buffer_view st o1) = Some (r, buffer_view st2 o2)"
proof -
  have "object_inv view b sz st0 (o1, st)" by (rule ob.reach_inv [OF assms(1)])
  then obtain r o2 st2 where call: "call_object b this c (o1, st) = Some (r, o2, st2)"
    using every_call_agrees [OF _ assms(2)] unfolding call_agrees_def by blast
  then have "object_step b sz this (o1, st) (c, r) (o2, st2)" using assms(2) by (intro object_stepI) simp_all
  from ob.reach_simulates [OF assms(1) this] call show ?thesis by simp
qed

text \<open>
  C29. No block is lost and none is freed twice: whatever calls were made since the constructor, and
  whichever allocations failed, the destructor is defined and leaves exactly the blocks, with the
  contents, that there were before the object; none but the two blocks of the object was touched
  in between, and the lock is free, so that it may be destroyed.
\<close>

theorem object_lifecycle:
  assumes "reach (object_start view b st0) (object_step b sz this) (o1, st)"
  shows "(\<exists>l st'. object_destroy b o1 st = Some (l, st') \<and> st_blocks st' = st_blocks st0)
    \<and> (\<forall>p. p \<notin> {ob_buffer o1, ob_prev_data o1} \<longrightarrow> st_blocks st p = st_blocks st0 p)
    \<and> view (ob_rwlock o1) = (0, False)"
proof -
  have inv: "object_inv view b sz st0 (o1, st)" by (rule ob.reach_inv [OF assms])
  note v = object_invD [OF inv] and ini = object_initialized(2) [OF inv] and p = object_pointers [OF object_invD(4) [OF inv]]
  have frame: "st_blocks st q = st_blocks st0 q" if "q \<notin> owned o1" for q using v(4) that by (simp add: blocks_ok_def)
  show ?thesis
  proof (cases "ob_buffer o1 = 0")
    case True
    then have "owned o1 = {}" using ini by (intro owned_none) simp_all
    then show ?thesis using True ini v(3) frame by (auto simp: object_destroy_def)
  next
    case False
    let ?b = "ob_buffer o1" and ?q = "ob_prev_data o1"
    have n: "?q \<noteq> 0" "?q \<noteq> ?b" "st_blocks st ?b \<noteq> None" "st_blocks st ?q \<noteq> None"
      "st_blocks st0 ?b = None" "st_blocks st0 ?q = None" "owned o1 = {?b, ?q}"
      using False ini p v(4) by (auto simp: owned_def blocks_ok_def)
    have "(st_blocks st)(?q := None, ?b := None) = st_blocks st0"
      using n frame by (auto simp: fun_eq_iff)
    with n False show ?thesis using v(3) frame by (auto simp: object_destroy_def free_block_def)
  qed
qed

section \<open>A concrete object\<close>

text \<open>A POSIX lock that admits a single reader; the second gets \<open>EAGAIN\<close>.\<close>

definition one_reader_pthreads :: "holders pthreads" where
  "one_reader_pthreads = \<lparr> pthread_rwlockattr_init = Pair 0, pthread_rwlockattr_setkind_np = (\<lambda>l k. (0, l)),
     pthread_rwlock_init = (\<lambda>l. (0, (0, False))),
     pthread_rwlock_rdlock = (\<lambda>(r, w). if w then None else if 0 < r then Some (11, (r, w)) else Some (0, (r + 1, False))),
     pthread_rwlock_tryrdlock = (\<lambda>(r, w). if w \<or> 0 < r then (16, (r, w)) else (0, (r + 1, False))),
     pthread_rwlock_wrlock = (\<lambda>(r, w). if w \<or> 0 < r then None else Some (0, (0, True))),
     pthread_rwlock_trywrlock = (\<lambda>(r, w). if w \<or> 0 < r then (16, (r, w)) else (0, (0, True))),
     pthread_rwlock_unlock = (\<lambda>(r, w). (0, if w then (r, False) else (r - 1, False))),
     pthread_rwlock_destroy = Pair 0, pthread_rwlockattr_destroy = Pair 0 \<rparr>"

lemma one_reader_ok: "build_ok (\<lambda>l. l) (Linux_use_cpp11 one_reader_pthreads)"
  by (auto simp: posix_ok_def one_reader_pthreads_def acquires_read_def acquires_write_def split: if_splits)

lemma one_reader_granted: "granted_when_free (\<lambda>l. l) (Linux_use_cpp11 one_reader_pthreads)"
  by (auto simp: granted_when_free_def one_reader_pthreads_def apfst_def)

text \<open>The object of 500 variables at most, as it is when one of 10 bytes was added and the buffer initialised.\<close>

definition example_object :: "holders \<Rightarrow> holders buffer_object" where
  "example_object l = \<lparr> ob_variables = [7], ob_max_nvariables = 500, ob_soft_limit = 1000000,
     ob_next_result_offset = 1, ob_next_data_offset = 10, ob_buffer_size = 14, ob_buffer = 1,
     ob_initialized = True, ob_prev_data = 2, ob_state = Buf_Invalid, ob_rwlock = l \<rparr>"

definition example_store :: block_store where
  "example_store = \<lparr> st_blocks = [1 \<mapsto> replicate 14 0, 2 \<mapsto> replicate 14 0], st_next = 3 \<rparr>"

definition empty_store :: block_store where
  "empty_store = \<lparr> st_blocks = (\<lambda>_. None), st_next = 1 \<rparr>"

lemma reach_call:
  "reach (object_start view b st0) (object_step b sz this) s \<Longrightarrow> call_fits sz (fst s) c \<Longrightarrow>
     call_object b this c s = Some (r, s') \<Longrightarrow> reach (object_start view b st0) (object_step b sz this) s'"
  by (erule reach_step) (rule object_stepI)

lemma example_object_reached:
  "reach (object_start (\<lambda>l. l) (Linux_use_cpp11 one_reader_pthreads) empty_store)
     (object_step (Linux_use_cpp11 one_reader_pthreads) (\<lambda>_. 10) 0) (example_object (0, False), example_store)"
  (is "reach ?init ?step _")
proof -
  let ?b = "Linux_use_cpp11 one_reader_pthreads"
  let ?o0 = "(example_object (0, False))\<lparr>ob_variables := [], ob_next_result_offset := 0, ob_next_data_offset := 0,
    ob_buffer_size := 0, ob_buffer := 0, ob_initialized := False, ob_prev_data := 0\<rparr>"
  let ?o1 = "(example_object (0, False))\<lparr>ob_buffer := 0, ob_initialized := False, ob_prev_data := 0\<rparr>"
  have "buffer_object_new ?b (0, False) 500 = Inr ?o0"
    by (simp add: buffer_object_new_def one_reader_pthreads_def example_object_def)
  then have "\<exists>raw n. n < 2 ^ 16 \<and> (buffer_object_new ?b raw n = Inr ?o0 \<or> (\<exists>lim. buffer_object_new_limit ?b raw n lim = Inr ?o0))"
    by (intro exI [of _ "(0, False)"] exI [of _ 500]) simp
  then have "?init (?o0, empty_store)"
    using one_reader_ok one_reader_granted unfolding object_start_def
    by (simp add: store_ok_def empty_store_def) (simp add: example_object_def)
  then have r0: "reach ?init ?step (?o0, empty_store)" by (rule reach_init)
  have "buf_add_variable (\<lambda>_. True) 0 7 example_variable (buffer_view empty_store ?o0)
    = (0, set_buffer_reader \<lparr> pos_buffer = Some 0, pos_off_result = 0, pos_off_data = 0 \<rparr> example_variable,
       (buffer_view empty_store ?o0)\<lparr>buf_variables := [7], buf_next_result_offset := 1, buf_next_data_offset := 10,
         buf_buffer_size := 14\<rparr>)"
    by (simp add: buf_add_variable_def at_capacity_def data_size_def results_size_def get_num_variables_def
        buffer_view_def example_object_def result_size_def sub64_def)
  then have "call_object ?b 0 (Call_add (\<lambda>_. True) 7 example_variable) (?o0, empty_store) = Some
    (Res_add 0 (set_buffer_reader \<lparr> pos_buffer = Some 0, pos_off_result = 0, pos_off_data = 0 \<rparr> example_variable), ?o1, empty_store)"
    by (simp add: object_add_variable_def example_object_def)
  from reach_call [OF r0 _ this] have r1: "reach ?init ?step (?o1, empty_store)" by simp
  have "call_object ?b 0 (Call_initialize (\<lambda>_. True)) (?o1, empty_store)
    = Some (Res_rc 0, example_object (0, False), example_store)"
    by (simp add: object_initialize_buffer_def calloc_def example_object_def empty_store_def example_store_def fun_eq_iff)
  from reach_call [OF r1 _ this] show ?thesis by simp
qed

theorem object_refines_witness:
  "\<exists>r o2 st2. call_object (Linux_use_cpp11 one_reader_pthreads) 0 Call_save (example_object (0, False), example_store) = Some (r, o2, st2)
    \<and> call_record 0 Call_save (buffer_view example_store (example_object (0, False))) = Some (r, buffer_view st2 o2)"
  by (rule object_refines [OF example_object_reached]) simp

theorem object_lifecycle_witness:
  "\<exists>l st'. object_destroy (Linux_use_cpp11 one_reader_pthreads) (example_object (0, False)) example_store = Some (l, st')
    \<and> st_blocks st' = (\<lambda>_. None)"
  using object_lifecycle [OF example_object_reached] by (simp add: empty_store_def)

section \<open>A lock that refuses\<close>

text \<open>
  C30. The codes of the lock are ignored. If the POSIX lock refuses to let another reader in, as it may
  when the maximum number of readers is reached (\<open>EAGAIN\<close>), \<open>read_data\<close> goes on: it gives the same
  result as if it had the lock, and releases a lock that it does not hold, which takes it from one of
  the readers that do.
\<close>

theorem refused_lock_ignored:
  assumes "reach (object_start view (Linux_use_cpp11 lib) st0) (object_step (Linux_use_cpp11 lib) sz this) (o1, st)"
    and "call_fits sz o1 (Call_read i off n r dst)"
    and "view l = (Suc k, False)" and "pthread_rwlock_rdlock lib l = Some (rc, l1)" and "rc \<noteq> 0"
  shows "\<exists>res l'. read_data i off n r dst (buffer_view st o1) = Some res
    \<and> object_read_data (Linux_use_cpp11 lib) i off n r dst (o1\<lparr>ob_rwlock := l\<rparr>) st = Some (res, o1\<lparr>ob_rwlock := l'\<rparr>)
    \<and> view l' = (if fst res = 0 then (k, False) else (Suc k, False))"
proof -
  let ?b = "Linux_use_cpp11 lib" and ?o = "o1\<lparr>ob_rwlock := l\<rparr>"
  have inv: "object_inv view ?b sz st0 (o1, st)" by (rule ob.reach_inv [OF assms(1)])
  note v = object_invD [OF inv]
  have "view l1 = (Suc k, False)" using v(1) assms(3,4,5) by (auto simp: posix_ok_def)
  obtain rc' l2 where u: "unlock_read ?b l1 = Some (rc', l2)" by (cases "unlock_read ?b l1") auto
  have l2: "view l2 = (k, False)" using release_ok(1) [OF v(1) u] \<open>view l1 = (Suc k, False)\<close> by blast
  have lr: "lock_read ?b (ob_rwlock ?o) = Some (lock_rc rc, l1)" using assms(4) by simp
  obtain res where res: "read_data i off n r dst (buffer_view st o1) = Some res"
    using every_call_agrees [OF inv assms(2)] unfolding call_agrees_def by auto
  have "buffer_view st ?o = buffer_view st o1" by (simp add: buffer_view_def)
  with object_read_data_eq [OF _ lr u, of st i off n r dst] object_pointers(1) [OF v(4)] res l2 assms(3) show ?thesis
    by (intro exI [of _ res] exI [of _ "if fst res = 0 then l2 else l"]) simp
qed

text \<open>The lock has one reader and is free after another one was refused: a writer could take it now.\<close>

theorem refused_lock_ignored_witness:
  "\<exists>res. object_read_data (Linux_use_cpp11 one_reader_pthreads) 0 0 10 (Some 5) (Some (replicate 10 1))
       (example_object (1, False)) example_store = Some (res, example_object (0, False)) \<and> fst res = 0"
proof -
  let ?v = "buffer_view example_store (example_object (0, False))"
  have o: "(example_object (0, False))\<lparr>ob_rwlock := l\<rparr> = example_object l" for l by (simp add: example_object_def)
  have "read_data 0 0 10 (Some 5) (Some (replicate 10 1)) ?v = Some (0, Some (le_decode (replicate 4 0)), Some (replicate 10 0))"
    by (simp add: read_data_def pointee_def) (simp add: example_object_def example_store_def result_size_def)
  moreover have "pthread_rwlock_rdlock one_reader_pthreads (1, False) = Some (11, (1, False))"
    by (simp add: one_reader_pthreads_def)
  ultimately show ?thesis
    using refused_lock_ignored [OF example_object_reached, of 0 0 10 "Some 5" "Some (replicate 10 1)" "(1, False)" 0 11 "(1, False)"]
    by (auto simp: o)
qed

end
