(* ===== verification/Variable_Locks.thy ===== *)
theory Variable_Locks
  imports Variable_Props RW_Lock
begin

text \<open>
  \<open>ADSVariable::get_read_data\<close> and the locks of the buffers: the method takes the read lock of the variable's
  buffer and leaves it to its caller to release it.
\<close>

text \<open>One call for the lock of the buffer \<open>bid\<close>; \<open>None\<close> if it waits. What the lock returns is not looked at.\<close>

definition use_lock :: "('l \<Rightarrow> (int \<times> 'l) option) \<Rightarrow> nat \<Rightarrow> (nat \<Rightarrow> 'l) \<Rightarrow> (nat \<Rightarrow> 'l) option" where
  "use_lock f bid L = map_option (\<lambda>(rc, l). L(bid := l)) (f (L bid))"

lemma use_lockD:
  assumes "use_lock f bid L = Some L'"
  obtains rc l where "f (L bid) = Some (rc, l)" and "L' = L(bid := l)"
  using assms by (auto simp: use_lock_def)

text \<open>
  The pair that is returned: the address of the data, as the number of the buffer and the offset in its block,
  and the lock, which is that of the same buffer; \<open>None\<close> as its value is the pair of null pointers. \<open>None\<close> as
  the result of the whole is undefined behaviour or a lock that is not granted.
\<close>

definition get_read_data ::
  "'l lock_build \<Rightarrow> nat \<Rightarrow> 'e heap \<Rightarrow> (nat \<Rightarrow> 'l) \<Rightarrow> ((nat \<times> nat) option \<times> (nat \<Rightarrow> 'l)) option" where
  "get_read_data b vid h L =
     (let pos = var_buffer_reader (h_vars h vid) in
      if pos = EMPTY_BUFFER_DATA_POSITION then Some (None, L)
      else
        (case pos_buffer pos of
           None \<Rightarrow> Some (None, L)
         | Some bid \<Rightarrow>
             Option.bind (h_bufs h bid) (\<lambda>buf.
               if buf_state buf = Buf_Invalid then Some (None, L)
               else
                 map_option (\<lambda>L'. (Some (bid, start_of_data_offset buf + pos_off_data pos), L'))
                   (use_lock (lock_read b) bid L))))"

lemma get_read_data_slot:
  assumes "req_ok h r" and "c \<in> set (get_chunks r)" and "i < length (chunk_variables c)" and "chunk_variables c ! i = vid"
  shows "get_read_data b vid h L =
    (if buf_state (h_buf h (chunk_buffer c)) = Buf_Invalid then Some (None, L)
     else map_option (\<lambda>L'. (Some (chunk_buffer c, 4 * length (chunk_variables c)
            + slot_offset (h_size h) (h_buf h (chunk_buffer c)) i), L')) (use_lock (lock_read b) (chunk_buffer c) L))"
  using req_reader [OF assms(1-3)] req_chunk_inv [OF assms(1,2)] assms(4)
  by (simp add: get_read_data_def Let_def h_reader_def EMPTY_BUFFER_DATA_POSITION_def start_of_data_offset_def
      result_size_def buf_inv_def)

text \<open>
  For a variable of an allocated request: while the data are not valid the null pointers are returned and no
  lock is taken; otherwise the caller gets the address of the variable's own data, and the read lock has been
  called, of that buffer and no other. With a library that keeps its promises and reports no error the
  lock then has one reader more, which \<open>unlock_read\<close> on it takes back.
\<close>

theorem get_read_data_correct:
  assumes "req_ok h r" and "all_bufs buf_initialized h (get_chunks r)" and "vid \<in> set (req_variables r)"
    and "n \<le> h_size h vid" and "get_read_data b vid h L = Some (p, L')"
  shows "if data_valid h vid
    then \<exists>bid off mem rc l. p = Some (bid, off) \<and> pos_buffer (h_reader h vid) = Some bid
      \<and> buf_buffer (h_buf h bid) = Some mem \<and> mem_read mem off n = Some (slot_data h vid n)
      \<and> lock_read b (L bid) = Some (rc, l) \<and> L' = L(bid := l)
      \<and> (\<forall>view rc' l'. build_ok view b \<longrightarrow> rc = 0 \<longrightarrow> acquires_read (view (L bid)) (view l)
           \<and> (unlock_read b l = Some (rc', l') \<longrightarrow> rc' = 0 \<and> view l' = (fst (view (L bid)), False)))
    else p = None \<and> L' = L"
proof -
  obtain c i where c: "c \<in> set (get_chunks r)" and i: "i < length (chunk_variables c)" and v: "chunk_variables c ! i = vid"
    by (rule req_variable_slot [OF assms(3)])
  let ?bid = "chunk_buffer c" and ?b = "h_buf h (chunk_buffer c)"
  let ?off = "4 * length (chunk_variables c) + slot_offset (h_size h) ?b i"
  note inv = req_chunk_inv [OF assms(1) c] and rd = req_reader [OF assms(1) c i, unfolded v]
    and eq = get_read_data_slot [OF assms(1) c i v, of b L]
  have val: "data_valid h vid \<longleftrightarrow> buf_state ?b = Buf_Valid" by (simp add: data_valid_def rd)
  show ?thesis
  proof (cases "buf_state ?b")
    case Buf_Invalid
    then show ?thesis using assms(5) eq val by simp
  next
    case Buf_Valid
    obtain mem where mem: "buf_buffer ?b = Some mem" "length mem = buf_buffer_size ?b"
      using inv(1) assms(2) c by (auto simp: buf_inv_def all_bufs_def)
    have ib: "i < length (buf_variables ?b)" "n \<le> h_size h (buf_variables ?b ! i)" using i inv(2) v assms(4) by simp_all
    have "slot_offset (h_size h) ?b i + n \<le> buf_next_data_offset ?b"
      using sum_list_take_Suc_le [OF ib(1), of "h_size h"] ib(2) inv(1) by (simp add: slot_offset_def buf_inv_def)
    then have "?off + n \<le> length mem" using mem(2) inv(1,2) by (simp add: buf_inv_def)
    moreover have "slot_data h vid n = take n (drop ?off mem)" using mem(1) inv(2) by (simp add: slot_data_def rd)
    ultimately have data: "mem_read mem ?off n = Some (slot_data h vid n)" by simp
    obtain rc l where lock: "lock_read b (L ?bid) = Some (rc, l)" "L' = L(?bid := l)" and p: "p = Some (?bid, ?off)"
      using assms(5) eq Buf_Valid by (auto elim: use_lockD)
    have "acquires_read (view (L ?bid)) (view l)
        \<and> (unlock_read b l = Some (rc', l') \<longrightarrow> rc' = 0 \<and> view l' = (fst (view (L ?bid)), False))"
      if "build_ok view b" "rc = 0" for view rc' l'
    proof -
      have a: "acquires_read (view (L ?bid)) (view l)" using acquire_read_ok [OF that(1)] lock(1) that(2) by fastforce
      then show ?thesis using release_ok(1) [OF that(1)] by (auto simp: acquires_read_def)
    qed
    then show ?thesis using Buf_Valid val p rd mem(1) data lock by simp
  qed
qed

end
