(* ===== verification/Race_Locks.thy ===== *)
theory Race_Locks
  imports Race_Example Buffer_Object_Props Variable_Locks
begin

text \<open>
  The interleavings of a sum-read with handlers, with the lock of each buffer as an object: \<open>lock_read\<close>
  and \<open>unlock_read\<close> of \<open>read_data\<close>, \<open>lock_write\<close> and \<open>unlock_write\<close> of \<open>save_buffer\<close> are calls of the
  library, whose codes the code ignores. The theories about races describe by \<open>blocked\<close> who waits; here that
  follows from what the library promises.
\<close>

section \<open>States and steps\<close>

text \<open>\<open>lr_saving\<close>: the scan thread is in \<open>save_buffer\<close>, between the two calls of the lock.\<close>

record ('e, 'l) locked_race =
  lr_race :: "'e race"
  lr_locks :: "nat \<Rightarrow> 'l"
  lr_saving :: bool

text \<open>What a handler does with the lock in a step from one point to another.\<close>

fun hand_locks :: "'l lock_build \<Rightarrow> hand_pc \<Rightarrow> hand_pc \<Rightarrow> 'e heap \<Rightarrow> (nat \<Rightarrow> 'l) \<Rightarrow> (nat \<Rightarrow> 'l) option" where
  "hand_locks b (Hand_Read vid n dst) (Hand_Result vid' n' dst') h L =
     Option.bind (pos_buffer (h_reader h vid)) (\<lambda>bid. use_lock (lock_read b) bid L)"
| "hand_locks b (Hand_Data vid n dst code todo) (Hand_Finish vid' n' dst' code') h L =
     Option.bind (pos_buffer (h_reader h vid)) (\<lambda>bid. use_lock (unlock_read b) bid L)"
| "hand_locks b _ _ h L = Some L"

text \<open>The buffers of an initialised request have both blocks, so \<open>save_buffer\<close> always uses the lock.\<close>

fun saves :: "read_pc \<Rightarrow> nat option" where
  "saves (Read_Loop (c # cs)) = Some (chunk_buffer c)"
| "saves _ = None"

definition scan_unlocks :: "'l lock_build \<Rightarrow> read_pc \<Rightarrow> (nat \<Rightarrow> 'l) \<Rightarrow> (nat \<Rightarrow> 'l) option" where
  "scan_unlocks b p L = (case saves p of None \<Rightarrow> Some L | Some bid \<Rightarrow> use_lock (unlock_write b) bid L)"

text \<open>The label is \<open>None\<close> when the scan thread only takes a lock, and otherwise the thread whose step it is.\<close>

inductive locked_step ::
  "'l lock_build \<Rightarrow> ads_def \<Rightarrow> 'e ads_lib \<Rightarrow> sum_read_request \<Rightarrow> ('e, 'l) locked_race \<Rightarrow> thread option
     \<Rightarrow> ('e, 'l) locked_race \<Rightarrow> bool" for b d lib r where
  locked_acquire: "saves (rc_read (lr_race s)) = Some bid \<Longrightarrow> \<not> lr_saving s \<Longrightarrow>
     use_lock (lock_write b) bid (lr_locks s) = Some L \<Longrightarrow>
     locked_step b d lib r s None (s\<lparr>lr_locks := L, lr_saving := True\<rparr>)"
| locked_read: "read_may (rc_read (lr_race s)) i \<Longrightarrow> (saves (rc_read (lr_race s)) \<noteq> None \<longrightarrow> lr_saving s) \<Longrightarrow>
     read_step d lib r i (rc_read (lr_race s)) (rc_heap (lr_race s)) = Some (p, h) \<Longrightarrow>
     scan_unlocks b (rc_read (lr_race s)) (lr_locks s) = Some L \<Longrightarrow>
     locked_step b d lib r s (Some Scan_thread)
       (s\<lparr>lr_race := (lr_race s)\<lparr>rc_read := p, rc_heap := h,
            rc_answers := note_answer (rc_read (lr_race s)) p (rc_answers (lr_race s))\<rparr>,
          lr_locks := L, lr_saving := False\<rparr>)"
| locked_hand: "hand_may (rc_hand (lr_race s)) i \<Longrightarrow>
     hand_step d i (rc_hand (lr_race s)) (rc_heap (lr_race s)) = Some (q, h) \<Longrightarrow>
     hand_locks b (rc_hand (lr_race s)) q (rc_heap (lr_race s)) (lr_locks s) = Some L \<Longrightarrow>
     locked_step b d lib r s (Some Handler_thread)
       (s\<lparr>lr_race := (lr_race s)\<lparr>rc_hand := q, rc_heap := h\<rparr>, lr_locks := L\<rparr>)"
| locked_outside: "race_step d lib r (lr_race s) Outside s' \<Longrightarrow>
     locked_step b d lib r s (Some Outside) (s\<lparr>lr_race := s'\<rparr>)"

text \<open>
  What is assumed of the library beyond \<open>build_ok\<close>: it acquires without an error, when it acquires at
  all, and it does when nobody holds the lock.
\<close>

definition faultless :: "('l \<Rightarrow> holders) \<Rightarrow> 'l lock_build \<Rightarrow> bool" where
  "faultless view b \<longleftrightarrow> build_ok view b \<and> granted_when_free view b
     \<and> (\<forall>l rc l'. lock_read b l = Some (rc, l') \<or> lock_write b l = Some (rc, l') \<longrightarrow> rc = 0)"

definition locked_start ::
  "('l \<Rightarrow> holders) \<Rightarrow> 'l lock_build \<Rightarrow> ads_def \<Rightarrow> sum_read_request \<Rightarrow> 'e heap \<Rightarrow> ('e, 'l) locked_race \<Rightarrow> bool" where
  "locked_start view b d r h0 s \<longleftrightarrow> faultless view b \<and> race_start d r h0 (lr_race s)
     \<and> (\<forall>bid. view (lr_locks s bid) = (0, False)) \<and> \<not> lr_saving s"

section \<open>The invariant\<close>

text \<open>Who holds the lock of a buffer.\<close>

definition reader_of :: "('e, 'l) locked_race \<Rightarrow> nat \<Rightarrow> bool" where
  "reader_of s bid \<longleftrightarrow> holds_read_lock (rc_hand (lr_race s)) (rc_heap (lr_race s)) bid"

definition writer_of :: "('e, 'l) locked_race \<Rightarrow> nat \<Rightarrow> bool" where
  "writer_of s bid \<longleftrightarrow> lr_saving s \<and> saves (rc_read (lr_race s)) = Some bid"

definition held :: "('l \<Rightarrow> holders) \<Rightarrow> ('e, 'l) locked_race \<Rightarrow> bool" where
  "held view s \<longleftrightarrow> (\<forall>bid. view (lr_locks s bid) = (if reader_of s bid then 1 else 0, writer_of s bid)
     \<and> \<not> (reader_of s bid \<and> writer_of s bid))"

definition locked_inv ::
  "('l \<Rightarrow> holders) \<Rightarrow> 'l lock_build \<Rightarrow> ads_def \<Rightarrow> 'e ads_lib \<Rightarrow> sum_read_request \<Rightarrow> 'e heap
     \<Rightarrow> ('e, 'l) locked_race \<Rightarrow> bool" where
  "locked_inv view b d lib r h0 s \<longleftrightarrow> faultless view b \<and> race_inv d lib r h0 (lr_race s)
     \<and> held view s \<and> (lr_saving s \<longrightarrow> saves (rc_read (lr_race s)) \<noteq> None)"

lemma faultlessD:
  assumes "faultless view b"
  shows "lock_read b l = Some (rc, l') \<Longrightarrow> acquires_read (view l) (view l')"
    and "lock_write b l = Some (rc, l') \<Longrightarrow> acquires_write (view l) (view l')"
    and "unlock_read b l = Some (rc, l') \<Longrightarrow> view l = (1, False) \<Longrightarrow> view l' = (0, False)"
    and "unlock_write b l = Some (rc, l') \<Longrightarrow> view l = (0, True) \<Longrightarrow> view l' = (0, False)"
    and "view l = (0, False) \<Longrightarrow> lock_read b l \<noteq> None" and "view l = (0, False) \<Longrightarrow> lock_write b l \<noteq> None"
    and "unlock_read b l \<noteq> None" and "unlock_write b l \<noteq> None"
proof -
  have b: "build_ok view b" and free: "granted_when_free view b"
    and ok: "\<And>l rc l'. lock_read b l = Some (rc, l') \<or> lock_write b l = Some (rc, l') \<Longrightarrow> rc = 0"
    using assms unfolding faultless_def by blast+
  show "lock_read b l = Some (rc, l') \<Longrightarrow> acquires_read (view l) (view l')"
    using acquire_read_ok [OF b, of l rc l'] ok [of l rc l'] by simp
  show "lock_write b l = Some (rc, l') \<Longrightarrow> acquires_write (view l) (view l')"
    using acquire_write_ok [OF b, of l rc l'] ok [of l rc l'] by simp
  show "unlock_read b l = Some (rc, l') \<Longrightarrow> view l = (1, False) \<Longrightarrow> view l' = (0, False)"
    using release_ok(1) [OF b, of l rc l' 0] by simp
  show "unlock_write b l = Some (rc, l') \<Longrightarrow> view l = (0, True) \<Longrightarrow> view l' = (0, False)"
    using release_ok(2) [OF b, of l rc l'] by simp
  show "view l = (0, False) \<Longrightarrow> lock_read b l \<noteq> None" "view l = (0, False) \<Longrightarrow> lock_write b l \<noteq> None"
    using free unfolding granted_when_free_def by fastforce+
  show "unlock_read b l \<noteq> None" "unlock_write b l \<noteq> None" by (cases b; simp)+
qed

text \<open>The lock of one buffer changes, and with it those who hold it.\<close>

lemma held_update:
  assumes "held view s" and "lr_locks s' = (lr_locks s)(bid := l)"
    and "\<And>x. x \<noteq> bid \<Longrightarrow> reader_of s' x = reader_of s x \<and> writer_of s' x = writer_of s x"
    and "view l = (if reader_of s' bid then 1 else 0, writer_of s' bid)" and "\<not> (reader_of s' bid \<and> writer_of s' bid)"
  shows "held view s'"
  using assms by (simp add: held_def)

lemma held_same:
  assumes "held view s" and "lr_locks s' = lr_locks s" and "reader_of s' = reader_of s" and "writer_of s' = writer_of s"
  shows "held view s'"
  using assms by (simp add: held_def)

section \<open>Steps\<close>

lemma holds_reader: "h_reader h' = h_reader h \<Longrightarrow> holds_read_lock q h' = holds_read_lock q h"
  by (cases q) (simp_all add: fun_eq_iff)

lemma blocked_saves: "blocked p q h \<longleftrightarrow> (\<exists>bid. saves p = Some bid \<and> holds_read_lock q h bid)"
  by (cases "(p, q, h)" rule: blocked.cases) auto

text \<open>A handler takes a lock when it has none, gives back the one it has, or keeps what it has.\<close>

definition takes where
  "takes b q q' h L L' \<longleftrightarrow> (\<exists>bid rc l. lock_read b (L bid) = Some (rc, l) \<and> L' = L(bid := l)
     \<and> (\<forall>x. \<not> holds_read_lock q h x) \<and> (\<forall>x. holds_read_lock q' h x \<longleftrightarrow> x = bid))"

definition gives_back where
  "gives_back b q q' h L L' \<longleftrightarrow> (\<exists>bid rc l. unlock_read b (L bid) = Some (rc, l) \<and> L' = L(bid := l)
     \<and> (\<forall>x. holds_read_lock q h x \<longleftrightarrow> x = bid) \<and> (\<forall>x. \<not> holds_read_lock q' h x))"

lemma takesI:
  "use_lock (lock_read b) bid L = Some L' \<Longrightarrow> (\<And>x. \<not> holds_read_lock q h x) \<Longrightarrow> (\<And>x. holds_read_lock q' h x \<longleftrightarrow> x = bid) \<Longrightarrow>
     takes b q q' h L L'"
  unfolding takes_def by (auto elim!: use_lockD)

lemma gives_backI:
  "use_lock (unlock_read b) bid L = Some L' \<Longrightarrow> (\<And>x. holds_read_lock q h x \<longleftrightarrow> x = bid) \<Longrightarrow> (\<And>x. \<not> holds_read_lock q' h x) \<Longrightarrow>
     gives_back b q q' h L L'"
  unfolding gives_back_def by (auto elim!: use_lockD)

lemma hand_locks_step:
  assumes "hand_may q i" and "hand_step d i q h = Some (q', h')" and "hand_locks b q q' h L = Some L'"
  shows "takes b q q' h L L' \<or> gives_back b q q' h L L' \<or> L' = L \<and> holds_read_lock q' h = holds_read_lock q h"
proof (cases q)
  case (Hand_Read vid n dst)
  then have "q' = Hand_Result vid n dst \<or> (\<exists>rc. q' = Hand_Return vid n rc dst)"
    using assms(2) by (auto simp: Let_def bind_eq_Some_conv split: if_splits)
  then show ?thesis
  proof
    assume q': "q' = Hand_Result vid n dst"
    then obtain bid where "pos_buffer (h_reader h vid) = Some bid" "use_lock (lock_read b) bid L = Some L'"
      using Hand_Read assms(3) by (auto simp: bind_eq_Some_conv)
    then have "takes b q q' h L L'" using Hand_Read q' by (intro takesI) auto
    then show ?thesis by blast
  next
    assume "\<exists>rc. q' = Hand_Return vid n rc dst"
    with Hand_Read assms(3) show ?thesis by (auto simp: fun_eq_iff)
  qed
next
  case (Hand_Data vid n dst code todo)
  then consider "q' = Hand_Finish vid n dst code" | dst' where "q' = Hand_Data vid n dst' code (remove1 i todo)"
    using assms(2) by (auto simp: bind_eq_Some_conv split: if_splits)
  then show ?thesis
  proof cases
    case 1
    then obtain bid where "pos_buffer (h_reader h vid) = Some bid" "use_lock (unlock_read b) bid L = Some L'"
      using Hand_Data assms(3) by (auto simp: bind_eq_Some_conv)
    then have "gives_back b q q' h L L'" using Hand_Data 1 by (intro gives_backI) auto
    then show ?thesis by blast
  next
    case 2
    with Hand_Data assms(3) show ?thesis by (simp add: fun_eq_iff)
  qed
qed (use assms in \<open>auto simp: Let_def bind_eq_Some_conv fun_eq_iff split: if_splits\<close>)

text \<open>Every step is one of the interleaving without locks, or takes a lock.\<close>

lemma locked_step_race:
  assumes inv: "locked_inv view b d lib r h0 s" and step: "locked_step b d lib r s l s'"
  shows "case l of None \<Rightarrow> lr_race s' = lr_race s | Some t \<Rightarrow> race_step d lib r (lr_race s) t (lr_race s')"
  using step
proof cases
  case (locked_read i p h L)
  have "\<not> blocked (rc_read (lr_race s)) (rc_hand (lr_race s)) (rc_heap (lr_race s))"
  proof
    assume "blocked (rc_read (lr_race s)) (rc_hand (lr_race s)) (rc_heap (lr_race s))"
    then obtain bid where "saves (rc_read (lr_race s)) = Some bid" "reader_of s bid"
      unfolding blocked_saves reader_of_def by blast
    moreover have "\<not> (reader_of s bid \<and> writer_of s bid)" using inv by (simp add: locked_inv_def held_def)
    ultimately show False using locked_read(4) by (simp add: writer_of_def)
  qed
  from race_read [OF locked_read(3) this locked_read(5)] locked_read(1,2) show ?thesis by simp
next
  case (locked_hand i q h L)
  from race_hand [OF locked_hand(3,4)] locked_hand(1,2) show ?thesis by simp
qed simp_all

lemma same_reader:
  assumes "race_inv d lib r h0 s" and "race_inv d lib r h0 s'"
  shows "h_reader (rc_heap s') = h_reader (rc_heap s)"
  using race_frameD(2) [OF scan_invD(2) [OF race_invD(2) [OF assms(1)]]]
    race_frameD(2) [OF scan_invD(2) [OF race_invD(2) [OF assms(2)]]] by simp

lemma locked_inv_step:
  assumes inv: "locked_inv view b d lib r h0 s" and step: "locked_step b d lib r s l s'"
  shows "locked_inv view b d lib r h0 s'"
proof -
  have f: "faultless view b" and race: "race_inv d lib r h0 (lr_race s)" and held: "held view s"
    and sav: "lr_saving s \<longrightarrow> saves (rc_read (lr_race s)) \<noteq> None" using inv by (simp_all add: locked_inv_def)
  have race': "race_inv d lib r h0 (lr_race s')"
    using locked_step_race [OF inv step] race race_inv_step(1) [OF race] by (auto split: option.splits)
  note rd = same_reader [OF race race']
  have v: "view (lr_locks s bid) = (if reader_of s bid then 1 else 0, writer_of s bid)"
    "\<not> (reader_of s bid \<and> writer_of s bid)" for bid using held by (simp_all add: held_def)
  have "held view s' \<and> (lr_saving s' \<longrightarrow> saves (rc_read (lr_race s')) \<noteq> None)"
    using step
  proof cases
    case (locked_acquire bid L)
    obtain rc k where k: "lock_write b (lr_locks s bid) = Some (rc, k)" "L = (lr_locks s)(bid := k)"
      using locked_acquire(5) by (rule use_lockD)
    have "acquires_write (view (lr_locks s bid)) (view k)" by (rule faultlessD(2) [OF f k(1)])
    then have "\<not> reader_of s bid" "view k = (0, True)" using v(1) [of bid] by (auto simp: acquires_write_def split: if_splits)
    with locked_acquire k show ?thesis
      by (intro conjI held_update [OF held, where bid = bid and l = k]) (auto simp: reader_of_def writer_of_def)
  next
    case (locked_read i p h L)
    have reader: "reader_of s' = reader_of s"
      using holds_reader [OF rd] locked_read(2) by (simp add: reader_of_def fun_eq_iff)
    have writer: "writer_of s' x = False" for x using locked_read(2) by (simp add: writer_of_def)
    show ?thesis
    proof (cases "saves (rc_read (lr_race s))")
      case None
      then have "writer_of s' = writer_of s" using writer by (simp add: writer_of_def fun_eq_iff)
      moreover have "lr_locks s' = lr_locks s" using None locked_read(2,6) by (simp add: scan_unlocks_def)
      ultimately have "held view s'" using reader by (intro held_same [OF held])
      with locked_read(2) show ?thesis by simp
    next
      case (Some bid)
      then have w: "writer_of s bid" "\<And>x. x \<noteq> bid \<Longrightarrow> \<not> writer_of s x" using locked_read(4) by (simp_all add: writer_of_def)
      obtain rc k where k: "unlock_write b (lr_locks s bid) = Some (rc, k)" "L = (lr_locks s)(bid := k)"
        using locked_read(6) Some by (auto simp: scan_unlocks_def elim: use_lockD)
      have "\<not> reader_of s bid" "view (lr_locks s bid) = (0, True)" using v [of bid] w(1) by simp_all
      with faultlessD(4) [OF f k(1)] have "view k = (0, False)" "\<not> reader_of s bid" by simp_all
      with k(2) locked_read(2) w(2) reader writer show ?thesis
        by (intro conjI held_update [OF held, where bid = bid and l = k]) simp_all
    qed
  next
    case (locked_hand i q h L)
    let ?q = "rc_hand (lr_race s)" and ?h = "rc_heap (lr_race s)"
    have writer: "writer_of s' = writer_of s" using locked_hand(2) by (simp add: writer_of_def fun_eq_iff)
    have reader: "reader_of s' = holds_read_lock q ?h" "reader_of s = holds_read_lock ?q ?h"
      using holds_reader [OF rd] locked_hand(2) by (simp_all add: reader_of_def fun_eq_iff)
    have locks: "lr_locks s' = L" using locked_hand(2) by simp
    have "held view s'"
      using hand_locks_step [OF locked_hand(3,4,5)]
    proof (elim disjE)
      assume "takes b ?q q ?h (lr_locks s) L"
      then obtain bid rc k where k: "lock_read b (lr_locks s bid) = Some (rc, k)" "L = (lr_locks s)(bid := k)"
        and no: "\<And>x. \<not> reader_of s x" and one: "\<And>x. reader_of s' x \<longleftrightarrow> x = bid"
        unfolding takes_def reader by blast
      have "acquires_read (view (lr_locks s bid)) (view k)" by (rule faultlessD(1) [OF f k(1)])
      then have "\<not> writer_of s bid" "view k = (1, False)" using v(1) [of bid] no by (simp_all add: acquires_read_def)
      with k(2) no one writer locks show ?thesis
        by (intro held_update [OF held, where bid = bid and l = k]) simp_all
    next
      assume "gives_back b ?q q ?h (lr_locks s) L"
      then obtain bid rc k where k: "unlock_read b (lr_locks s bid) = Some (rc, k)" "L = (lr_locks s)(bid := k)"
        and one: "\<And>x. reader_of s x \<longleftrightarrow> x = bid" and no: "\<And>x. \<not> reader_of s' x"
        unfolding gives_back_def reader by blast
      have "\<not> writer_of s bid" "view (lr_locks s bid) = (1, False)" using v [of bid] one by simp_all
      with faultlessD(3) [OF f k(1)] k(2) no one writer locks show ?thesis
        by (intro held_update [OF held, where bid = bid and l = k]) simp_all
    next
      assume "L = lr_locks s \<and> holds_read_lock q ?h = holds_read_lock ?q ?h"
      with writer locks reader show ?thesis by (intro held_same [OF held]) simp_all
    qed
    with sav locked_hand(2) show ?thesis by simp
  next
    case (locked_outside s1)
    have "rc_read s1 = rc_read (lr_race s) \<and> holds_read_lock (rc_hand s1) (rc_heap (lr_race s)) = holds_read_lock (rc_hand (lr_race s)) (rc_heap (lr_race s))"
      using locked_outside(3)
    proof cases
      case (race_begin vid n dst)
      have "holds_read_lock q h = (\<lambda>x. False)" if "\<not> hand_busy q" for q and h :: "'b heap"
        using that by (cases q) (simp_all add: fun_eq_iff)
      with race_begin show ?thesis by (simp add: fun_eq_iff)
    qed simp_all
    then have "reader_of s' = reader_of s" "writer_of s' = writer_of s" "rc_read (lr_race s') = rc_read (lr_race s)"
      using holds_reader [OF rd] locked_outside(2) by (simp_all add: reader_of_def writer_of_def fun_eq_iff)
    moreover have "lr_locks s' = lr_locks s" "lr_saving s' = lr_saving s" using locked_outside(2) by simp_all
    ultimately show ?thesis using sav held_same [OF held, of s'] by simp
  qed
  with f race' show ?thesis by (simp add: locked_inv_def)
qed

section \<open>The two systems reach the same states\<close>

lemma locked_start_inv: "locked_start view b d r h0 s \<Longrightarrow> locked_inv view b d lib r h0 s"
  using race_start_inv [of d r h0 "lr_race s" lib]
  by (auto simp: locked_start_def locked_inv_def held_def reader_of_def writer_of_def race_start_def)

interpretation lockm: simulation "locked_start view b d r h0" "locked_step b d lib r" "locked_inv view b d lib r h0"
    lr_race "\<lambda>l. case l of None \<Rightarrow> [] | Some t \<Rightarrow> [t]" "\<lambda>s ts s'. \<exists>t. ts = [t] \<and> race_step d lib r s t s'"
    for view b d lib r h0
proof
  show "locked_start view b d r h0 s \<Longrightarrow> locked_inv view b d lib r h0 s" for s by (rule locked_start_inv)
  show "locked_inv view b d lib r h0 s \<Longrightarrow> locked_step b d lib r s l s' \<Longrightarrow> locked_inv view b d lib r h0 s'" for s l s'
    by (rule locked_inv_step)
  show "locked_inv view b d lib r h0 s \<Longrightarrow> locked_step b d lib r s l s' \<Longrightarrow>
     (\<exists>t. (case l of None \<Rightarrow> [] | Some t \<Rightarrow> [t]) = [t] \<and> race_step d lib r (lr_race s) t (lr_race s'))
     \<or> lr_race s' = lr_race s \<and> (case l of None \<Rightarrow> [] | Some t \<Rightarrow> [t]) = []" for s l s'
    using locked_step_race [of view b d lib r h0 s l s'] by (cases l) simp_all
qed

lemma locked_reach_race:
  assumes "reach (locked_start view b d r h0) (locked_step b d lib r) s"
  shows "reach (race_start d r h0) (race_step d lib r) (lr_race s)"
  using assms
proof (induction rule: reach.induct)
  case (reach_init s)
  then have "race_start d r h0 (lr_race s)" by (simp add: locked_start_def)
  then show ?case by (rule reach.reach_init)
next
  case (reach_step s l s')
  from locked_step_race [OF lockm.reach_inv [OF reach_step(1)] reach_step(2)] reach.reach_step [OF reach_step(3)] reach_step(3)
  show ?case by (cases l) auto
qed

text \<open>What the threads can do with the locks.\<close>

lemma locked_invD:
  assumes "locked_inv view b d lib r h0 s"
  shows "faultless view b" and "race_inv d lib r h0 (lr_race s)" and "held view s"
    and "lr_saving s \<Longrightarrow> saves (rc_read (lr_race s)) \<noteq> None"
    and "view (lr_locks s bid) = (if reader_of s bid then 1 else 0, writer_of s bid)"
  using assms by (simp_all add: locked_inv_def held_def)

lemma hand_variable:
  assumes "race_inv d lib r h0 s" and "hand_call (rc_hand s) = Some (vid, n)" and "hand_busy (rc_hand s)"
  shows "pos_buffer (h_reader (rc_heap s) vid) \<noteq> None"
proof -
  note v = race_invD [OF assms(1)]
  have "call_ok r h0 vid n dst \<longrightarrow> vid \<in> set (req_variables r)" for dst by (simp add: call_ok_def)
  then have "vid \<in> set (req_variables r)" using v(3) assms(2,3) by (cases "rc_hand s") auto
  from slot_facts [OF scan_invD(1) [OF v(2)] this] show ?thesis by auto
qed

lemma hand_locks_defined:
  assumes inv: "locked_inv view b d lib r h0 s" and may: "hand_may (rc_hand (lr_race s)) i"
    and step: "hand_step d i (rc_hand (lr_race s)) (rc_heap (lr_race s)) = Some (q, h)" and free: "\<not> lr_saving s"
  shows "\<exists>L. hand_locks b (rc_hand (lr_race s)) q (rc_heap (lr_race s)) (lr_locks s) = Some L"
proof -
  let ?q = "rc_hand (lr_race s)" and ?h = "rc_heap (lr_race s)"
  note v = locked_invD [OF inv] and f = faultlessD [OF locked_invD(1) [OF inv]]
  show ?thesis
  proof (cases ?q)
    case (Hand_Read vid n dst)
    then obtain bid where bid: "pos_buffer (h_reader ?h vid) = Some bid" using hand_variable [OF v(2)] by auto
    have "view (lr_locks s bid) = (0, False)" using v(5) [of bid] Hand_Read free by (simp add: reader_of_def writer_of_def)
    then have "lock_read b (lr_locks s bid) \<noteq> None" by (rule f(5))
    with Hand_Read bid show ?thesis by (cases q) (auto simp: use_lock_def)
  next
    case (Hand_Data vid n dst code todo)
    then obtain bid where bid: "pos_buffer (h_reader ?h vid) = Some bid" using hand_variable [OF v(2)] by auto
    with Hand_Data f(7) [of "lr_locks s bid"] show ?thesis by (cases q) (auto simp: use_lock_def)
  qed simp_all
qed

text \<open>Giving a lock back never waits.\<close>

lemma scan_unlocks_defined: "faultless view b \<Longrightarrow> \<exists>L'. scan_unlocks b p L = Some L'"
  using faultlessD(8) [of view b] by (auto simp: scan_unlocks_def use_lock_def split: option.split)

lemma scan_acquires:
  assumes "locked_inv view b d lib r h0 s" and "saves (rc_read (lr_race s)) = Some bid" and "\<not> lr_saving s" and "\<not> reader_of s bid"
  shows "\<exists>L. locked_step b d lib r s None (s\<lparr>lr_locks := L, lr_saving := True\<rparr>)"
proof -
  note v = locked_invD [OF assms(1)]
  have "view (lr_locks s bid) = (0, False)" using v(5) [of bid] assms(3,4) by (simp add: writer_of_def)
  from faultlessD(6) [OF v(1) this] obtain L where "use_lock (lock_write b) bid (lr_locks s) = Some L"
    by (auto simp: use_lock_def)
  from locked_acquire [OF assms(2,3) this] show ?thesis by blast
qed

text \<open>Each step of the interleaving without locks can be made with them, in one step or two.\<close>

lemma race_step_locked:
  assumes s: "reach (locked_start view b d r h0) (locked_step b d lib r) s" and free: "\<not> lr_saving s"
    and step: "race_step d lib r (lr_race s) t x"
  shows "\<exists>s'. reach (locked_start view b d r h0) (locked_step b d lib r) s' \<and> \<not> lr_saving s' \<and> lr_race s' = x"
proof -
  note inv = lockm.reach_inv [OF s]
  note v = locked_invD [OF inv]
  have outside: ?thesis if "t = Outside"
    using reach_step [OF s locked_outside [OF step [unfolded that]]] free by (intro exI [of _ "s\<lparr>lr_race := x\<rparr>"]) simp
  show ?thesis
    using step
  proof cases
    case (race_read i p h)
    obtain s1 where s1: "reach (locked_start view b d r h0) (locked_step b d lib r) s1" "lr_race s1 = lr_race s"
      and sav: "saves (rc_read (lr_race s)) \<noteq> None \<longrightarrow> lr_saving s1"
    proof (cases "saves (rc_read (lr_race s))")
      case None
      with that [OF s] show ?thesis by simp
    next
      case (Some bid)
      have "\<not> reader_of s bid" using race_read(4) Some by (auto simp: blocked_saves reader_of_def)
      from scan_acquires [OF inv Some free this] reach_step [OF s] that show ?thesis by fastforce
    qed
    obtain L where L: "scan_unlocks b (rc_read (lr_race s1)) (lr_locks s1) = Some L"
      using scan_unlocks_defined [OF v(1)] by blast
    from reach_step [OF s1(1) locked_read [of s1, unfolded s1(2), OF race_read(3) sav race_read(5) L [unfolded s1(2)]]]
      race_read(2) show ?thesis by fastforce
  next
    case (race_hand i q h)
    obtain L where "hand_locks b (rc_hand (lr_race s)) q (rc_heap (lr_race s)) (lr_locks s) = Some L"
      using hand_locks_defined [OF inv race_hand(3,4) free] by blast
    from reach_step [OF s locked_hand [OF race_hand(3,4) this]] race_hand(2) free show ?thesis by fastforce
  qed (use outside in blast)+
qed

text \<open>
  C12. The interleavings are those of the code with its locks: over a library whose locks exclude as
  documented, and that acquires without errors a lock that nobody holds, exactly the same states of
  the scan thread, the handler and the memory are reached whether the threads call \<open>lock_read\<close>,
  \<open>unlock_read\<close>, \<open>lock_write\<close> and \<open>unlock_write\<close> or follow the rule \<open>blocked\<close>. And the lock of each
  buffer has as its holders the handler that copies from the buffer and the scan thread that saves it,
  never both.
\<close>

theorem locked_races_equal:
  assumes "faultless view b" and "view l0 = (0, False)"
  shows "(reach (race_start d r h0) (race_step d lib r) x \<longleftrightarrow>
      (\<exists>s. reach (locked_start view b d r h0) (locked_step b d lib r) s \<and> \<not> lr_saving s \<and> lr_race s = x))
    \<and> (\<forall>s bid. reach (locked_start view b d r h0) (locked_step b d lib r) s \<longrightarrow>
      view (lr_locks s bid) = (if reader_of s bid then 1 else 0, writer_of s bid) \<and> \<not> (reader_of s bid \<and> writer_of s bid))"
proof (intro conjI iffI allI impI)
  show "\<exists>s. reach (locked_start view b d r h0) (locked_step b d lib r) s \<and> \<not> lr_saving s \<and> lr_race s = x"
    if "reach (race_start d r h0) (race_step d lib r) x"
    using that
  proof (induction rule: reach.induct)
    case (reach_init x)
    let ?s = "\<lparr>lr_race = x, lr_locks = (\<lambda>_. l0), lr_saving = False\<rparr>"
    have "locked_start view b d r h0 ?s" using assms reach_init by (simp add: locked_start_def)
    from reach.reach_init [of "locked_start view b d r h0", OF this] show ?case by fastforce
  next
    case (reach_step x t y)
    then obtain s where "reach (locked_start view b d r h0) (locked_step b d lib r) s" "\<not> lr_saving s" "lr_race s = x" by blast
    with reach_step(2) show ?case using race_step_locked by blast
  qed
next
  assume "\<exists>s. reach (locked_start view b d r h0) (locked_step b d lib r) s \<and> \<not> lr_saving s \<and> lr_race s = x"
  then show "reach (race_start d r h0) (race_step d lib r) x" using locked_reach_race by blast
next
  fix s bid assume "reach (locked_start view b d r h0) (locked_step b d lib r) s"
  then have "held view s" by (rule locked_invD(3) [OF lockm.reach_inv])
  then show "view (lr_locks s bid) = (if reader_of s bid then 1 else 0, writer_of s bid)"
    "\<not> (reader_of s bid \<and> writer_of s bid)" unfolding held_def by blast+
qed

text \<open>The torn read of \<open>Race_Example\<close>, with the locks.\<close>

lemma example_mutex_faultless: "faultless (\<lambda>l. l) (Boost example_mutex)"
  using example_mutex_ok by (auto simp: faultless_def granted_when_free_def example_mutex_def split: if_splits)

theorem locked_races_equal_witness:
  "\<exists>r (h0 :: nat heap) s. reach (locked_start (\<lambda>l. l) (Boost example_mutex) ads_def_documented r h0)
      (locked_step (Boost example_mutex) ads_def_documented (constant_lib 9) r) s
    \<and> rc_hand (lr_race s) = Hand_Return 3 2 0 [9, 7]"
proof -
  let ?d = ads_def_documented and ?lib = "constant_lib 9"
  obtain h0 :: "nat heap" and r s where start: "reach (race_start ?d r h0) (race_step ?d ?lib r) s" "rc_hand s = Hand_Start 3 2 [0, 0]"
    and read: "read_from_buffer ?d 3 2 (Some [0, 0]) (rc_heap s) = Some (0, Some [9, 7], rc_heap s)"
    by (rule handler_starts)
  from hand_run [OF read] obtain k where
    "steps hand_may (hand_step ?d) (Hand_Start 3 2 [0, 0]) (rc_heap s) k (Hand_Return 3 2 0 [9, 7]) (rc_heap s)" by blast
  from reach_hand_run [OF this start refl] have "reach (race_start ?d r h0) (race_step ?d ?lib r)
      (s\<lparr>rc_hand := Hand_Return 3 2 0 [9, 7], rc_heap := rc_heap s\<rparr>)" .
  then obtain s' where "reach (locked_start (\<lambda>l. l) (Boost example_mutex) ?d r h0) (locked_step (Boost example_mutex) ?d ?lib r) s'"
    "lr_race s' = s\<lparr>rc_hand := Hand_Return 3 2 0 [9, 7], rc_heap := rc_heap s\<rparr>"
    using conjunct1 [OF locked_races_equal [OF example_mutex_faultless refl, of ?d r h0 ?lib]] by blast
  then show ?thesis by (intro exI [of _ r] exI [of _ h0] exI [of _ s']) simp
qed

section \<open>Nobody waits forever for a lock\<close>

definition scan_label :: "thread option \<Rightarrow> bool" where
  "scan_label l \<longleftrightarrow> l = None \<or> l = Some Scan_thread"

definition locked_rank :: "sum_read_request \<Rightarrow> ('e, 'l) locked_race \<Rightarrow> nat" where
  "locked_rank r s = 2 * read_rank r (rc_read (lr_race s)) (rc_heap (lr_race s)) + (if lr_saving s then 0 else 1)"

interpretation lockr: ranked "locked_start view b d r h0" "locked_step b d lib r" "locked_inv view b d lib r h0"
    scan_label "\<lambda>_. True" "locked_rank r" for view b d lib r h0
proof
  show "locked_rank r s' < locked_rank r s"
    if inv: "locked_inv view b d lib r h0 s" and step: "locked_step b d lib r s l s'" and own: "scan_label l" for s l s'
  proof -
    note race = locked_step_race [OF inv step]
    show ?thesis
      using step
    proof cases
      case (locked_read i p h L)
      have "race_step d lib r (lr_race s) Scan_thread (lr_race s')" using race locked_read(1) by simp
      from race_inv_step(2) [OF locked_invD(2) [OF inv] this refl] have
        "read_rank r (rc_read (lr_race s')) (rc_heap (lr_race s')) < read_rank r (rc_read (lr_race s)) (rc_heap (lr_race s))" .
      then show ?thesis by (simp add: locked_rank_def)
    qed (use own in \<open>simp_all add: locked_rank_def scan_label_def\<close>)
  qed
  show "locked_rank r s' \<le> locked_rank r s"
    if inv: "locked_inv view b d lib r h0 s" and step: "locked_step b d lib r s l s'" and own: "\<not> scan_label l" for s l s'
  proof -
    obtain t where t: "l = Some t" "t \<noteq> Scan_thread" using own by (cases l) (auto simp: scan_label_def)
    have "race_step d lib r (lr_race s) t (lr_race s')" using locked_step_race [OF inv step] t by simp
    from race_inv_step(3) [OF locked_invD(2) [OF inv] this t(2)] have
      "read_rank r (rc_read (lr_race s')) (rc_heap (lr_race s')) = read_rank r (rc_read (lr_race s)) (rc_heap (lr_race s))" .
    moreover have "lr_saving s' = lr_saving s" using step t by cases simp_all
    ultimately show ?thesis by (simp add: locked_rank_def)
  qed
qed

lemma hand_moves:
  assumes inv: "locked_inv view b d lib r h0 s" and busy: "hand_busy (rc_hand (lr_race s))"
    and free: "\<not> lr_saving s"
  shows "\<exists>s'. locked_step b d lib r s (Some Handler_thread) s'"
proof -
  note v = race_invD [OF locked_invD(2) [OF inv]]
  have "rc_hand (lr_race s) \<noteq> Hand_Idle" "hand_result (rc_hand (lr_race s)) = None" using busy by (cases "rc_hand (lr_race s)"; simp)+
  then obtain i where i: "hand_may (rc_hand (lr_race s)) i" using hand.may_step by blast
  obtain q h where q: "hand_step d i (rc_hand (lr_race s)) (rc_heap (lr_race s)) = Some (q, h)"
    using hand_inv_step [OF v(2,3) i v(4)] by blast
  obtain L where "hand_locks b (rc_hand (lr_race s)) q (rc_heap (lr_race s)) (lr_locks s) = Some L"
    using hand_locks_defined [OF inv i q free] by blast
  from locked_hand [OF i q this] show ?thesis by blast
qed

lemma scan_moves_locked:
  assumes inv: "locked_inv view b d lib r h0 s" and res: "read_result (rc_read (lr_race s)) = None"
    and free: "saves (rc_read (lr_race s)) \<noteq> None \<longrightarrow> lr_saving s"
  shows "\<exists>s'. locked_step b d lib r s (Some Scan_thread) s'"
proof -
  have ok: "read_ok r (rc_read (lr_race s)) (rc_heap (lr_race s))"
    by (rule scan_invD(1) [OF race_invD(2) [OF locked_invD(2) [OF inv]]])
  obtain i where i: "read_may (rc_read (lr_race s)) i" using reader.may_step [OF ok res] by blast
  obtain p h where p: "read_step d lib r i (rc_read (lr_race s)) (rc_heap (lr_race s)) = Some (p, h)"
    using read_step_ok [OF ok i] by blast
  obtain L where "scan_unlocks b (rc_read (lr_race s)) (lr_locks s) = Some L"
    using scan_unlocks_defined [OF locked_invD(1) [OF inv]] by blast
  from locked_read [OF i free p this] show ?thesis by blast
qed

text \<open>
  C13. With the locks too nobody waits forever. The scan thread returns from \<open>read\<close> after at most twice as
  many steps as without them, and one. Until it has returned it can go on, or it waits for the lock
  of a buffer that a handler is reading, and that handler can go on; a handler that has not returned
  can go on, or it waits for the scan thread, which is in \<open>save_buffer\<close> and can go on. A handler that holds
  a lock never waits: so there is no deadlock over the locks of the buffers.
\<close>

theorem locked_races_end:
  assumes "locked_start view b d r h0 s0"
  shows "(\<forall>n s. run_while (locked_step b d lib r) scan_label (\<lambda>_. True) s0 n s \<longrightarrow>
       n \<le> 2 * sum_list (map (\<lambda>c. buf_buffer_size (h_buf h0 (chunk_buffer c)) + 4) (get_chunks r)) + 7)
   \<and> (\<forall>s. reach (locked_start view b d r h0) (locked_step b d lib r) s \<longrightarrow> read_result (rc_read (lr_race s)) = None \<longrightarrow>
       (\<exists>l s'. scan_label l \<and> locked_step b d lib r s l s')
       \<or> (\<exists>bid. saves (rc_read (lr_race s)) = Some bid \<and> reader_of s bid) \<and> (\<exists>s'. locked_step b d lib r s (Some Handler_thread) s'))
   \<and> (\<forall>s. reach (locked_start view b d r h0) (locked_step b d lib r) s \<longrightarrow> hand_busy (rc_hand (lr_race s)) \<longrightarrow>
       (\<exists>s'. locked_step b d lib r s (Some Handler_thread) s')
       \<or> lr_saving s \<and> (\<exists>s'. locked_step b d lib r s (Some Scan_thread) s'))"
proof (intro conjI allI impI)
  fix n s assume run: "run_while (locked_step b d lib r) scan_label (\<lambda>_. True) s0 n s"
  have "lr_race s0 = \<lparr> rc_read = Read_Start, rc_hand = Hand_Idle, rc_heap = h0, rc_answers = (\<lambda>_. None) \<rparr>" "\<not> lr_saving s0"
    using assms by (simp_all add: locked_start_def race_start_def)
  then have "locked_rank r s0 = 2 * sum_list (map (\<lambda>c. buf_buffer_size (h_buf h0 (chunk_buffer c)) + 4) (get_chunks r)) + 7"
    using read_rank_start [of r h0] by (simp add: locked_rank_def del: read_rank.simps)
  with lockr.run_bound [OF run lockm.inv_init [OF assms]]
  show "n \<le> 2 * sum_list (map (\<lambda>c. buf_buffer_size (h_buf h0 (chunk_buffer c)) + 4) (get_chunks r)) + 7" by simp
next
  fix s assume s: "reach (locked_start view b d r h0) (locked_step b d lib r) s" and res: "read_result (rc_read (lr_race s)) = None"
  note inv = lockm.reach_inv [OF s]
  show "(\<exists>l s'. scan_label l \<and> locked_step b d lib r s l s')
       \<or> (\<exists>bid. saves (rc_read (lr_race s)) = Some bid \<and> reader_of s bid) \<and> (\<exists>s'. locked_step b d lib r s (Some Handler_thread) s')"
  proof (cases "saves (rc_read (lr_race s)) \<noteq> None \<and> \<not> lr_saving s")
    case False
    with scan_moves_locked [OF inv res] show ?thesis unfolding scan_label_def by blast
  next
    case True
    then obtain bid where bid: "saves (rc_read (lr_race s)) = Some bid" by blast
    show ?thesis
    proof (cases "reader_of s bid")
      case False
      with scan_acquires [OF inv bid] True show ?thesis unfolding scan_label_def by blast
    next
      case r: True
      then have "hand_busy (rc_hand (lr_race s))" by (cases "rc_hand (lr_race s)") (simp_all add: reader_of_def)
      with hand_moves [OF inv] True bid r show ?thesis by blast
    qed
  qed
next
  fix s assume s: "reach (locked_start view b d r h0) (locked_step b d lib r) s" and busy: "hand_busy (rc_hand (lr_race s))"
  note inv = lockm.reach_inv [OF s]
  show "(\<exists>s'. locked_step b d lib r s (Some Handler_thread) s')
       \<or> lr_saving s \<and> (\<exists>s'. locked_step b d lib r s (Some Scan_thread) s')"
  proof (cases "lr_saving s")
    case True
    then have "read_result (rc_read (lr_race s)) = None" using locked_invD(4) [OF inv] by (cases "rc_read (lr_race s)") auto
    with scan_moves_locked [OF inv] True show ?thesis by blast
  qed (use hand_moves [OF inv busy] in blast)
qed

theorem locked_races_end_witness:
  "\<exists>r (h0 :: nat heap) s. reach (locked_start (\<lambda>l. l) (Boost example_mutex) ads_def_documented r h0)
      (locked_step (Boost example_mutex) ads_def_documented (constant_lib 9) r) s
    \<and> rc_read (lr_race s) = Read_Start
    \<and> (\<exists>l s'. scan_label l \<and> locked_step (Boost example_mutex) ads_def_documented (constant_lib 9) r s l s')"
proof -
  let ?d = ads_def_documented and ?b = "Boost example_mutex"
  obtain h0 :: "nat heap" and r where ex: "example_read example_resolved h0 r"
    using example_read_exists [OF example_resolved_ok] by blast
  have "race_start ?d r h0 (example_race h0)" using ex by (intro example_race_start) (simp_all add: example_read_def)
  let ?s = "\<lparr>lr_race = example_race h0, lr_locks = (\<lambda>_. (0, False)), lr_saving = False\<rparr> :: (nat, holders) locked_race"
  have start: "locked_start (\<lambda>l. l) ?b ?d r h0 ?s"
    using \<open>race_start ?d r h0 (example_race h0)\<close> example_mutex_faultless by (simp add: locked_start_def)
  then have s: "reach (locked_start (\<lambda>l. l) ?b ?d r h0) (locked_step ?b ?d (constant_lib 9) r) ?s" by (rule reach_init)
  have "rc_read (lr_race ?s) = Read_Start" by (simp add: example_race_def)
  with conjunct1 [OF conjunct2 [OF locked_races_end [OF start, of "constant_lib 9"]]] s
  have "\<exists>l s'. scan_label l \<and> locked_step ?b ?d (constant_lib 9) r ?s l s'" by fastforce
  with s \<open>rc_read (lr_race ?s) = Read_Start\<close> show ?thesis by blast
qed

end
