(* ===== verification/Request_Memory.thy ===== *)
theory Request_Memory
  imports Request_Props
begin

text \<open>
  Allocation of a sum-read request when any of the allocations may fail whose failure the code handles: the
  three \<open>push_back\<close> calls and the two \<open>calloc\<close> calls of \<open>alloc_site\<close>. The two \<open>push_back\<close> calls at the end
  of \<open>ReadRequestChunk::add_variable\<close> run after the variable was given its place in the buffer, and nothing
  takes that back when one of them throws: that run is compared with the one in which the buffer refuses the
  variable in the first place.
\<close>

section \<open>The run in which the buffer refuses instead\<close>

definition covered :: "(alloc_site \<Rightarrow> bool) \<Rightarrow> alloc_site \<Rightarrow> bool" where
  "covered mem s =
     (case s of
        Push_variable bid vid \<Rightarrow> mem s \<and> mem (Push_request bid vid) \<and> mem (Push_chunk_variable bid vid)
      | Push_request bid vid \<Rightarrow> True
      | Push_chunk_variable bid vid \<Rightarrow> True
      | _ \<Rightarrow> mem s)"

lemma covered_simps [simp]:
  "covered mem (Push_variable bid vid) \<longleftrightarrow>
     mem (Push_variable bid vid) \<and> mem (Push_request bid vid) \<and> mem (Push_chunk_variable bid vid)"
  "covered mem (Push_request bid vid)" "covered mem (Push_chunk_variable bid vid)"
  "covered mem (Calloc_buffer bid) = mem (Calloc_buffer bid)" "covered mem (Calloc_prev bid) = mem (Calloc_prev bid)"
  "covered (\<lambda>_. True) = (\<lambda>_. True)"
  by (simp_all add: covered_def fun_eq_iff split: alloc_site.split)

lemma covered_request_mem [simp]: "request_mem (covered mem)"
  by (simp add: request_mem_def)

text \<open>
  What the failure leaves behind: the variable's reader points into the buffer \<open>bid\<close>, of which no chunk
  knows that it has the variable.
\<close>

definition left_behind :: "(alloc_site \<Rightarrow> bool) \<Rightarrow> nat \<Rightarrow> nat \<Rightarrow> 'e heap \<Rightarrow> 'e heap \<Rightarrow> bool" where
  "left_behind mem vid bid h1 h2 \<longleftrightarrow> \<not> (mem (Push_request bid vid) \<and> mem (Push_chunk_variable bid vid))
     \<and> (\<exists>pos. pos_buffer pos = Some bid \<and> h_vars h1 = (h_vars h2)(vid := set_buffer_reader pos (h_vars h2 vid)))
     \<and> (\<forall>b. b \<noteq> bid \<longrightarrow> h_bufs h1 b = h_bufs h2 b)
     \<and> h_env h1 = h_env h2 \<and> h_conn h1 = h_conn h2 \<and> h_next_buf h1 = h_next_buf h2"

lemma buf_add_covered:
  obtains (same) "buf_add_variable (covered mem) bid vid v b = buf_add_variable mem bid vid v b"
      and "mem (Push_request bid vid) \<and> mem (Push_chunk_variable bid vid) \<or> fst (buf_add_variable mem bid vid v b) \<noteq> 0"
  | (fails) pos b' where "\<not> (mem (Push_request bid vid) \<and> mem (Push_chunk_variable bid vid))"
      and "buf_add_variable (covered mem) bid vid v b = (EPICSADS_ERROR, v, b)"
      and "buf_add_variable mem bid vid v b = (0, set_buffer_reader pos v, b')" and "pos_buffer pos = Some bid"
proof (cases "mem (Push_request bid vid) \<and> mem (Push_chunk_variable bid vid)")
  case True
  then have "buf_add_variable (covered mem) bid vid v b = buf_add_variable mem bid vid v b"
    by (simp add: buf_add_variable_def Let_def)
  with True same show ?thesis by blast
next
  case False
  show ?thesis
  proof (cases "fst (buf_add_variable mem bid vid v b) = 0")
    case True
    obtain v' b' where a: "buf_add_variable mem bid vid v b = (0, v', b')"
      using True by (cases "buf_add_variable mem bid vid v b") auto
    let ?pos = "\<lparr> pos_buffer = Some bid, pos_off_result = buf_next_result_offset b, pos_off_data = buf_next_data_offset b \<rparr>"
    have g: "\<not> buf_initialized b" "get_num_variables b \<noteq> buf_max_nvariables b" "\<not> at_capacity b"
      "\<not> u64 (buf_buffer_size b + var_size v + result_size) < buf_buffer_size b" "v' = set_buffer_reader ?pos v"
      using a by (auto simp: buf_add_variable_def Let_def split: if_splits)
    have "buf_add_variable (covered mem) bid vid v b = (EPICSADS_ERROR, v, b)"
      using g(1-4) False by (simp add: buf_add_variable_def Let_def)
    with fails [of ?pos b'] False a g(5) show ?thesis by simp
  next
    case ne: False
    have "buf_add_variable (covered mem) bid vid v b = buf_add_variable mem bid vid v b"
      using ne unfolding buf_add_variable_def Let_def by (simp split: if_splits)
    with ne same show ?thesis by blast
  qed
qed

lemma chunk_add_covered:
  assumes "chunk_add_variable mem vid c h = (ok, c1, h1)"
  shows "\<exists>c2 h2. chunk_add_variable (covered mem) vid c h = (ok, c2, h2)
    \<and> (c2 = c1 \<and> h2 = h1
       \<or> \<not> ok \<and> chunk_variables c2 = chunk_variables c1 \<and> chunk_buffer c2 = chunk_buffer c1
          \<and> left_behind mem vid (chunk_buffer c1) h1 h2)"
proof -
  let ?bid = "chunk_buffer c" and ?v = "h_vars h vid" and ?b = "h_buf h (chunk_buffer c)"
  show ?thesis
  proof (rule buf_add_covered [of mem ?bid vid ?v ?b])
    fix pos b' assume fails: "\<not> (mem (Push_request ?bid vid) \<and> mem (Push_chunk_variable ?bid vid))"
      "buf_add_variable (covered mem) ?bid vid ?v ?b = (EPICSADS_ERROR, ?v, ?b)"
      "buf_add_variable mem ?bid vid ?v ?b = (0, set_buffer_reader pos ?v, b')" "pos_buffer pos = Some ?bid"
    have "h1 = set_buf ?bid b' (upd_var vid (\<lambda>_. set_buffer_reader pos ?v) h)" "\<not> ok"
      "chunk_variables c1 = chunk_variables c" "chunk_buffer c1 = ?bid"
      using assms fails(1,3) by (auto simp: chunk_add_variable_def Let_def split: if_splits)
    then show ?thesis
      using fails by (auto simp: chunk_add_variable_def Let_def left_behind_def set_buf_def upd_var_def)
  next
    assume same: "buf_add_variable (covered mem) ?bid vid ?v ?b = buf_add_variable mem ?bid vid ?v ?b"
      "mem (Push_request ?bid vid) \<and> mem (Push_chunk_variable ?bid vid) \<or> fst (buf_add_variable mem ?bid vid ?v ?b) \<noteq> 0"
    obtain rc v' b' where a: "buf_add_variable mem ?bid vid ?v ?b = (rc, v', b')"
      by (cases "buf_add_variable mem ?bid vid ?v ?b") auto
    have "chunk_add_variable (covered mem) vid c h = (ok, c1, h1)"
      using assms same a by (auto simp: chunk_add_variable_def Let_def split: if_splits)
    then show ?thesis by blast
  qed
qed

section \<open>The request in both runs\<close>

definition alike :: "sum_read_request \<Rightarrow> sum_read_request \<Rightarrow> bool" where
  "alike r1 r2 \<longleftrightarrow> req_max_vars r1 = req_max_vars r2 \<and> req_variables r1 = req_variables r2
     \<and> req_buffers r1 = req_buffers r2"

lemma map_sm_set: "map (map_prod id g) (sm_set k v m) = sm_set k (g v) (map (map_prod id g) m)"
  by (induction k v m rule: sm_set.induct) auto

lemma concat_sm_set:
  assumes "map f cs1 = map f cs2"
  shows "map f (concat (map snd (sm_set k cs1 m))) = map f (concat (map snd (sm_set k cs2 m)))"
proof -
  have "map (map f) (map snd (sm_set k cs m)) = map snd (sm_set k (map f cs) (map (map_prod id (map f)) m))" for cs
    unfolding map_sm_set [symmetric] by simp
  with assms show ?thesis by (metis map_concat)
qed

lemma alike_set:
  assumes "chunk_variables c1 = chunk_variables c2" and "chunk_buffer c1 = chunk_buffer c2"
  shows "alike (r\<lparr>req_chunks := sm_set k (cs @ [c1]) m\<rparr>) (r\<lparr>req_chunks := sm_set k (cs @ [c2]) m\<rparr>)"
  using assms concat_sm_set [of chunk_variables "cs @ [c1]" "cs @ [c2]" k m]
    concat_sm_set [of chunk_buffer "cs @ [c1]" "cs @ [c2]" k m]
  by (simp add: alike_def req_variables_def req_buffers_def get_chunks_def)

lemma chunk_in_set: "c \<in> set cs \<Longrightarrow> chunk_buffer c \<in> set (req_buffers (r\<lparr>req_chunks := sm_set k cs m\<rparr>))"
proof -
  assume c: "c \<in> set cs"
  have "(k, cs) \<in> set (sm_set k cs m)" by (induction k cs m rule: sm_set.induct) auto
  with c show ?thesis by (force simp: req_buffers_def get_chunks_def)
qed

lemma allocate_var_split:
  assumes "allocate_var mem vid h r = Inr (ok, h1, r1)"
  obtains cs h0 c1 where "chunk_with_capacity (addr_ads_port (h_addr h vid)) (req_max_vars r)
        (sm_get [] (find_or_create (addr_ads_port (h_addr h vid)) (req_chunks r)) (addr_ads_port (h_addr h vid))) h = Inr (cs, h0)"
    and "chunk_add_variable mem vid (last cs) h0 = (ok, c1, h1)"
    and "r1 = r\<lparr>req_chunks := sm_set (addr_ads_port (h_addr h vid)) (butlast cs @ [c1])
          (find_or_create (addr_ads_port (h_addr h vid)) (req_chunks r))\<rparr>"
proof -
  let ?p = "addr_ads_port (h_addr h vid)"
  let ?m = "find_or_create ?p (req_chunks r)"
  obtain cs h0 where cap: "chunk_with_capacity ?p (req_max_vars r) (sm_get [] ?m ?p) h = Inr (cs, h0)"
    using assms by (cases "chunk_with_capacity ?p (req_max_vars r) (sm_get [] ?m ?p) h") (auto simp: allocate_var_def Let_def)
  obtain ok' c1 h1' where c1: "chunk_add_variable mem vid (last cs) h0 = (ok', c1, h1')"
    by (cases "chunk_add_variable mem vid (last cs) h0")
  have "ok' = ok" "h1' = h1" "r1 = r\<lparr>req_chunks := sm_set ?p (butlast cs @ [c1]) ?m\<rparr>"
    using assms cap c1 by (simp_all add: allocate_var_def Let_def)
  with that [OF cap] c1 show thesis by simp
qed

lemma allocate_var_covered:
  assumes "allocate_var mem vid h r = Inr (ok, h1, r1)"
  shows "\<exists>h2 r2. allocate_var (covered mem) vid h r = Inr (ok, h2, r2)
    \<and> (h2 = h1 \<and> r2 = r1
       \<or> \<not> ok \<and> alike r1 r2 \<and> (\<exists>bid \<in> set (req_buffers r1). left_behind mem vid bid h1 h2))"
proof -
  let ?p = "addr_ads_port (h_addr h vid)"
  let ?m = "find_or_create ?p (req_chunks r)"
  obtain cs h0 c1 where cap: "chunk_with_capacity ?p (req_max_vars r) (sm_get [] ?m ?p) h = Inr (cs, h0)"
    and c1: "chunk_add_variable mem vid (last cs) h0 = (ok, c1, h1)"
    and r1: "r1 = r\<lparr>req_chunks := sm_set ?p (butlast cs @ [c1]) ?m\<rparr>"
    by (rule allocate_var_split [OF assms])
  obtain c2 h2 where c2: "chunk_add_variable (covered mem) vid (last cs) h0 = (ok, c2, h2)"
    and rel: "c2 = c1 \<and> h2 = h1 \<or> \<not> ok \<and> chunk_variables c2 = chunk_variables c1 \<and> chunk_buffer c2 = chunk_buffer c1
      \<and> left_behind mem vid (chunk_buffer c1) h1 h2"
    using chunk_add_covered [OF c1] by blast
  let ?r2 = "r\<lparr>req_chunks := sm_set ?p (butlast cs @ [c2]) ?m\<rparr>"
  have "allocate_var (covered mem) vid h r = Inr (ok, h2, ?r2)"
    using cap c2 by (simp add: allocate_var_def Let_def)
  moreover have "chunk_buffer c1 \<in> set (req_buffers r1)" unfolding r1 by (rule chunk_in_set) simp
  moreover have "alike r1 ?r2" if "chunk_variables c2 = chunk_variables c1" "chunk_buffer c2 = chunk_buffer c1"
    unfolding r1 using that by (intro alike_set) simp_all
  ultimately show ?thesis using rel r1 by blast
qed

lemma allocate_vars_covered:
  assumes "req_ok h r" and "distinct vids" and "set vids \<inter> set (req_variables r) = {}"
    and "\<forall>vid \<in> set vids. addr_ads_port (h_addr h vid) < 2 ^ 16"
    and "all_bufs blank h (get_chunks r)" and "no_empty_chunk r"
    and "allocate_vars mem vids h r = Inr (ok, h1, r1)"
  shows "\<exists>h2 r2. allocate_vars (covered mem) vids h r = Inr (ok, h2, r2)
    \<and> (h2 = h1 \<and> r2 = r1
       \<or> \<not> ok \<and> alike r1 r2 \<and> (\<exists>vid \<in> set vids. vid \<notin> set (req_variables r1)
            \<and> (\<exists>bid \<in> set (req_buffers r1). left_behind mem vid bid h1 h2)))"
  using assms
proof (induction vids arbitrary: h r)
  case Nil
  then show ?case by simp
next
  case (Cons vid vids)
  have new: "vid \<notin> set (req_variables r)" and port: "addr_ads_port (h_addr h vid) < 2 ^ 16"
    using Cons.prems(3,4) by auto
  obtain ok3 h3 r3 where one: "allocate_var mem vid h r = Inr (ok3, h3, r3)"
    and rest: "if ok3 then allocate_vars mem vids h3 r3 = Inr (ok, h1, r1) else (ok, h1, r1) = (False, h3, r3)"
    using Cons.prems(7) by (auto simp: exn_bind_eq_Inr split: if_splits)
  obtain h4 r4 where two: "allocate_var (covered mem) vid h r = Inr (ok3, h4, r4)"
    and rel: "h4 = h3 \<and> r4 = r3 \<or> \<not> ok3 \<and> alike r3 r4 \<and> (\<exists>bid \<in> set (req_buffers r3). left_behind mem vid bid h3 h4)"
    using allocate_var_covered [OF one] by blast
  note a = allocate_var_ok [OF Cons.prems(1) new port covered_request_mem Cons.prems(5,6) two]
  show ?case
  proof (cases ok3)
    case False
    have "vid \<notin> set (req_variables r3)" if "alike r3 r4" using that a(4) False new by (simp add: alike_def)
    with False rest rel two show ?thesis by auto
  next
    case True
    then have eq: "h4 = h3" "r4 = r3" using rel by auto
    have run: "allocate_vars mem vids h3 r3 = Inr (ok, h1, r1)" using rest True by simp
    have "\<exists>h2 r2. allocate_vars (covered mem) vids h3 r3 = Inr (ok, h2, r2)
      \<and> (h2 = h1 \<and> r2 = r1 \<or> \<not> ok \<and> alike r1 r2 \<and> (\<exists>vid \<in> set vids. vid \<notin> set (req_variables r1)
            \<and> (\<exists>bid \<in> set (req_buffers r1). left_behind mem vid bid h1 h2)))"
      by (rule Cons.IH [OF _ _ _ _ _ _ run])
        (use Cons.prems(2,3,4) a eq True grown_addr [OF a(2)] in auto)
    then obtain h2 r2 where ih: "allocate_vars (covered mem) vids h3 r3 = Inr (ok, h2, r2)"
      "h2 = h1 \<and> r2 = r1 \<or> \<not> ok \<and> alike r1 r2 \<and> (\<exists>vid \<in> set vids. vid \<notin> set (req_variables r1)
            \<and> (\<exists>bid \<in> set (req_buffers r1). left_behind mem vid bid h1 h2))" by blast
    have "allocate_vars (covered mem) (vid # vids) h r = Inr (ok, h2, r2)" using two True eq ih(1) by simp
    moreover have "set vids \<subseteq> set (vid # vids)" by auto
    ultimately show ?thesis using ih(2) by blast
  qed
qed

lemma allocate_vars_Inr_any:
  "0 < req_max_vars r \<Longrightarrow> \<exists>ok h1 r1. allocate_vars mem vids h r = Inr (ok, h1, r1)"
proof (induction vids arbitrary: h r)
  case (Cons vid vids)
  obtain ok h1 r1 where one: "allocate_var mem vid h r = Inr (ok, h1, r1)" using allocate_var_Inr [OF Cons.prems] by blast
  then have "req_max_vars r1 = req_max_vars r" by (rule allocate_var_split) simp
  with Cons.prems have "\<exists>ok h2 r2. allocate_vars mem vids h1 r1 = Inr (ok, h2, r2)" by (intro Cons.IH) simp
  with one show ?case by auto
qed auto

lemma initialize_buffers_covered: "initialize_buffers (covered mem) cs h = initialize_buffers mem cs h"
  by (induction cs arbitrary: h) (auto simp: initialize_buffer_def split: prod.splits)

section \<open>Allocation\<close>

text \<open>
  After the error path has freed the buffers, the variable whose \<open>push_back\<close> failed is the only trace.
\<close>

definition dangles :: "(alloc_site \<Rightarrow> bool) \<Rightarrow> nat \<Rightarrow> 'e heap \<Rightarrow> 'e heap \<Rightarrow> bool" where
  "dangles mem vid h h' \<longleftrightarrow>
     (\<exists>bid pos. \<not> (mem (Push_request bid vid) \<and> mem (Push_chunk_variable bid vid))
        \<and> pos_buffer pos = Some bid \<and> h_bufs h' bid = None
        \<and> h_vars h' = (h_vars h)(vid := set_buffer_reader pos (h_vars h vid)))"

lemma deallocate_left_behind:
  assumes "deallocate h2 r2 = (0, h4, r4)" and "alike r1 r2" and "left_behind mem vid bid h1 h2"
    and "vid \<notin> set (req_variables r1)" and "bid \<in> set (req_buffers r1)"
  shows "\<exists>h3. deallocate h1 r1 = (0, h3, r4) \<and> dangles mem vid h4 h3 \<and> h_bufs h3 = h_bufs h4
    \<and> h_env h3 = h_env h4 \<and> h_conn h3 = h_conn h4 \<and> h_next_buf h3 = h_next_buf h4"
proof -
  obtain rc h3 r3 where d: "deallocate h1 r1 = (rc, h3, r3)" by (cases "deallocate h1 r1")
  note d1 = deallocate_eq [OF d] and d2 = deallocate_eq [OF assms(1)]
  note l = assms(3) [unfolded left_behind_def]
  have "r3 = r4"
    using d1(3-6) d2(3-6) assms(2) by (intro sum_read_request.equality) (simp_all add: alike_def)
  moreover have bufs: "h_bufs h3 = h_bufs h4"
    using d1(2) d2(2) assms(2,5) l by (auto simp: alike_def fun_eq_iff)
  moreover have "dangles mem vid h4 h3"
  proof -
    obtain pos where pos: "pos_buffer pos = Some bid" "h_vars h1 = (h_vars h2)(vid := set_buffer_reader pos (h_vars h2 vid))"
      using l by blast
    have "h_vars h3 = (h_vars h4)(vid := set_buffer_reader pos (h_vars h4 vid))"
      using d1(2) d2(2) assms(2,4) pos(2) by (auto simp: alike_def fun_eq_iff)
    moreover have "h_bufs h3 bid = None" using d1(2) assms(5) by simp
    ultimately show ?thesis using l pos(1) unfolding dangles_def by blast
  qed
  ultimately show ?thesis using d d1(1,2) d2(2) l by auto
qed

text \<open>
  C20. Allocation of a sum-read request, whichever of the memory allocations fail whose failure the code
  handles (\<open>mem\<close>): storing the variable in the buffer, the two \<open>push_back\<close> calls that follow it in the
  chunk, and the two blocks of a buffer. That the sets of chunks, the chunks and the lists from
  \<open>get_chunks\<close> can be created is assumed: \<open>std::bad_alloc\<close> there is caught nowhere. For pairwise different
  variables on valid ports that are in no buffer yet, \<open>allocate\<close> then returns without an exception, with 0
  whenever memory suffices. If it returns 0, the invariant of the request holds: exactly these variables are
  distributed over chunks of at most \<open>max_vars_per_buffer\<close>, each with an initialised buffer of its
  own whose data are still invalid, and each variable points to its own slot there. If it returns
  an error, every buffer has been freed and the request is as new, ready to be allocated again; and no
  variable points into a buffer, with one exception: if the error was a failure of one of the two \<open>push_back\<close>
  calls in \<open>ReadRequestChunk::add_variable\<close> (the vector of request entries or that of the chunk's variables),
  then the variable of that call keeps a pointer into a buffer that has been freed. Nothing but the
  readers of the variables and the buffers has changed.
\<close>

theorem allocate_correct:
  assumes "fresh_request r" and "allocatable h vids"
  shows "\<exists>rc h' r'. allocate mem vids h r = Inr (rc, h', r')
    \<and> h_env h' = h_env h \<and> h_conn h' = h_conn h
    \<and> (\<forall>v. \<exists>pos. h_vars h' v = set_buffer_reader pos (h_vars h v))
    \<and> (\<forall>v. v \<notin> set vids \<longrightarrow> h_vars h' v = h_vars h v) \<and> fresh_bufs h'
    \<and> (mem = (\<lambda>_. True) \<longrightarrow> rc = 0)
    \<and> (if rc = 0 then req_ok h' r' \<and> req_allocated r' \<and> \<not> req_initialized r' \<and> set (req_variables r') = set vids
         \<and> all_bufs (\<lambda>b. buf_initialized b \<and> buf_state b = Buf_Invalid) h' (get_chunks r')
       else rc = EPICSADS_ERROR \<and> h_bufs h' = h_bufs h \<and> fresh_request r'
         \<and> (h_vars h' = h_vars h \<or> (\<exists>vid \<in> set vids. dangles mem vid h h')))"
proof -
  let ?mem = "covered mem"
  note e = fresh_request_empty [OF assms(1)]
  have na: "\<not> req_allocated r" using assms(1) by (simp add: fresh_request_def)
  have pre: "distinct vids" "set vids \<inter> set (req_variables r) = {}"
    "\<forall>vid \<in> set vids. addr_ads_port (h_addr h vid) < 2 ^ 16" "all_bufs blank h (get_chunks r)" "no_empty_chunk r"
    using assms(2) e by (auto simp: allocatable_def all_bufs_def no_empty_chunk_def)
  obtain rc h2 r2 where two: "allocate ?mem vids h r = Inr (rc, h2, r2)"
    and total: "h_env h2 = h_env h \<and> h_conn h2 = h_conn h
      \<and> (\<forall>v. \<exists>pos. h_vars h2 v = set_buffer_reader pos (h_vars h v))
      \<and> (\<forall>v. v \<notin> set vids \<longrightarrow> h_vars h2 v = h_vars h v) \<and> fresh_bufs h2 \<and> (?mem = (\<lambda>_. True) \<longrightarrow> rc = 0)
      \<and> (if rc = 0 then req_ok h2 r2 \<and> req_allocated r2 \<and> \<not> req_initialized r2 \<and> set (req_variables r2) = set vids
           \<and> all_bufs (\<lambda>b. buf_initialized b \<and> buf_state b = Buf_Invalid) h2 (get_chunks r2)
         else rc = EPICSADS_ERROR \<and> h_vars h2 = h_vars h \<and> h_bufs h2 = h_bufs h \<and> fresh_request r2)"
    using allocate_total [OF assms covered_request_mem [of mem]] by blast
  have enough: "mem = (\<lambda>_. True) \<longrightarrow> rc = 0" using total by auto
  show ?thesis
  proof -
    have "0 < req_max_vars r" using assms(1) by (simp add: fresh_request_def)
    then obtain ok h1 r1 where one: "allocate_vars mem vids h r = Inr (ok, h1, r1)" using allocate_vars_Inr_any by blast
    from allocate_vars_covered [OF fresh_request_ok [OF assms(1)] pre one]
    obtain h3 r3 where three: "allocate_vars ?mem vids h r = Inr (ok, h3, r3)"
      and rel: "h3 = h1 \<and> r3 = r1 \<or> \<not> ok \<and> alike r1 r3 \<and> (\<exists>vid \<in> set vids. vid \<notin> set (req_variables r1)
            \<and> (\<exists>bid \<in> set (req_buffers r1). left_behind mem vid bid h1 h3))" by blast
    show ?thesis
    proof (cases "h3 = h1 \<and> r3 = r1")
      case True
      then have "allocate mem vids h r = allocate ?mem vids h r"
        using one three unfolding allocate_def initialize_buffers_covered by simp
      then have "allocate mem vids h r = Inr (rc, h2, r2)" using two by simp
      with total enough show ?thesis by auto
    next
      case False
      then obtain vid bid where "\<not> ok" "alike r1 r3" "vid \<in> set vids" "vid \<notin> set (req_variables r1)"
        "bid \<in> set (req_buffers r1)" "left_behind mem vid bid h1 h3" using rel by blast
      note w = this
      have d3: "deallocate h3 r3 = (0, h2, r2)" and rc: "rc = EPICSADS_ERROR"
        using two three w(1) na by (auto simp: allocate_def deallocate_def Let_def)
      from deallocate_left_behind [OF d3 w(2,6,4,5)]
      obtain h4 where d: "deallocate h1 r1 = (0, h4, r2)" "dangles mem vid h2 h4" "h_bufs h4 = h_bufs h2"
        "h_env h4 = h_env h2" "h_conn h4 = h_conn h2" "h_next_buf h4 = h_next_buf h2" by blast
      have run: "allocate mem vids h r = Inr (rc, h4, r2)" using one w(1) na d(1) rc by (simp add: allocate_def)
      have ne: "rc \<noteq> 0" using rc by simp
      then have t: "h_vars h2 = h_vars h" "h_bufs h2 = h_bufs h" "fresh_request r2" "fresh_bufs h2" using total by auto
      have dang: "dangles mem vid h h4" using d(2) t(1) by (simp add: dangles_def)
      then obtain pos where vars: "h_vars h4 = (h_vars h)(vid := set_buffer_reader pos (h_vars h vid))"
        by (auto simp: dangles_def)
      have "\<exists>pos. h_vars h4 v = set_buffer_reader pos (h_vars h v)" for v
        using vars set_buffer_reader_refl [of "h_vars h v"] by (cases "v = vid") auto
      moreover have "h_vars h4 v = h_vars h v" if "v \<notin> set vids" for v using vars w(3) that by auto
      moreover have "fresh_bufs h4" using t(4) d(3,6) by (simp add: fresh_bufs_def)
      ultimately show ?thesis
        using run ne rc t d dang w(3) total enough by (intro exI [of _ rc] exI [of _ h4] exI [of _ r2]) auto
    qed
  qed
qed

theorem allocate_correct_witness:
  "\<exists>h' r'. allocate (\<lambda>_. True) [3, 4] example_heap example_request = Inr (0, h', r')
     \<and> req_ok h' r' \<and> set (req_variables r') = {3, 4}"
  using allocate_correct [OF example_request_fresh example_heap_allocatable, of "\<lambda>_. True"] by auto

text \<open>
  The exception happens: when the vector of request entries cannot grow, \<open>allocate\<close> returns an error and the
  variable is left with a pointer into the buffer that was freed.
\<close>

definition no_request_memory :: "alloc_site \<Rightarrow> bool" where
  "no_request_memory s = (case s of Push_request bid vid \<Rightarrow> False | _ \<Rightarrow> True)"

theorem allocate_leaves_dangling_pointer:
  "\<exists>h' r'. allocate no_request_memory [3] example_heap example_request = Inr (EPICSADS_ERROR, h', r')
     \<and> pos_buffer (h_reader h' 3) = Some (h_next_buf example_heap) \<and> h_bufs h' (h_next_buf example_heap) = None"
proof -
  let ?b = "\<lparr> buf_variables = [], buf_max_nvariables = 500, buf_soft_limit = 1000000, buf_next_result_offset = 0,
    buf_next_data_offset = 0, buf_buffer_size = 0, buf_buffer = None, buf_initialized = False, buf_prev_data = None,
    buf_state = Buf_Invalid \<rparr>"
  let ?h0 = "(set_buf 0 ?b example_heap)\<lparr>h_next_buf := 1\<rparr>"
  let ?c = "\<lparr> chunk_ads_port = 851, chunk_variables = [], chunk_request = [], chunk_buffer = 0 \<rparr>"
  have chunk: "chunk_with_capacity 851 500 [] example_heap = Inr ([?c], ?h0)"
    by (simp add: chunk_with_capacity_def ReadRequestChunk_def SumReadBuffer_def example_heap_def)
  obtain b' where "buf_add_variable no_request_memory 0 3 example_variable ?b =
      (0, set_buffer_reader \<lparr> pos_buffer = Some 0, pos_off_result = 0, pos_off_data = 0 \<rparr> example_variable, b')"
    by (simp add: buf_add_variable_def at_capacity_def data_size_def results_size_def get_num_variables_def sub64_def
        result_size_def no_request_memory_def)
  then have add: "chunk_add_variable no_request_memory 3 ?c ?h0 = (False, ?c, set_buf 0 b' (upd_var 3
      (\<lambda>_. set_buffer_reader \<lparr> pos_buffer = Some 0, pos_off_result = 0, pos_off_data = 0 \<rparr> example_variable) ?h0))"
    by (simp add: chunk_add_variable_def no_request_memory_def set_buf_def h_buf_def example_heap_def)
  have port: "addr_ads_port (h_addr example_heap 3) = 851"
    by (simp add: h_addr_def example_heap_def example_variable_def example_address_def)
  show ?thesis
    using chunk add
    by (simp add: allocate_def allocate_var_def port example_request_def find_or_create_def sm_find_def sm_get_def
        deallocate_def deinitialize_def map_chunks_def get_chunks_def free_chunk_def h_reader_def upd_var_def
        set_buf_def set_buffer_reader_def) (simp add: example_heap_def)
qed

end
