(* ===== verification/Write_Steps.thy ===== *)
theory Write_Steps
  imports Driver_System Small_Steps
begin

text \<open>
  \<open>ADSVariable::write\<close> and \<open>ADSPortDriver::ADSDisconnect\<close> in the steps that other threads can see:
  a method of the connection, and in \<open>write\<close> everything after the lock of the connection's mutex, is
  one step; the checks that \<open>write\<close> makes before it takes the mutex are a step of their own.
\<close>

section \<open>A handler in \<open>write\<close>\<close>

text \<open>
  The points: at the start, with the variable, the data and their size; before the lock of the
  mutex, with the buffer that is to be sent; at the end.
\<close>

datatype write_pc =
    Write_Idle
  | Write_Start nat "byte list option" nat
  | Write_Wait nat "byte list"
  | Write_Return nat int

text \<open>Where a request goes: the ADS port of the library, the device, index group and offset.\<close>

definition write_target :: "'e heap \<Rightarrow> nat \<Rightarrow> int \<times> ams_addr \<times> nat \<times> nat" where
  "write_target h vid =
     (conn_ads_port (h_conn h), ams_addr_of h vid, addr_index_group (h_addr h vid), addr_index_offset (h_addr h vid))"

fun write_step :: "ads_def \<Rightarrow> 'e ads_lib \<Rightarrow> write_pc \<Rightarrow> 'e heap \<Rightarrow> (write_pc \<times> 'e heap) option" where
  "write_step d lib Write_Idle h = Some (Write_Idle, h)"
| "write_step d lib (Write_Start vid data n) h =
     (let v = h_vars h vid in
      case data of
        None \<Rightarrow> Some (Write_Return vid EPICSADS_INV_PARAM, h)
      | Some src \<Rightarrow>
          if \<not> var_conn v then Some (Write_Return vid EPICSADS_NOT_INITIALIZED, h)
          else if \<not> addr_name_is_resolved (var_addr v) then Some (Write_Return vid EPICSADS_NOT_RESOLVED, h)
          else if n > var_size v then Some (Write_Return vid EPICSADS_OVERFLOW, h)
          else
            Option.bind (mem_read src 0 n) (\<lambda>bytes.
            Option.bind (mem_write (replicate (var_size v) 0) bytes) (\<lambda>buffer.
            Some (Write_Wait vid buffer, h))))"
| "write_step d lib (Write_Wait vid buffer) h =
     (case write_target h vid of (port, addr, g, off) \<Rightarrow>
      case AdsSyncWriteReqEx lib (h_env h) port addr g off buffer of (rc, e1) \<Rightarrow>
        let h1 = h\<lparr>h_env := e1\<rparr> in
        if rc \<noteq> 0 then Some (Write_Return vid (ads_rc_to_epicsads_error d rc), h1)
        else Some (Write_Return vid 0,
                   if var_write_readback (h_vars h vid)
                   then upd_var vid (\<lambda>v. v\<lparr>var_last_written := buffer\<rparr>) h1 else h1))"
| "write_step d lib (Write_Return vid rc) h = Some (Write_Return vid rc, h)"

fun write_busy :: "write_pc \<Rightarrow> bool" where
  "write_busy (Write_Start vid data n) \<longleftrightarrow> True"
| "write_busy (Write_Wait vid buffer) \<longleftrightarrow> True"
| "write_busy _ \<longleftrightarrow> False"

fun write_result :: "write_pc \<Rightarrow> int option" where
  "write_result (Write_Return vid rc) = Some rc"
| "write_result _ = None"

section \<open>The scan thread in \<open>ADSDisconnect\<close>\<close>

text \<open>
  The points: at the start; before each of the two calls of \<open>unresolve_variables\<close>; before
  \<open>disconnect\<close>; before \<open>set_disconnected\<close>; at the end, where it returns \<open>asynSuccess\<close>.
\<close>

datatype disc_pc = Disc_Start | Disc_Read_Vars | Disc_Write_Vars | Disc_Close | Disc_Clear | Disc_Return

fun disc_step :: "ads_def \<Rightarrow> 'e ads_lib \<Rightarrow> disc_pc \<Rightarrow> 'e driver \<Rightarrow> disc_pc \<times> 'e driver" where
  "disc_step d lib Disc_Start D =
     (let D1 = D\<lparr>d_req := snd (deinitialize (d_req D))\<rparr> in
      if d_exit D then (Disc_Close, D1)
      else if \<not> is_connected (d_heap D) then (Disc_Return, D1)
      else (Disc_Read_Vars, D1))"
| "disc_step d lib Disc_Read_Vars D =
     (Disc_Write_Vars, D\<lparr>d_heap := snd (unresolve_variables d lib (d_read_vars D) (d_heap D))\<rparr>)"
| "disc_step d lib Disc_Write_Vars D =
     (Disc_Close, D\<lparr>d_heap := snd (unresolve_variables d lib (d_write_vars D) (d_heap D))\<rparr>)"
| "disc_step d lib Disc_Close D = (Disc_Clear, D\<lparr>d_heap := snd (disconnect lib (d_heap D))\<rparr>)"
| "disc_step d lib Disc_Clear D = (Disc_Return, D\<lparr>d_heap := set_disconnected (d_heap D)\<rparr>)"
| "disc_step d lib Disc_Return D = (Disc_Return, D)"

fun disc_rank :: "disc_pc \<Rightarrow> nat" where
  "disc_rank Disc_Start = 5"
| "disc_rank Disc_Read_Vars = 4"
| "disc_rank Disc_Write_Vars = 3"
| "disc_rank Disc_Close = 2"
| "disc_rank Disc_Clear = 1"
| "disc_rank Disc_Return = 0"

section \<open>The steps alone\<close>

text \<open>What is left of the operation from a point on, when no other thread interferes.\<close>

fun write_rest :: "ads_def \<Rightarrow> 'e ads_lib \<Rightarrow> write_pc \<Rightarrow> 'e heap \<Rightarrow> (int \<times> 'e heap) option" where
  "write_rest d lib Write_Idle h = None"
| "write_rest d lib (Write_Start vid data n) h = var_write d lib vid data n h"
| "write_rest d lib (Write_Wait vid buffer) h =
     Option.bind (write_step d lib (Write_Wait vid buffer) h)
       (\<lambda>(p, h'). map_option (\<lambda>rc. (rc, h')) (write_result p))"
| "write_rest d lib (Write_Return vid rc) h = Some (rc, h)"

fun write_rank :: "write_pc \<Rightarrow> nat" where
  "write_rank (Write_Start vid data n) = 2"
| "write_rank (Write_Wait vid buffer) = 1"
| "write_rank _ = 0"

lemma write_step_decreases:
  "write_busy p \<Longrightarrow> write_step d lib p h = Some (p', h') \<Longrightarrow> p' \<noteq> Write_Idle \<and> write_rank p' < write_rank p"
  by (cases p) (auto simp: Let_def bind_eq_Some_conv split: option.splits prod.splits if_splits)

interpretation writer: small_steps "\<lambda>p _. write_busy p" "\<lambda>_. write_step d lib" "\<lambda>p h. p \<noteq> Write_Idle"
  "\<lambda>p h. write_rank p" write_result "write_rest d lib" for d :: ads_def and lib :: "'e ads_lib"
proof
  show "\<exists>i :: nat. write_busy p" if "p \<noteq> Write_Idle" "write_result p = None" for p
    using that by (cases p) auto
  show "p' \<noteq> Write_Idle" "write_rank p' < write_rank p"
    if "write_busy p" "write_step d lib p h = Some (p', h')" for p p' and h h' :: "'e heap"
    using write_step_decreases [OF that] by auto
  show "write_rest d lib p h = Option.bind (write_step d lib p h) (\<lambda>(p', h'). write_rest d lib p' h')"
    if "write_busy p" for p and h :: "'e heap"
  proof (cases p)
    case (Write_Start vid data n)
    then show ?thesis
      by (cases data) (auto simp: var_write_def Let_def write_target_def h_addr_def
          split: prod.split Option.bind_split)
  next
    case (Write_Wait vid buffer)
    then show ?thesis by (auto simp: Let_def split: prod.splits)
  qed (use that in auto)
  show "write_rest d lib p h = Some (x, h)" if "write_result p = Some x" for p x and h :: "'e heap"
    using that by (cases p) auto
qed

fun disc_rest :: "ads_def \<Rightarrow> 'e ads_lib \<Rightarrow> disc_pc \<Rightarrow> 'e driver \<Rightarrow> 'e driver" where
  "disc_rest d lib Disc_Start D = snd (ADSDisconnect d lib D)"
| "disc_rest d lib Disc_Return D = D"
| "disc_rest d lib Disc_Clear D = D\<lparr>d_heap := set_disconnected (d_heap D)\<rparr>"
| "disc_rest d lib Disc_Close D = D\<lparr>d_heap := set_disconnected (snd (disconnect lib (d_heap D)))\<rparr>"
| "disc_rest d lib Disc_Write_Vars D =
     (let h1 = snd (unresolve_variables d lib (d_write_vars D) (d_heap D))
      in D\<lparr>d_heap := set_disconnected (snd (disconnect lib h1))\<rparr>)"
| "disc_rest d lib Disc_Read_Vars D =
     (let h1 = snd (unresolve_variables d lib (d_write_vars D)
                 (snd (unresolve_variables d lib (d_read_vars D) (d_heap D))))
      in D\<lparr>d_heap := set_disconnected (snd (disconnect lib h1))\<rparr>)"

definition disc_result :: "disc_pc \<Rightarrow> asyn_status option" where
  "disc_result p = (if p = Disc_Return then Some asynSuccess else None)"

interpretation closer: small_steps "\<lambda>p _. p \<noteq> Disc_Return" "\<lambda>_ p D. Some (disc_step d lib p D)" "\<lambda>_ _. True"
  "\<lambda>p _. disc_rank p" disc_result "\<lambda>p D. Some (asynSuccess, disc_rest d lib p D)"
  for d :: ads_def and lib :: "'e ads_lib"
proof
  show "disc_rank p' < disc_rank p" if "p \<noteq> Disc_Return" "Some (disc_step d lib p D) = Some (p', D')"
    for p p' and D D' :: "'e driver"
    using that by (cases p) (auto simp: Let_def split: if_splits)
  show "Some (asynSuccess, disc_rest d lib p D)
      = Option.bind (Some (disc_step d lib p D)) (\<lambda>(p', D'). Some (asynSuccess, disc_rest d lib p' D'))"
    if "p \<noteq> Disc_Return" for p and D :: "'e driver"
    using that by (cases p) (auto simp: ADSDisconnect_def Let_def)
qed (auto simp: disc_result_def split: if_splits)

end
