(* ===== verification/Write_Races.thy ===== *)
theory Write_Races
  imports Write_Steps Read_Races
begin

text \<open>
  The scan thread in \<open>ADSDisconnect\<close> while other threads call handlers, in any interleaving of the
  steps. After a failed request the scan thread calls it without the driver's lock, so only the
  connection's mutex keeps the two apart; \<open>write\<close> looks at the address before it takes the mutex.
  Connecting again takes the driver's lock, which the handler holds, so it waits for the write.
\<close>

section \<open>States and steps\<close>

record 'e disc_race =
  dr_write :: write_pc
  dr_disc :: disc_pc
  dr_drv :: "'e driver"

text \<open>The lock of the port admits one handler at a time: reads are made while no write is under way.\<close>

inductive disc_race_step :: "ads_def \<Rightarrow> 'e ads_lib \<Rightarrow> 'e disc_race \<Rightarrow> thread \<Rightarrow> 'e disc_race \<Rightarrow> bool" for d lib where
  race_close: "dr_disc s \<noteq> Disc_Return \<Longrightarrow> disc_step d lib (dr_disc s) (dr_drv s) = (p, D) \<Longrightarrow>
     disc_race_step d lib s Scan_thread (s\<lparr>dr_disc := p, dr_drv := D\<rparr>)"
| race_writes: "write_busy (dr_write s) \<Longrightarrow> write_step d lib (dr_write s) (d_heap (dr_drv s)) = Some (q, h) \<Longrightarrow>
     disc_race_step d lib s Handler_thread (s\<lparr>dr_write := q, dr_drv := (dr_drv s)\<lparr>d_heap := h\<rparr>\<rparr>)"
| race_calls: "\<not> write_busy (dr_write s) \<Longrightarrow> vid \<in> all_vars (dr_drv s) \<Longrightarrow>
     disc_race_step d lib s Outside (s\<lparr>dr_write := Write_Start vid data n\<rparr>)"
| race_reads: "\<not> write_busy (dr_write s) \<Longrightarrow> vid \<in> all_vars (dr_drv s) \<Longrightarrow>
     read_from_buffer d vid n (Some dst) (d_heap (dr_drv s)) = Some (rc, out, h) \<Longrightarrow>
     disc_race_step d lib s Outside (s\<lparr>dr_drv := (dr_drv s)\<lparr>d_heap := h\<rparr>\<rparr>)"
| race_env: "disc_race_step d lib s Outside (s\<lparr>dr_drv := (dr_drv s)\<lparr>d_heap := (d_heap (dr_drv s))\<lparr>h_env := e\<rparr>\<rparr>\<rparr>)"
| race_exit: "disc_race_step d lib s Outside (s\<lparr>dr_drv := signal_exit (dr_drv s)\<rparr>)"

text \<open>The start: a request of the connected driver \<open>D0\<close> has failed.\<close>

definition disc_start :: "'e driver \<Rightarrow> 'e disc_race \<Rightarrow> bool" where
  "disc_start D0 s \<longleftrightarrow> drv_ok D0 \<and> up D0 \<and> s = \<lparr> dr_write = Write_Idle, dr_disc = Disc_Start, dr_drv = D0 \<rparr>"

section \<open>The invariant\<close>

text \<open>An address is as it was, or it has been cleared.\<close>

definition cleared :: "ads_address \<Rightarrow> ads_address" where
  "cleared a = a\<lparr>addr_index_group := 0, addr_index_offset := 0, addr_name_is_resolved := False\<rparr>"

definition addr_or_cleared :: "ads_address \<Rightarrow> ads_address \<Rightarrow> bool" where
  "addr_or_cleared a a' \<longleftrightarrow> a' = a \<or> a' = cleared a"

lemma addr_or_cleared_trans: "addr_or_cleared a a1 \<Longrightarrow> addr_or_cleared a1 a2 \<Longrightarrow> addr_or_cleared a a2"
  by (auto simp: addr_or_cleared_def cleared_def)

lemma unresolved_cleared: "addr_or_cleared (var_addr v) (var_addr (unresolved v))"
  by (simp add: addr_or_cleared_def cleared_def unresolved_def unresolve_def)

definition closed :: "connection \<Rightarrow> connection" where
  "closed c = c\<lparr>conn_ads_port := 0, remote_ams_netid := no_netid\<rparr>"

text \<open>What the scan thread has achieved at each point.\<close>

fun disc_progress :: "disc_pc \<Rightarrow> 'e driver \<Rightarrow> 'e driver \<Rightarrow> bool" where
  "disc_progress Disc_Start D0 D \<longleftrightarrow> h_conn (d_heap D) = h_conn (d_heap D0)
     \<and> (\<forall>vid. h_addr (d_heap D) vid = h_addr (d_heap D0) vid)"
| "disc_progress Disc_Read_Vars D0 D \<longleftrightarrow> h_conn (d_heap D) = h_conn (d_heap D0)
     \<and> \<not> req_initialized (d_req D)"
| "disc_progress Disc_Write_Vars D0 D \<longleftrightarrow> h_conn (d_heap D) = h_conn (d_heap D0)
     \<and> \<not> req_initialized (d_req D) \<and> (\<forall>vid \<in> set (d_read_vars D). \<not> is_resolved (d_heap D) vid)"
| "disc_progress Disc_Close D0 D \<longleftrightarrow> h_conn (d_heap D) = h_conn (d_heap D0)
     \<and> \<not> req_initialized (d_req D) \<and> (d_exit D \<or> named_unresolved D)"
| "disc_progress _ D0 D \<longleftrightarrow> h_conn (d_heap D) = closed (h_conn (d_heap D0))
     \<and> \<not> req_initialized (d_req D) \<and> (d_exit D \<or> named_unresolved D)"

fun writer_ok :: "'e driver \<Rightarrow> write_pc \<Rightarrow> bool" where
  "writer_ok D (Write_Start vid data n) \<longleftrightarrow> vid \<in> all_vars D"
| "writer_ok D (Write_Wait vid buffer) \<longleftrightarrow> vid \<in> all_vars D \<and> length buffer = h_size (d_heap D) vid"
| "writer_ok D _ \<longleftrightarrow> True"

text \<open>What no step changes, in the driver.\<close>

definition same_members :: "'e driver \<Rightarrow> 'e driver \<Rightarrow> bool" where
  "same_members D D' \<longleftrightarrow> d_read_vars D' = d_read_vars D \<and> d_write_vars D' = d_write_vars D
     \<and> d_next_var D' = d_next_var D \<and> d_init D' = d_init D
     \<and> (\<forall>vid. keeps (h_vars (d_heap D) vid) (h_vars (d_heap D') vid)
            \<and> addr_or_cleared (h_addr (d_heap D) vid) (h_addr (d_heap D') vid))"

definition disc_inv :: "'e driver \<Rightarrow> 'e disc_race \<Rightarrow> bool" where
  "disc_inv D0 s \<longleftrightarrow> up D0 \<and> drv_ok (dr_drv s) \<and> same_members D0 (dr_drv s)
     \<and> disc_progress (dr_disc s) D0 (dr_drv s) \<and> writer_ok (dr_drv s) (dr_write s)"

lemma disc_invD:
  assumes "disc_inv D0 s"
  shows "up D0" and "drv_ok (dr_drv s)" and "same_members D0 (dr_drv s)"
    and "disc_progress (dr_disc s) D0 (dr_drv s)" and "writer_ok (dr_drv s) (dr_write s)"
  using assms by (simp_all add: disc_inv_def)

lemma same_membersD:
  assumes "same_members D D'"
  shows "d_read_vars D' = d_read_vars D" and "d_write_vars D' = d_write_vars D" and "all_vars D' = all_vars D"
    and "h_size (d_heap D') = h_size (d_heap D)" and "addr_or_cleared (h_addr (d_heap D) vid) (h_addr (d_heap D') vid)"
    and "keeps (h_vars (d_heap D) vid) (h_vars (d_heap D') vid)"
  using assms by (auto simp: same_members_def all_vars_def h_size_def keeps_def same_view_def)

lemma same_members_trans: "same_members D D1 \<Longrightarrow> same_members D1 D2 \<Longrightarrow> same_members D D2"
  unfolding same_members_def using keeps_trans addr_or_cleared_trans by metis

subsection \<open>Steps of the handlers\<close>

text \<open>Steps that change values only: the driver is as before, except for values to be read back.\<close>

lemma value_step:
  assumes "val_frame (d_heap D) h"
  shows "same_members D (D\<lparr>d_heap := h\<rparr>)" and "disc_progress p D0 (D\<lparr>d_heap := h\<rparr>) = disc_progress p D0 D"
    and "h_size h = h_size (d_heap D)"
proof -
  have f: "h_conn h = h_conn (d_heap D)" "h_addr h = h_addr (d_heap D)" "\<And>vid. keeps (h_vars (d_heap D) vid) (h_vars h vid)"
    using assms by (simp_all add: val_frame_def h_addr_def fun_eq_iff)
  then show "same_members D (D\<lparr>d_heap := h\<rparr>)" by (simp add: same_members_def addr_or_cleared_def)
  have "is_resolved h = is_resolved (d_heap D)" using f(2) by (simp add: is_resolved_def fun_eq_iff)
  with f show "disc_progress p D0 (D\<lparr>d_heap := h\<rparr>) = disc_progress p D0 D"
    by (cases p) (simp_all add: named_unresolved_def all_vars_def)
  show "h_size h = h_size (d_heap D)" using f(3) by (simp add: h_size_def fun_eq_iff keeps_def same_view_def)
qed

lemma disc_inv_value:
  assumes inv: "disc_inv D0 s" and f: "val_frame (d_heap (dr_drv s)) h"
    and w: "writer_ok (dr_drv s) q"
  shows "disc_inv D0 (s\<lparr>dr_write := q, dr_drv := (dr_drv s)\<lparr>d_heap := h\<rparr>\<rparr>)"
proof -
  note i = disc_invD [OF inv]
  note v = value_step [OF f]
  have "writer_ok ((dr_drv s)\<lparr>d_heap := h\<rparr>) q" using w v(3) by (cases q) (simp_all add: all_vars_def)
  with i v(2) same_members_trans [OF i(3) v(1)] val_frame_ok(1) [OF f i(2)] show ?thesis
    by (simp add: disc_inv_def)
qed

lemma write_step_frame:
  assumes "write_busy q" and "writer_ok D q" and "write_step d lib q (d_heap D) = Some (q', h')"
  shows "val_frame (d_heap D) h'" and "writer_ok D q'"
proof -
  have "val_frame (d_heap D) h' \<and> writer_ok D q'"
  proof (cases q)
    case (Write_Start vid data n)
    with assms show ?thesis
      by (auto simp: Let_def bind_eq_Some_conv val_frame_def h_size_def split: option.splits if_splits
          dest!: mem_write_length)
  next
    case (Write_Wait vid buffer)
    obtain rc e where lib: "AdsSyncWriteReqEx lib (h_env (d_heap D)) (conn_ads_port (h_conn (d_heap D)))
        (ams_addr_of (d_heap D) vid) (addr_index_group (h_addr (d_heap D) vid))
        (addr_index_offset (h_addr (d_heap D) vid)) buffer = (rc, e)" by (metis surj_pair)
    have len: "length buffer \<le> var_size (h_vars (d_heap D) vid)" using assms(2) Write_Wait by (simp add: h_size_def)
    from assms(3) Write_Wait lib len show ?thesis
      by (auto simp: write_target_def Let_def val_frame_def keeps_last_written split: if_splits)
  qed (use assms(1) in auto)
  then show "val_frame (d_heap D) h'" "writer_ok D q'" by simp_all
qed

subsection \<open>Steps of the scan thread\<close>

lemma unresolve_variables_addr:
  assumes "unresolve_variables d lib vids h = (rc, h')"
  shows "addr_or_cleared (h_addr h vid) (h_addr h' vid)"
proof (cases "vids = []")
  case True
  with assms show ?thesis by (simp add: unresolve_variables_def addr_or_cleared_def)
next
  case False
  then obtain up errs where "unresolve_loop d lib vids (is_connected h) False h = (up, errs, h')"
    using assms by (auto simp: unresolve_variables_def split: prod.splits)
  from unresolve_loop_ok(2) [OF this] unresolved_cleared show ?thesis
    by (simp add: h_addr_def addr_or_cleared_def)
qed

lemma unresolve_step:
  assumes ok: "drv_ok D" and h: "h = snd (unresolve_variables d lib vids (d_heap D))" and vids: "set vids \<subseteq> all_vars D"
  shows "drv_ok (D\<lparr>d_heap := h\<rparr>)" and "same_members D (D\<lparr>d_heap := h\<rparr>)" and "h_conn h = h_conn (d_heap D)"
    and "vid \<in> set vids \<or> vid \<in> all_vars D \<and> \<not> is_resolved (d_heap D) vid \<Longrightarrow> \<not> is_resolved h vid"
proof -
  have run: "unresolve_variables d lib vids (d_heap D) = (fst (unresolve_variables d lib vids (d_heap D)), h)"
    by (simp add: h)
  note u = unresolve_variables_ok [OF run]
  show "drv_ok (D\<lparr>d_heap := h\<rparr>)" by (rule drv_ok_heap(1) [OF ok u(1,2,4)])
  show "same_members D (D\<lparr>d_heap := h\<rparr>)" using u(4) unresolve_variables_addr [OF run] by (simp add: same_members_def)
  show "h_conn h = h_conn (d_heap D)" by (rule u(3))
  show "\<not> is_resolved h vid" if v: "vid \<in> set vids \<or> vid \<in> all_vars D \<and> \<not> is_resolved (d_heap D) vid"
  proof -
    have "vid \<in> all_vars D" using v vids by blast
    then have "addr_variable_name (h_addr (d_heap D) vid) \<noteq> []"
      using drv_okD(6) [OF ok] by (simp add: var_ok_def h_addr_def)
    with u(5) v show ?thesis by blast
  qed
qed

text \<open>Closing the connection changes nothing but the connection and the library.\<close>

lemma close_step:
  assumes ok: "drv_ok D" and h: "h = snd (disconnect lib (d_heap D)) \<or> h = set_disconnected (d_heap D)"
  shows "drv_ok (D\<lparr>d_heap := h\<rparr>)" and "same_members D (D\<lparr>d_heap := h\<rparr>)"
    and "is_connected (d_heap D) \<or> h = set_disconnected (d_heap D) \<Longrightarrow> h_conn h = closed (h_conn (d_heap D))"
    and "is_resolved h = is_resolved (d_heap D)"
proof -
  have f: "h_vars h = h_vars (d_heap D)" "h_bufs h = h_bufs (d_heap D)" "h_next_buf h = h_next_buf (d_heap D)"
    using h disconnect_ok [OF surjective_pairing [of "disconnect lib (d_heap D)"]] set_disconnected_ok [of "d_heap D"]
    by auto
  show "drv_ok (D\<lparr>d_heap := h\<rparr>)" by (rule drv_ok_heap(1) [OF ok f(2,3)]) (simp add: f)
  show "same_members D (D\<lparr>d_heap := h\<rparr>)" using f(1) by (simp add: same_members_def h_addr_def addr_or_cleared_def)
  show "h_conn h = closed (h_conn (d_heap D))" if c: "is_connected (d_heap D) \<or> h = set_disconnected (d_heap D)"
  proof (cases "h = set_disconnected (d_heap D)")
    case False
    with c h show ?thesis by (auto simp: disconnect_def closed_def Let_def)
  qed (simp add: set_disconnected_def closed_def)
  show "is_resolved h = is_resolved (d_heap D)" using f(1) by (simp add: is_resolved_def h_addr_def fun_eq_iff)
qed

lemma disc_step_inv:
  assumes inv: "disc_inv D0 s" and more: "dr_disc s \<noteq> Disc_Return" and step: "disc_step d lib (dr_disc s) (dr_drv s) = (p, D)"
  shows "disc_inv D0 (s\<lparr>dr_disc := p, dr_drv := D\<rparr>)"
proof -
  let ?D = "dr_drv s"
  note i = disc_invD [OF inv]
  note m = same_membersD [OF i(3)]
  note o = drv_okD(5) [OF i(2)]
  have conn: "conn_ads_port (h_conn (d_heap D0)) \<noteq> 0" using i(1) by (simp add: up_def is_connected_def)
  have new: "drv_ok D \<and> same_members ?D D \<and> disc_progress p D0 D"
  proof (cases "dr_disc s")
    case Disc_Start
    note d = drv_ok_deinitialize [OF i(2)]
    have "is_connected (d_heap ?D)" using i(4) conn Disc_Start by (simp add: is_connected_def)
    with Disc_Start step i(4) d show ?thesis
      by (auto simp: Let_def same_members_def addr_or_cleared_def named_unresolved_def split: if_splits)
  next
    case Disc_Read_Vars
    have h: "D = ?D\<lparr>d_heap := d_heap D\<rparr>" "p = Disc_Write_Vars"
      "d_heap D = snd (unresolve_variables d lib (d_read_vars ?D) (d_heap ?D))" using step Disc_Read_Vars by auto
    have "set (d_read_vars ?D) \<subseteq> all_vars ?D" using o by blast
    note u = unresolve_step [OF i(2) h(3) this]
    have "d_read_vars D = d_read_vars ?D" "d_req D = d_req ?D" using step Disc_Read_Vars by auto
    with u i(4) Disc_Read_Vars h(2) show ?thesis by (simp add: h(1) [symmetric])
  next
    case Disc_Write_Vars
    have h: "D = ?D\<lparr>d_heap := d_heap D\<rparr>" "p = Disc_Close"
      "d_heap D = snd (unresolve_variables d lib (d_write_vars ?D) (d_heap ?D))" using step Disc_Write_Vars by auto
    have sub: "set (d_write_vars ?D) \<subseteq> all_vars ?D" using o by blast
    note u = unresolve_step [OF i(2) h(3) sub]
    have "all_vars D = all_vars ?D" "d_req D = d_req ?D" using step Disc_Write_Vars by (auto simp: all_vars_def)
    moreover have "\<not> is_resolved (d_heap D) vid" if "vid \<in> all_vars ?D" for vid
      using u(4) [of vid] that o i(4) Disc_Write_Vars by auto
    ultimately show ?thesis using u i(4) Disc_Write_Vars h(2) by (simp add: h(1) [symmetric] named_unresolved_def)
  next
    case Disc_Close
    have h: "D = ?D\<lparr>d_heap := d_heap D\<rparr>" "p = Disc_Clear" "d_heap D = snd (disconnect lib (d_heap ?D))"
      using step Disc_Close by auto
    note c = close_step [OF i(2) disjI1 [OF h(3)]]
    have "is_connected (d_heap ?D)" using i(4) conn Disc_Close by (simp add: is_connected_def)
    moreover have "all_vars D = all_vars ?D" "d_req D = d_req ?D" "d_exit D = d_exit ?D"
      using step Disc_Close by (auto simp: all_vars_def)
    ultimately show ?thesis using c i(4) Disc_Close h(2) by (simp add: h(1) [symmetric] named_unresolved_def)
  next
    case Disc_Clear
    have h: "D = ?D\<lparr>d_heap := d_heap D\<rparr>" "p = Disc_Return" "d_heap D = set_disconnected (d_heap ?D)"
      using step Disc_Clear by auto
    note c = close_step [OF i(2) disjI2 [OF h(3)]]
    have "all_vars D = all_vars ?D" "d_req D = d_req ?D" "d_exit D = d_exit ?D"
      using step Disc_Clear by (auto simp: all_vars_def)
    moreover have "closed (closed x) = closed x" for x by (simp add: closed_def)
    ultimately show ?thesis using c(1,2,4) c(3) [OF disjI2 [OF h(3)]] i(4) Disc_Clear h(2)
      by (simp add: h(1) [symmetric] named_unresolved_def)
  qed (use more in simp)
  note m' = same_membersD [of ?D D]
  have "writer_ok D (dr_write s)" using i(5) new m'(3,4) by (cases "dr_write s") auto
  with new i(1) same_members_trans [OF i(3)] show ?thesis by (simp add: disc_inv_def)
qed

subsection \<open>All steps\<close>

lemma disc_inv_exit: "disc_inv D0 s \<Longrightarrow> disc_inv D0 (s\<lparr>dr_drv := signal_exit (dr_drv s)\<rparr>)"
  by (cases "dr_disc s"; cases "dr_write s")
    (auto simp: disc_inv_def signal_exit_def same_members_def drv_ok_def named_unresolved_def all_vars_def)

lemma disc_inv_step:
  assumes "disc_inv D0 s" and "disc_race_step d lib s t s'"
  shows "disc_inv D0 s'"
  using assms(2)
proof cases
  case (race_close p D)
  with disc_step_inv [OF assms(1)] show ?thesis by simp
next
  case (race_writes q h)
  note w = write_step_frame [OF race_writes(3) disc_invD(5) [OF assms(1)] race_writes(4)]
  from disc_inv_value [OF assms(1) w] race_writes show ?thesis by simp
next
  case (race_calls vid data n)
  then have "writer_ok (dr_drv s) (dr_write s')" by simp
  from disc_inv_value [OF assms(1) val_frame_env this, of "h_env (d_heap (dr_drv s))"] race_calls show ?thesis by simp
next
  case (race_reads vid n dst rc out h)
  from disc_inv_value [OF assms(1) val_frame_read [OF race_reads(5)] disc_invD(5) [OF assms(1)]] race_reads
  show ?thesis by simp
next
  case (race_env e)
  from disc_inv_value [OF assms(1) val_frame_env disc_invD(5) [OF assms(1)], of e] race_env show ?thesis by simp
next
  case race_exit
  with disc_inv_exit [OF assms(1)] show ?thesis by simp
qed

lemma disc_start_inv: "disc_start D0 s \<Longrightarrow> disc_inv D0 s"
  by (simp add: disc_start_def disc_inv_def same_members_def addr_or_cleared_def)

text \<open>The scan thread's remaining steps, and those of the write that is under way.\<close>

interpretation closem: ranked "disc_start D0" "disc_race_step d lib" "disc_inv D0" "\<lambda>t. t = Scan_thread" "\<lambda>_. True"
  "\<lambda>s. disc_rank (dr_disc s)" for D0 and d and lib
proof
  show "disc_inv D0 s" if "disc_start D0 s" for s using that by (rule disc_start_inv)
  show "disc_inv D0 s'" if "disc_inv D0 s" "disc_race_step d lib s t s'" for s t s' using that by (rule disc_inv_step)
  show "disc_rank (dr_disc s') < disc_rank (dr_disc s)" if "disc_race_step d lib s t s'" "t = Scan_thread" for s t s'
    using that closer.step_rank [where d = d and lib = lib] by (auto elim!: disc_race_step.cases)
  show "disc_rank (dr_disc s') \<le> disc_rank (dr_disc s)" if "disc_race_step d lib s t s'" "\<not> t = Scan_thread" for s t s'
    using that by (auto elim!: disc_race_step.cases)
qed

interpretation writem: ranked "disc_start D0" "disc_race_step d lib" "disc_inv D0" "\<lambda>t. t = Handler_thread"
  "\<lambda>s. write_busy (dr_write s)" "\<lambda>s. write_rank (dr_write s)" for D0 and d and lib
proof
  show "write_rank (dr_write s') < write_rank (dr_write s)"
    if "write_busy (dr_write s)" "disc_race_step d lib s t s'" "t = Handler_thread" for s t s'
    using that write_step_decreases by (fastforce elim!: disc_race_step.cases)
  show "write_rank (dr_write s') \<le> write_rank (dr_write s)"
    if "write_busy (dr_write s)" "disc_race_step d lib s t s'" "\<not> t = Handler_thread" for s t s'
    using that by (auto elim!: disc_race_step.cases)
qed

end
