(* ===== verification/Write_Theorems.thy ===== *)
theory Write_Theorems
  imports Write_Races Driver_Props
begin

text \<open>
  What can happen to a write while the scan thread disconnects: where its request can go, the request
  to an address that has been cleared, and how the two end.
\<close>

section \<open>Where a write goes\<close>

text \<open>
  C15. Whatever the interleaving of a disconnect with handlers: when a write is about to send its request,
  the request is for the ADS port of its own variable, and goes either to the handle that the name was
  resolved to when the disconnect began, or to index group 0 and offset 0, never to the handle of
  another variable; either through the connection as it was then, or through port 0 after it has been
  closed. What is sent has exactly the size of the variable; sending is always defined and is one request
  to that target. Only if the ADS library accepts it is a value kept to be read back.
\<close>

theorem writes_addressed:
  assumes "reach (disc_start D0) (disc_race_step d lib) s" and "dr_write s = Write_Wait vid buffer"
  shows "write_target (d_heap (dr_drv s)) vid \<in>
      (let a = h_addr (d_heap D0) vid; handle = (addr_index_group a, addr_index_offset a);
           c = h_conn (d_heap D0); open = (conn_ads_port c, remote_ams_netid c) in
       {(port, (netid, addr_ads_port a), g, off) | port netid g off.
          (port, netid) \<in> {open, (0, no_netid)} \<and> (g, off) \<in> {handle, (0, 0)}})
    \<and> length buffer = h_size (d_heap D0) vid
    \<and> (\<exists>rc h'. write_step d lib (Write_Wait vid buffer) (d_heap (dr_drv s)) = Some (Write_Return vid rc, h')
         \<and> h_conn h' = h_conn (d_heap (dr_drv s)) \<and> h_bufs h' = h_bufs (d_heap (dr_drv s))
         \<and> (rc \<noteq> 0 \<longrightarrow> h_vars h' = h_vars (d_heap (dr_drv s)))
         \<and> (case write_target (d_heap (dr_drv s)) vid of (port, addr, g, off) \<Rightarrow>
              h_env h' = snd (AdsSyncWriteReqEx lib (h_env (d_heap (dr_drv s))) port addr g off buffer)))"
proof -
  let ?h = "d_heap (dr_drv s)"
  note i = disc_invD [OF closem.reach_inv [OF assms(1)]]
  note m = same_membersD [OF i(3)]
  have conn: "h_conn ?h = h_conn (d_heap D0) \<or> h_conn ?h = closed (h_conn (d_heap D0))"
    using i(4) by (cases "dr_disc s") auto
  have addr: "h_addr ?h vid = h_addr (d_heap D0) vid \<or> h_addr ?h vid = cleared (h_addr (d_heap D0) vid)"
    using m(5) by (simp add: addr_or_cleared_def)
  have "write_target ?h vid \<in>
      (let a = h_addr (d_heap D0) vid; handle = (addr_index_group a, addr_index_offset a);
           c = h_conn (d_heap D0); open = (conn_ads_port c, remote_ams_netid c) in
       {(port, (netid, addr_ads_port a), g, off) | port netid g off.
          (port, netid) \<in> {open, (0, no_netid)} \<and> (g, off) \<in> {handle, (0, 0)}})"
    using conn addr by (auto simp: write_target_def ams_addr_of_def closed_def cleared_def Let_def)
  moreover have "length buffer = h_size (d_heap D0) vid" using i(5) assms(2) m(4) by simp
  moreover obtain port addr g off where t: "write_target ?h vid = (port, addr, g, off)" by (metis surj_pair)
  obtain rc e where "AdsSyncWriteReqEx lib (h_env ?h) port addr g off buffer = (rc, e)" by (metis surj_pair)
  with t have "\<exists>rc h'. write_step d lib (Write_Wait vid buffer) ?h = Some (Write_Return vid rc, h')
      \<and> h_conn h' = h_conn ?h \<and> h_bufs h' = h_bufs ?h \<and> (rc \<noteq> 0 \<longrightarrow> h_vars h' = h_vars ?h)
      \<and> (case write_target ?h vid of (port, addr, g, off) \<Rightarrow>
           h_env h' = snd (AdsSyncWriteReqEx lib (h_env ?h) port addr g off buffer))"
    by (simp add: Let_def upd_var_def)
  ultimately show ?thesis by blast
qed

section \<open>A stray write\<close>

lemma race_run:
  assumes "reach (disc_start D0) (disc_race_step d lib) \<lparr>dr_write = q, dr_disc = p, dr_drv = D\<rparr>" and "p \<noteq> Disc_Return"
  shows "reach (disc_start D0) (disc_race_step d lib)
    \<lparr>dr_write = q, dr_disc = fst (disc_step d lib p D), dr_drv = snd (disc_step d lib p D)\<rparr>"
  using reach_step [OF assms(1) race_close [of _ d lib "fst (disc_step d lib p D)" "snd (disc_step d lib p D)"]] assms(2)
  by simp

lemma wait_reached:
  assumes start: "drv_ok D0" "up D0" and vid: "vid \<in> all_vars D0"
    and n: "n \<le> length src" "n \<le> h_size (d_heap D0) vid"
  shows "reach (disc_start D0) (disc_race_step d lib)
    \<lparr>dr_write = Write_Wait vid (take n src @ replicate (h_size (d_heap D0) vid - n) 0), dr_disc = Disc_Start, dr_drv = D0\<rparr>"
proof -
  let ?s = "\<lambda>q. \<lparr>dr_write = q, dr_disc = Disc_Start, dr_drv = D0\<rparr>"
  have "reach (disc_start D0) (disc_race_step d lib) (?s Write_Idle)"
    using start by (intro reach_init) (simp add: disc_start_def)
  from reach_step [OF this race_calls [where vid = vid and data = "Some src" and n = n]] vid
  have s: "reach (disc_start D0) (disc_race_step d lib) (?s (Write_Start vid (Some src) n))" by simp
  have v: "var_conn (h_vars (d_heap D0) vid)" "addr_name_is_resolved (var_addr (h_vars (d_heap D0) vid))"
    using drv_okD(6) [OF start(1) vid] start(2) vid by (auto simp: var_ok_def up_def is_resolved_def h_addr_def)
  have "write_step d lib (Write_Start vid (Some src) n) (d_heap D0)
      = Some (Write_Wait vid (take n src @ replicate (h_size (d_heap D0) vid - n) 0), d_heap D0)"
    using v n by (simp add: Let_def h_size_def)
  with reach_step [OF s race_writes] show ?thesis by fastforce
qed

text \<open>
  C16. A stray write. \<open>write\<close> checks that its variable is resolved before it takes the connection's mutex;
  if it then waits for it, because the request that is about to fail still holds it, the disconnect can
  clear the address in between. For every variable of every connected driver, and whatever data a
  handler writes, there is such a run: the connection is still open, and the data are sent to index
  group 0 and offset 0 of the variable's ADS port. If the device accepts that, the handler returns 0:
  the record is told that its value was written.
\<close>

theorem stray_write:
  assumes "drv_ok D0" and "up D0" and "\<not> d_exit D0" and "vid \<in> all_vars D0"
    and "n \<le> length src" and "n \<le> h_size (d_heap D0) vid"
  shows "\<exists>s s' rc. reach (disc_start D0) (disc_race_step d lib) s \<and> disc_race_step d lib s Handler_thread s'
     \<and> dr_disc s = Disc_Close \<and> is_connected (d_heap (dr_drv s))
     \<and> dr_write s = Write_Wait vid (take n src @ replicate (h_size (d_heap D0) vid - n) 0)
     \<and> write_target (d_heap (dr_drv s)) vid
         = (conn_ads_port (h_conn (d_heap D0)), ams_addr_of (d_heap D0) vid, 0, 0)
     \<and> rc = fst (AdsSyncWriteReqEx lib (h_env (d_heap (dr_drv s))) (conn_ads_port (h_conn (d_heap D0)))
                  (ams_addr_of (d_heap D0) vid) 0 0 (take n src @ replicate (h_size (d_heap D0) vid - n) 0))
     \<and> dr_write s' = Write_Return vid (if rc = 0 then 0 else ads_rc_to_epicsads_error d rc)"
proof -
  let ?buffer = "take n src @ replicate (h_size (d_heap D0) vid - n) 0"
  define D1 where "D1 = snd (disc_step d lib Disc_Start D0)"
  define D2 where "D2 = snd (disc_step d lib Disc_Read_Vars D1)"
  define D3 where "D3 = snd (disc_step d lib Disc_Write_Vars D2)"
  have conn: "is_connected (d_heap D0)" using assms(2) by (simp add: up_def)
  have p1: "fst (disc_step d lib Disc_Start D0) = Disc_Read_Vars" using assms(3) conn by (simp add: Let_def)
  have "reach (disc_start D0) (disc_race_step d lib) \<lparr>dr_write = Write_Wait vid ?buffer, dr_disc = Disc_Start, dr_drv = D0\<rparr>"
    by (rule wait_reached [OF assms(1,2,4-6)])
  from race_run [OF this, folded D1_def] p1
  have "reach (disc_start D0) (disc_race_step d lib) \<lparr>dr_write = Write_Wait vid ?buffer, dr_disc = Disc_Read_Vars, dr_drv = D1\<rparr>"
    by (simp del: disc_step.simps)
  from race_run [OF this, folded D2_def]
  have "reach (disc_start D0) (disc_race_step d lib) \<lparr>dr_write = Write_Wait vid ?buffer, dr_disc = Disc_Write_Vars, dr_drv = D2\<rparr>"
    by simp
  from race_run [OF this, folded D3_def]
  have s: "reach (disc_start D0) (disc_race_step d lib) \<lparr>dr_write = Write_Wait vid ?buffer, dr_disc = Disc_Close, dr_drv = D3\<rparr>"
    (is "reach _ _ ?s") by simp
  note i = disc_invD [OF closem.reach_inv [OF s]]
  have "d_exit D3 = d_exit D0" using assms(3) conn by (simp add: D3_def D2_def D1_def Let_def)
  with i(4) assms(3) have c: "h_conn (d_heap D3) = h_conn (d_heap D0)" "named_unresolved D3" by simp_all
  have vid: "vid \<in> all_vars D3" using i(5) by simp
  have "addr_or_cleared (h_addr (d_heap D0) vid) (h_addr (d_heap D3) vid)" using same_membersD(5) [OF i(3)] by simp
  moreover have "is_resolved (d_heap D0) vid" "\<not> is_resolved (d_heap D3) vid"
    using assms(2,4) c(2) vid by (auto simp: up_def named_unresolved_def)
  ultimately have "h_addr (d_heap D3) vid = cleared (h_addr (d_heap D0) vid)"
    by (auto simp: addr_or_cleared_def is_resolved_def)
  with c(1) have target: "write_target (d_heap D3) vid = (conn_ads_port (h_conn (d_heap D0)), ams_addr_of (d_heap D0) vid, 0, 0)"
    by (simp add: write_target_def ams_addr_of_def cleared_def)
  obtain rc e where lib: "AdsSyncWriteReqEx lib (h_env (d_heap D3)) (conn_ads_port (h_conn (d_heap D0)))
      (ams_addr_of (d_heap D0) vid) 0 0 ?buffer = (rc, e)" by (metis surj_pair)
  then obtain h where "write_step d lib (Write_Wait vid ?buffer) (d_heap D3)
      = Some (Write_Return vid (if rc = 0 then 0 else ads_rc_to_epicsads_error d rc), h)"
    using target by (cases "rc = 0") (simp_all add: Let_def)
  with race_writes [of ?s d lib] have "disc_race_step d lib ?s Handler_thread
      (?s\<lparr>dr_write := Write_Return vid (if rc = 0 then 0 else ads_rc_to_epicsads_error d rc), dr_drv := D3\<lparr>d_heap := h\<rparr>\<rparr>)"
    by simp
  with s target lib conn c(1) show ?thesis by (intro exI [of _ ?s] exI conjI) (assumption | simp add: is_connected_def)+
qed

section \<open>How it ends\<close>

text \<open>
  C17. A disconnect is not held up or spoiled by handlers: it is finished after at most five of its steps,
  every one of which can be taken whatever the handlers have done, and then the driver is disconnected
  with its invariant intact, which is what connecting again starts from. A write takes at most two
  steps. A write that begins when the names have been released (and the driver does not exit) is
  refused without any request to the device.
\<close>

theorem disconnect_ends:
  assumes "reach (disc_start D0) (disc_race_step d lib) s"
  shows "(\<forall>n s'. run_while (disc_race_step d lib) (\<lambda>t. t = Scan_thread) (\<lambda>_. True) s n s' \<longrightarrow> n \<le> 5)
    \<and> (\<forall>n s'. run_while (disc_race_step d lib) (\<lambda>t. t = Handler_thread) (\<lambda>s. write_busy (dr_write s)) s n s' \<longrightarrow> n \<le> 2)
    \<and> (dr_disc s \<noteq> Disc_Return \<longrightarrow> (\<exists>s'. disc_race_step d lib s Scan_thread s'))
    \<and> (dr_disc s = Disc_Return \<longrightarrow> drv_ok (dr_drv s) \<and> down (dr_drv s) \<and> d_init (dr_drv s))
    \<and> (\<forall>vid src n. dr_disc s \<in> {Disc_Close, Disc_Clear, Disc_Return} \<longrightarrow> \<not> d_exit (dr_drv s) \<longrightarrow>
         dr_write s = Write_Start vid (Some src) n \<longrightarrow>
         write_step d lib (dr_write s) (d_heap (dr_drv s)) = Some (Write_Return vid EPICSADS_NOT_RESOLVED, d_heap (dr_drv s)))"
proof (intro conjI allI impI)
  let ?D = "dr_drv s"
  note inv = closem.reach_inv [OF assms]
  note i = disc_invD [OF inv]
  show "n \<le> 5" if "run_while (disc_race_step d lib) (\<lambda>t. t = Scan_thread) (\<lambda>_. True) s n s'" for n s'
    using closem.run_bound [OF that inv] by (cases "dr_disc s") simp_all
  show "n \<le> 2" if "run_while (disc_race_step d lib) (\<lambda>t. t = Handler_thread) (\<lambda>s. write_busy (dr_write s)) s n s'" for n s'
    using writem.run_bound [OF that inv] by (cases "dr_write s") simp_all
  show "\<exists>s'. disc_race_step d lib s Scan_thread s'" if "dr_disc s \<noteq> Disc_Return"
    using race_close [OF that, of d lib "fst (disc_step d lib (dr_disc s) ?D)" "snd (disc_step d lib (dr_disc s) ?D)"]
    by auto
  show "drv_ok ?D" by (rule i(2))
  show "down ?D" if "dr_disc s = Disc_Return"
    using i(4) that by (simp add: down_def is_connected_def closed_def)
  show "d_init ?D" using i(1,3) by (simp add: up_def same_members_def)
  show "write_step d lib (dr_write s) (d_heap ?D) = Some (Write_Return vid EPICSADS_NOT_RESOLVED, d_heap ?D)"
    if at: "dr_disc s \<in> {Disc_Close, Disc_Clear, Disc_Return}" "\<not> d_exit ?D" "dr_write s = Write_Start vid (Some src) n" for vid src n
  proof -
    have "named_unresolved ?D" using i(4) at(1,2) by auto
    moreover have vid: "vid \<in> all_vars ?D" using i(5) at(3) by simp
    ultimately have "\<not> addr_name_is_resolved (var_addr (h_vars (d_heap ?D) vid))"
      by (auto simp: named_unresolved_def is_resolved_def h_addr_def)
    moreover have "var_conn (h_vars (d_heap ?D) vid)" using drv_okD(6) [OF i(2) vid] by (simp add: var_ok_def)
    ultimately show ?thesis using at(3) by (simp add: Let_def)
  qed
qed

section \<open>The driver\<close>

text \<open>
  C18. The results about the steps of a disconnect apply to the driver: whenever the scan thread makes a
  periodic request, they hold from the state in which that request has failed, after a sum-read as
  after reading the device information. And the steps are the operations that the driver's steps take
  as one: alone, a disconnect ends with the driver that \<open>ADSDisconnect\<close> gives, and a write with the
  code and the memory of \<open>write\<close>.
\<close>

theorem driver_disconnect_interleaves:
  assumes "reach (sys_start d lib) (sys_step d lib) S" and "s_pc S \<in> {Scan_Info, Scan_State, Scan_Read}"
  shows "(\<forall>e. disc_start ((s_drv S)\<lparr>d_heap := (d_heap (s_drv S))\<lparr>h_env := e\<rparr>\<rparr>)
            \<lparr> dr_write = Write_Idle, dr_disc = Disc_Start, dr_drv = (s_drv S)\<lparr>d_heap := (d_heap (s_drv S))\<lparr>h_env := e\<rparr>\<rparr> \<rparr>)
    \<and> (\<forall>rc h. sum_read d lib (d_heap (s_drv S)) (d_req (s_drv S)) = Some (rc, h) \<longrightarrow>
         disc_start ((s_drv S)\<lparr>d_heap := h\<rparr>)
           \<lparr> dr_write = Write_Idle, dr_disc = Disc_Start, dr_drv = (s_drv S)\<lparr>d_heap := h\<rparr> \<rparr>)
    \<and> (\<forall>D n D'. steps (\<lambda>p _. p \<noteq> Disc_Return) (\<lambda>_ p D. Some (disc_step d lib p D)) Disc_Start D n Disc_Return D' \<longrightarrow>
         ADSDisconnect d lib D = (asynSuccess, D'))
    \<and> (\<forall>vid data n h k rc h'. steps (\<lambda>p _. write_busy p) (\<lambda>_. write_step d lib) (Write_Start vid data n) h k (Write_Return vid rc) h' \<longrightarrow>
         var_write d lib vid data n h = Some (rc, h'))"
proof (intro conjI allI impI)
  let ?D = "s_drv S"
  note r = reach_sys [OF assms(1)]
  note i = sys_invD [OF r(3)]
  have up: "up ?D" using i(2) assms(2) by (auto simp: at_pc_def)
  then have init: "d_init ?D" "req_initialized (d_req ?D)" by (simp_all add: up_def)
  show "disc_start (?D\<lparr>d_heap := (d_heap ?D)\<lparr>h_env := e\<rparr>\<rparr>)
      \<lparr> dr_write = Write_Idle, dr_disc = Disc_Start, dr_drv = ?D\<lparr>d_heap := (d_heap ?D)\<lparr>h_env := e\<rparr>\<rparr> \<rparr>" for e
    using val_frame_ok [OF val_frame_env i(1)] up by (simp add: disc_start_def)
  show "disc_start (?D\<lparr>d_heap := h\<rparr>) \<lparr> dr_write = Write_Idle, dr_disc = Disc_Start, dr_drv = ?D\<lparr>d_heap := h\<rparr> \<rparr>"
    if run: "sum_read d lib (d_heap ?D) (d_req ?D) = Some (rc, h)" for rc h
  proof -
    note o = drv_okD [OF i(1)]
    have "req_ok h (d_req ?D)" "read_frame (d_req ?D) (d_heap ?D) h" "all_bufs buf_initialized h (get_chunks (d_req ?D))"
      using sum_read_ok [OF r(1) o(1) init(2) o(11) [OF init(1)], of lib] run by auto
    from drv_ok_read [OF i(1) init(1) this] up show ?thesis by (simp add: disc_start_def)
  qed
  show "ADSDisconnect d lib D = (asynSuccess, D')"
    if "steps (\<lambda>p _. p \<noteq> Disc_Return) (\<lambda>_ p D. Some (disc_step d lib p D)) Disc_Start D n Disc_Return D'" for D n D'
  proof -
    have "disc_rest d lib Disc_Start D = D'"
      using closer.steps_result [OF that, of asynSuccess] by (simp add: disc_result_def)
    moreover have "fst (ADSDisconnect d lib D) = asynSuccess" by (simp add: ADSDisconnect_def Let_def)
    ultimately show ?thesis by (simp add: prod_eq_iff)
  qed
  show "var_write d lib vid data n h = Some (rc, h')"
    if "steps (\<lambda>p _. write_busy p) (\<lambda>_. write_step d lib) (Write_Start vid data n) h k (Write_Return vid rc) h'" for vid data n h k rc h'
    using writer.steps_result [OF that, of rc] by simp
qed

section \<open>Concrete instances\<close>

text \<open>The connected driver of the concrete run, at the start of a disconnect.\<close>

lemma example_disc_start:
  obtains D :: "nat driver" where "drv_ok D" and "up D" and "\<not> d_exit D" and "0 \<in> all_vars D"
    and "disc_start D \<lparr> dr_write = Write_Idle, dr_disc = Disc_Start, dr_drv = D \<rparr>"
  using example_reading by (metis disc_start_def singletonI)

text \<open>The scan thread alone comes to the end.\<close>

lemma return_reached:
  assumes "reach (disc_start D0) (disc_race_step d lib) s" and "dr_disc s \<noteq> Disc_Return"
  shows "\<exists>s'. reach (disc_start D0) (disc_race_step d lib) s' \<and> dr_disc s' = Disc_Return"
  using assms
proof (induction "disc_rank (dr_disc s)" arbitrary: s rule: less_induct)
  case less
  let ?p = "fst (disc_step d lib (dr_disc s) (dr_drv s))" and ?D = "snd (disc_step d lib (dr_disc s) (dr_drv s))"
  have step: "disc_race_step d lib s Scan_thread (s\<lparr>dr_disc := ?p, dr_drv := ?D\<rparr>)" (is "disc_race_step _ _ _ _ ?s")
    using less.prems(2) by (rule race_close) simp
  note r = reach_step [OF less.prems(1) step]
  show ?case
  proof (cases "?p = Disc_Return")
    case False
    have "disc_rank (dr_disc ?s) < disc_rank (dr_disc s)"
      using closem.own_decreases [OF closem.reach_inv [OF less.prems(1)] _ step] by simp
    from less.hyps [OF this r] False show ?thesis by simp
  qed (use r in force)
qed

theorem writes_addressed_witness:
  "\<exists>(D0 :: nat driver) s buffer rc h'.
     reach (disc_start D0) (disc_race_step ads_def_documented plc_lib) s \<and> dr_write s = Write_Wait 0 buffer
     \<and> length buffer = h_size (d_heap D0) 0
     \<and> write_step ads_def_documented plc_lib (Write_Wait 0 buffer) (d_heap (dr_drv s)) = Some (Write_Return 0 rc, h')"
proof -
  obtain D :: "nat driver" where D: "drv_ok D" "up D" "\<not> d_exit D" "0 \<in> all_vars D" by (rule example_disc_start)
  note w = wait_reached [OF D(1,2,4) le0 le0, where d = ads_def_documented and lib = plc_lib and src = "[]"]
  show ?thesis using writes_addressed [OF w select_convs(1)] w by fastforce
qed

theorem stray_write_witness:
  "\<exists>(D0 :: nat driver) s s' buffer.
     reach (disc_start D0) (disc_race_step ads_def_documented plc_lib) s
     \<and> disc_race_step ads_def_documented plc_lib s Handler_thread s' \<and> is_connected (d_heap (dr_drv s))
     \<and> dr_write s = Write_Wait 0 buffer
     \<and> write_target (d_heap (dr_drv s)) 0 = (conn_ads_port (h_conn (d_heap D0)), ams_addr_of (d_heap D0) 0, 0, 0)
     \<and> dr_write s' = Write_Return 0 0"
proof -
  obtain D :: "nat driver" where D: "drv_ok D" "up D" "\<not> d_exit D" "0 \<in> all_vars D" by (rule example_disc_start)
  have "fst (AdsSyncWriteReqEx plc_lib e port addr g off bs) = 0" for e port addr g off bs
    by (simp add: plc_lib_def sevens_lib_def example_lib_def)
  with stray_write [OF D le0 le0, where d = ads_def_documented and lib = plc_lib and src = "[]"] show ?thesis by auto
qed

theorem disconnect_ends_witness:
  "\<exists>(D0 :: nat driver) s. reach (disc_start D0) (disc_race_step ads_def_documented plc_lib) s
     \<and> dr_disc s = Disc_Return \<and> drv_ok (dr_drv s) \<and> down (dr_drv s)"
proof -
  obtain D :: "nat driver" where D: "disc_start D \<lparr> dr_write = Write_Idle, dr_disc = Disc_Start, dr_drv = D \<rparr>"
    by (rule example_disc_start)
  from D have "reach (disc_start D) (disc_race_step ads_def_documented plc_lib)
      \<lparr> dr_write = Write_Idle, dr_disc = Disc_Start, dr_drv = D \<rparr>" by (rule reach_init)
  from return_reached [OF this] obtain s
    where "reach (disc_start D) (disc_race_step ads_def_documented plc_lib) s" "dr_disc s = Disc_Return"
    by fastforce
  with disconnect_ends [OF this(1)] show ?thesis by blast
qed

theorem driver_disconnect_interleaves_witness:
  "\<exists>S :: nat sys. s_pc S = Scan_Read
     \<and> disc_start (s_drv S) \<lparr> dr_write = Write_Idle, dr_disc = Disc_Start, dr_drv = s_drv S \<rparr>"
proof -
  obtain D where D: "example_reach \<lparr>s_pc = Scan_Read, s_drv = D, s_hooked = True\<rparr>" by (rule example_reading)
  have "s_pc \<lparr>s_pc = Scan_Read, s_drv = D, s_hooked = True\<rparr> \<in> {Scan_Info, Scan_State, Scan_Read}" by simp
  from spec [OF conjunct1 [OF driver_disconnect_interleaves [OF D this]], of "h_env (d_heap D)"] show ?thesis
    by (intro exI [of _ "\<lparr>s_pc = Scan_Read, s_drv = D, s_hooked = True\<rparr>"]) simp
qed

end
