(* ===== verification/Driver_Theorems.thy ===== *)
theory Driver_Theorems
  imports Driver_Props
begin

text \<open>The properties of the running driver, each with an instance in the run of \<open>example_fresh\<close>.\<close>

section \<open>What "connected" means\<close>

text \<open>
  C2. In every state the driver can reach, whatever its scan thread, the records, the ADS device and
  shutdown do in whatever order: it is connected exactly when the sum-read request is initialised;
  then every variable of the driver is resolved, and the request holds exactly the variables to be
  read, each with its index group, index offset and size. When it is not connected and not asked to
  stop, no variable is resolved. While interrupts are processed, it is connected and the data of all
  buffers are valid. A variable the request does not read is a write variable without read-back.
\<close>

theorem driver_connected:
  assumes "reach (sys_start d lib) (sys_step d lib) s" and "D = s_drv s"
  shows "is_connected (d_heap D) = req_initialized (d_req D)
    \<and> (is_connected (d_heap D) \<longrightarrow> (\<forall>vid < d_next_var D. is_resolved (d_heap D) vid)
         \<and> set (req_variables (d_req D)) = set (d_read_vars D) \<and> complete_request (d_heap D) (d_req D))
    \<and> (\<not> is_connected (d_heap D) \<and> \<not> d_exit D \<longrightarrow> (\<forall>vid < d_next_var D. \<not> is_resolved (d_heap D) vid))
    \<and> (s_pc s = Scan_Intr \<longrightarrow> is_connected (d_heap D) \<and> all_valid (d_heap D) (get_chunks (d_req D)))
    \<and> (\<forall>vid < d_next_var D. vid \<in> set (d_read_vars D) \<or>
          addr_operation (h_addr (d_heap D) vid) = Write \<and> \<not> var_write_readback (h_vars (d_heap D) vid))
    \<and> req_ok (d_heap D) (d_req D)"
proof -
  note i = sys_invD [OF reach_sys(3) [OF assms(1)], folded assms(2)]
  note o = drv_okD(1,7,10) [OF i(1)]
  have "up D \<or> down D" and intr: "s_pc s = Scan_Intr \<Longrightarrow> up D" using i(2) by (auto simp: at_pc_def)
  then show ?thesis
    using o i(3) by (auto simp: up_def down_def named_unresolved_def all_vars_def)
qed

theorem driver_connected_witness:
  "\<exists>s. example_reach s \<and> s_pc s = Scan_Intr \<and> is_connected (d_heap (s_drv s)) \<and> is_resolved (d_heap (s_drv s)) 0
     \<and> req_initialized (d_req (s_drv s)) \<and> set (req_variables (d_req (s_drv s))) = set (d_read_vars (s_drv s))"
proof -
  obtain s where s: "example_reach s" "s_pc s = Scan_Intr" "all_vars (s_drv s) = {0}" by (rule example_fresh)
  then have "0 < d_next_var (s_drv s)" by (auto simp: all_vars_def)
  with driver_connected [OF s(1) refl] s show ?thesis by blast
qed

section \<open>Memory safety\<close>

text \<open>When the buffers are initialised reading is defined but for the copy of a value that was written.\<close>

lemma read_defined:
  assumes ok: "drv_ok D" and n: "n \<le> length dst"
  shows "read_from_buffer d vid n (Some dst) (d_heap D) = None \<longleftrightarrow>
    vid \<in> set (req_variables (d_req D)) \<and> data_valid (d_heap D) vid \<and> slot_code (d_heap D) vid = 0
    \<and> readback_pending (d_heap D) vid \<and> length dst < length (var_last_written (h_vars (d_heap D) vid))"
proof (cases "vid \<in> set (req_variables (d_req D))")
  case False
  with drv_okD(8) [OF ok False] show ?thesis by (simp add: read_from_buffer_def Let_def h_reader_def)
next
  case True
  note o = drv_okD [OF ok]
  have "d_init D" using True o(12) fresh_request_empty(2) by fastforce
  note eq = read_from_buffer_eq [OF o(1) o(11) [OF this] True n]
  have "length (slot_data (d_heap D) vid (min n (h_size (d_heap D) vid)) @ drop (min n (h_size (d_heap D) vid)) dst) = length dst"
    using eq(2) n by simp
  with True show ?thesis unfolding eq(1) by (simp add: Let_def mem_write_def)
qed

lemma write_defined:
  "var_write d lib vid (Some src) n h = None \<longleftrightarrow>
     var_conn (h_vars h vid) \<and> addr_name_is_resolved (h_addr h vid) \<and> n \<le> h_size h vid \<and> length src < n"
proof (cases "n \<le> length src")
  case True
  then have r: "mem_read src 0 n = Some (take n src)" by simp
  show ?thesis using True by (auto simp: var_write_def Let_def r mem_write_def split: prod.splits)
next
  case False
  then have r: "mem_read src 0 n = None" by (simp add: mem_read_def)
  show ?thesis using False by (auto simp: var_write_def Let_def r h_addr_def h_size_def)
qed

text \<open>
  C1. Memory safety of the running driver, and exactly where it ends. In every reachable state the next
  step of the scan thread is defined, whichever it is: it runs into no read or write out of bounds
  and no stale pointer, given the documented contract of the ADS library and at most 16 characters of
  device name. For the calls of other threads it says exactly which are not: reading \<open>n\<close> bytes of a
  variable into memory \<open>dst\<close> of at least \<open>n\<close> bytes writes past its end exactly if the variable's data are
  valid and a value longer than \<open>dst\<close> waits to be read back; such a value is never longer than the
  variable, so memory as large as the variable is always safe. Writing \<open>n\<close> bytes from memory \<open>src\<close> reads
  past its end exactly if \<open>n\<close> is larger than \<open>src\<close> and the write is not refused before. The runs are
  those in which the vectors of a chunk could grow when the request was allocated
  (\<open>request_mem\<close> in \<open>sys_hook\<close>).
\<close>

theorem driver_memory_safe:
  assumes "reach (sys_start d lib) (sys_step d lib) s" and "h = d_heap (s_drv s)"
  shows "(\<forall>se. scan_env_ok (s_drv s) se \<longrightarrow>
        (\<exists>evs pc' D'. scan_step d lib se (s_pc s) (s_drv s) = Some (evs, pc', D')))
    \<and> (\<forall>vid n dst. n \<le> length dst \<longrightarrow>
        (read_from_buffer d vid n (Some dst) h = None \<longleftrightarrow>
           vid \<in> set (req_variables (d_req (s_drv s))) \<and> data_valid h vid \<and> slot_code h vid = 0
           \<and> readback_pending h vid \<and> length dst < length (var_last_written (h_vars h vid))))
    \<and> (\<forall>vid < d_next_var (s_drv s). length (var_last_written (h_vars h vid)) \<le> h_size h vid)
    \<and> (\<forall>vid n src. var_write d lib vid (Some src) n h = None \<longleftrightarrow>
        var_conn (h_vars h vid) \<and> addr_name_is_resolved (h_addr h vid) \<and> n \<le> h_size h vid \<and> length src < n)"
proof -
  note r = reach_sys [OF assms(1)]
  note i = sys_invD [OF r(3)]
  have "length (var_last_written (h_vars h vid)) \<le> h_size h vid" if "vid < d_next_var (s_drv s)" for vid
  proof -
    have "vid \<in> all_vars (s_drv s)" using that by (simp add: all_vars_def)
    from drv_okD(6) [OF i(1) this] show ?thesis by (simp add: var_ok_def h_size_def assms(2))
  qed
  moreover have "\<exists>evs pc' D'. scan_step d lib se (s_pc s) (s_drv s) = Some (evs, pc', D')"
    if "scan_env_ok (s_drv s) se" for se
    using scan_step_ok [OF r(1,2) i(1-4) that] by blast
  ultimately show ?thesis unfolding assms(2) by (intro conjI allI impI read_defined [OF i(1)] write_defined) blast+
qed

theorem driver_memory_safe_witness:
  "\<exists>s. example_reach s \<and> s_pc s = Scan_Intr
     \<and> scan_step ads_def_documented plc_lib (quiet_env\<lparr>se_interrupts := [0]\<rparr>) Scan_Intr (s_drv s) \<noteq> None"
proof -
  obtain s where s: "example_reach s" "s_pc s = Scan_Intr" "all_vars (s_drv s) = {0}" by (rule example_fresh)
  have "scan_env_ok (s_drv s) (quiet_env\<lparr>se_interrupts := [0]\<rparr>)"
    using s(3) quiet_env_ok [of "s_drv s"] by (simp add: scan_env_ok_def)
  with conjunct1 [OF driver_memory_safe [OF s(1) refl]] s
  have "\<exists>evs pc' D'. scan_step ads_def_documented plc_lib (quiet_env\<lparr>se_interrupts := [0]\<rparr>) Scan_Intr (s_drv s)
      = Some (evs, pc', D')" by metis
  with s show ?thesis by (intro exI [of _ s]) auto
qed

section \<open>The promise to the outside\<close>

text \<open>
  C3. The driver refines a machine with four phases: each of its steps, of whichever thread, either
  stays in its phase without a callback, or is a step of that machine. Offline can become online,
  online can lose its connection or get fresh data, and only fresh data lead to values for
  records, in a single step that calls the callbacks once, at its end, and ends online; there is no
  way back from stopped.
\<close>

theorem driver_refines:
  assumes "reach (sys_start d lib) (sys_step d lib) s" and "sys_step d lib s l s'"
  shows "phase_step (phase_of s) (label_events l) (phase_of s') \<or> phase_of s' = phase_of s \<and> label_events l = []"
  using assms by (rule phases.reach_simulates)

theorem driver_refines_witness:
  "\<exists>s s' evs. example_reach s \<and> sys_step ads_def_documented plc_lib s (Scan_label evs) s'
     \<and> phase_of s = Fresh \<and> phase_of s' = Online"
proof -
  obtain s where s: "example_reach s" "s_pc s = Scan_Intr" by (rule example_fresh)
  note r = reach_sys [OF s(1)]
  obtain evs pc' D' where run: "scan_step ads_def_documented plc_lib quiet_env (s_pc s) (s_drv s) = Some (evs, pc', D')"
    using scan_step_ok [OF r(1,2) sys_invD(1-4) [OF r(3)] quiet_env_ok] by blast
  let ?s' = "s\<lparr>s_pc := pc', s_drv := D'\<rparr>"
  have step: "sys_step ads_def_documented plc_lib s (Scan_label evs) ?s'" by (rule sys_scan [OF quiet_env_ok run])
  have p: "phase_of s = Fresh" using s(2) by (simp add: phase_of_def)
  have "pc' \<in> set (scan_flow Scan_Intr)" using scan_step_flow [OF run] s(2) by simp
  then have "phase_of ?s' \<noteq> Fresh" by (simp add: scan_flow_def phase_of_def)
  with driver_refines [OF s(1) step] p have "phase_of ?s' = Online" by (auto simp: phase_step_def)
  with s(1) step p show ?thesis by blast
qed

section \<open>Recovery and shutdown\<close>

text \<open>
  C4. Recovery: when the ADS library serves the driver, an initialised driver that is not asked to
  stop gets fresh data within six steps of its scan thread, from whatever reachable state and
  however the other threads and the device interleave: no run without fresh data contains more.
\<close>

theorem driver_recovers:
  assumes "reach (sys_start d lib) (sys_step d lib) s" and "serving lib"
    and "run_while (sys_step d lib) scan_label stale s n s'"
  shows "n + recover_rank s' \<le> recover_rank s \<and> n \<le> 6"
proof -
  have "sys_ok d lib s" by (rule sysm.reach_inv [OF assms(1)])
  with recovers.run_bound [OF assms(3)] assms(2) have "n + recover_rank s' \<le> recover_rank s" by blast
  moreover have "recover_rank s \<le> 6" by (simp add: recover_rank_def split: scan_pc.splits)
  ultimately show ?thesis by simp
qed

theorem driver_recovers_witness:
  "\<exists>s s'. example_reach s \<and> \<not> is_connected (d_heap (s_drv s))
     \<and> run_while (sys_step ads_def_documented plc_lib) scan_label stale s 1 s'
     \<and> (\<nexists>s2. run_while (sys_step ads_def_documented plc_lib) scan_label stale s 7 s2)"
proof -
  obtain D where r: "example_reach \<lparr>s_pc = Scan_Head, s_drv = D, s_hooked = True\<rparr>" (is "reach _ _ ?s")
    and D: "d_init D" "\<not> d_exit D" "down D" by (rule example_hooked)
  have "scan_step ads_def_documented plc_lib quiet_env (s_pc ?s) (s_drv ?s) = Some ([], Scan_Connect, D)"
    using D by (simp add: down_def)
  from sys_scan [OF quiet_env_ok this]
  have step: "sys_step ads_def_documented plc_lib ?s (Scan_label []) (?s\<lparr>s_pc := Scan_Connect, s_drv := D\<rparr>)" .
  have st: "stale ?s" using D by (simp add: stale_def)
  have "run_while (sys_step ads_def_documented plc_lib) scan_label stale ?s (Suc 0) (?s\<lparr>s_pc := Scan_Connect, s_drv := D\<rparr>)"
    using run_nil st step by (rule run_own) (simp add: scan_label_def)
  then have "run_while (sys_step ads_def_documented plc_lib) scan_label stale ?s 1 (?s\<lparr>s_pc := Scan_Connect, s_drv := D\<rparr>)"
    by simp
  moreover have "\<nexists>s2. run_while (sys_step ads_def_documented plc_lib) scan_label stale ?s 7 s2"
    using driver_recovers [OF r plc_lib_ok(2), of 7] by auto
  moreover have "\<not> is_connected (d_heap (s_drv ?s))" using D(3) by (simp add: down_def)
  ultimately show ?thesis using r by blast
qed

text \<open>
  C5. Shutdown ends: once the destructor has set the flag, the scan thread finishes within six of its
  steps, whatever the other threads and the device do, and then the driver is disconnected.
\<close>

theorem driver_stops:
  assumes "reach (sys_start d lib) (sys_step d lib) s" and "d_exit (s_drv s)"
    and "run_while (sys_step d lib) scan_label (\<lambda>s. d_exit (s_drv s) \<and> s_pc s \<noteq> Scan_Done) s n s'"
  shows "n \<le> 6 \<and> (s_pc s' = Scan_Done \<longrightarrow> \<not> is_connected (d_heap (s_drv s')))"
proof -
  have run: "run_while (sys_step d lib) scan_label stopping s n s'"
    using assms(3) by (simp add: stopping_def [abs_def])
  have ok: "sys_ok d lib s" by (rule sysm.reach_inv [OF assms(1)])
  have "exit_rank (s_pc s) \<le> 6" by (simp add: exit_rank_def split: scan_pc.splits)
  with exits.run_bound [OF run ok] have "n \<le> 6" by simp
  moreover have "sys_ok d lib s'" by (rule sysm.run_inv [OF run ok])
  then have "at_pc (s_pc s') (s_drv s')" by (simp add: sys_ok_def sys_inv_def)
  ultimately show ?thesis by (auto simp: at_pc_def down_def)
qed

theorem driver_stops_witness:
  "\<exists>s. example_reach s \<and> s_pc s = Scan_Intr \<and> d_exit (s_drv s)
     \<and> (\<nexists>s'. run_while (sys_step ads_def_documented plc_lib) scan_label
           (\<lambda>s. d_exit (s_drv s) \<and> s_pc s \<noteq> Scan_Done) s 7 s')"
proof -
  obtain s where s: "example_reach s" "s_pc s = Scan_Intr" by (rule example_fresh)
  let ?s = "s\<lparr>s_drv := signal_exit (s_drv s)\<rparr>"
  have r: "example_reach ?s" by (rule reach_step [OF s(1) sys_exit])
  have "d_exit (s_drv ?s)" by (simp add: signal_exit_def)
  with driver_stops [OF r this, of 7] r s(2) show ?thesis by (intro exI [of _ ?s]) auto
qed

text \<open>
  C26. Destruction: in any reachable state, destroying the request frees exactly its buffers and
  leaves no variable that points into a buffer, neither into one of the freed ones nor into another;
  what is known of the connection and the other members are not touched.
\<close>

theorem driver_destroyed:
  assumes "reach (sys_start d lib) (sys_step d lib) s"
  shows "(\<forall>vid. h_reader (d_heap (destroy (s_drv s))) vid = EMPTY_BUFFER_DATA_POSITION)
    \<and> h_bufs (d_heap (destroy (s_drv s))) = (\<lambda>bid. if bid \<in> set (req_buffers (d_req (s_drv s))) then None
          else h_bufs (d_heap (s_drv s)) bid)
    \<and> get_chunks (d_req (destroy (s_drv s))) = [] \<and> h_conn (d_heap (destroy (s_drv s))) = h_conn (d_heap (s_drv s))"
proof -
  let ?D = "s_drv s" and ?r = "snd (deinitialize (d_req (s_drv s)))"
  have ok: "drv_ok ?D" using reach_sys(3) [OF assms] by (simp add: sys_inv_def)
  have "same_chunks (d_req ?D) ?r" by (rule deinitialize_ok(2) [OF surjective_pairing])
  note sc = same_chunks_ok [OF this]
  obtain rc h r where run: "deallocate (d_heap ?D) ?r = (rc, h, r)" by (cases "deallocate (d_heap ?D) ?r") auto
  note e = deallocate_eq [OF run]
  have D: "d_heap (destroy ?D) = h" "d_req (destroy ?D) = r" using run by (simp_all add: destroy_def)
  show ?thesis
    using drv_okD(8) [OF ok] sc e(3) unfolding D e(2)
    by (auto simp: h_reader_def set_buffer_reader_def fun_eq_iff get_chunks_def)
qed

theorem driver_destroyed_witness:
  "\<exists>s. example_reach s \<and> s_pc s = Scan_Intr
     \<and> (\<forall>vid. h_reader (d_heap (destroy (s_drv s))) vid = EMPTY_BUFFER_DATA_POSITION)"
proof -
  obtain s where s: "example_reach s" "s_pc s = Scan_Intr" by (rule example_fresh)
  from driver_destroyed [OF s(1)] s show ?thesis by blast
qed

section \<open>The data that callbacks and handlers see\<close>

text \<open>
  How \<open>read_from_buffer\<close> hands on the answer of the device for a variable: return code and data, or, once
  after a write with read-back, the value that was written.
\<close>

definition delivered :: "'e heap \<Rightarrow> nat \<Rightarrow> nat \<times> byte list \<Rightarrow> nat \<Rightarrow> byte list \<Rightarrow> (int \<times> byte list option \<times> 'e heap) option" where
  "delivered h vid answer n dst =
     (let m = min n (h_size h vid); out = take m (snd answer) @ drop m dst in
      if fst answer \<noteq> 0 then Some (EPICSADS_NO_DATA, Some out, h)
      else if readback_pending h vid
        then Option.bind (mem_write out (var_last_written (h_vars h vid))) (\<lambda>out'.
               Some (0, Some out', upd_var vid (\<lambda>v. v\<lparr>var_last_written := []\<rparr>) h))
      else Some (0, Some out, h))"

lemma scan_read_step:
  assumes "sys_ok d lib s" and "sys_step d lib s (Scan_label evs) s'" and "s_pc s = Scan_Read" and "s_pc s' = Scan_Intr"
  obtains h' where "sum_read d lib (d_heap (s_drv s)) (d_req (s_drv s)) = Some (0, h')"
    and "s_drv s' = (s_drv s)\<lparr>d_heap := h'\<rparr>"
proof -
  obtain se where "scan_step d lib se (s_pc s) (s_drv s) = Some (evs, s_pc s', s_drv s')"
    using scan_label_step [OF assms(1,2)] by blast
  then have run: "doSumRead d lib (s_drv s) = Some (asynSuccess, s_drv s')"
    using assms(3,4) by (auto split: if_splits)
  then obtain rc h' where r: "sum_read d lib (d_heap (s_drv s)) (d_req (s_drv s)) = Some (rc, h')"
    and e: "asyn_of_rc rc = asynSuccess"
      "s_drv s' = (if rc \<noteq> 0 then snd (ADSDisconnect d lib ((s_drv s)\<lparr>d_heap := h'\<rparr>)) else (s_drv s)\<lparr>d_heap := h'\<rparr>)"
    by (auto simp: doSumRead_def bind_eq_Some_conv Let_def)
  from e(1) have "rc = 0" by simp
  with r e(2) show ?thesis by (intro that [of h']) simp_all
qed

text \<open>
  C6. End to end, in the running driver: when the scan thread's periodic read has succeeded, then for
  every variable on the read list there is a state of the ADS device such that reading \<open>n\<close> bytes of it
  delivers what the device answers in that state to a request for the index group and offset to
  which this variable's name was resolved, with its own size, at its own ADS port: the first \<open>n\<close> bytes
  with return code 0, or \<open>NO_DATA\<close> if the device reports an error for it; after a write with read-back
  the written value takes the place of the data. Variables are at most 2 GiB.
\<close>

theorem driver_delivers:
  assumes "reach (sys_start d lib) (sys_step d lib) s" and "sys_step d lib s (Scan_label evs) s'"
    and "s_pc s = Scan_Read" and "s_pc s' = Scan_Intr" and "answers_sum_reads d lib plc" and "h = d_heap (s_drv s)"
    and "\<forall>vid \<in> set (d_read_vars (s_drv s)). h_size h vid \<le> 2 ^ 31" and "vid \<in> set (d_read_vars (s_drv s))"
  shows "\<exists>e. \<forall>n dst. n \<le> length dst \<longrightarrow>
    read_from_buffer d vid n (Some dst) (d_heap (s_drv s')) =
      delivered (d_heap (s_drv s')) vid (plc e (remote_ams_netid (h_conn h), addr_ads_port (h_addr h vid))
          (addr_index_group (h_addr h vid), addr_index_offset (h_addr h vid), h_size h vid)) n dst"
proof -
  have sys: "sys_ok d lib s" by (rule sysm.reach_inv [OF assms(1)])
  let ?D = "s_drv s" and ?r = "d_req (s_drv s)"
  obtain h' where step: "sum_read d lib (d_heap ?D) ?r = Some (0, h')" "s_drv s' = ?D\<lparr>d_heap := h'\<rparr>"
    by (rule scan_read_step [OF sys assms(2-4)])
  note run = step(1) [folded assms(6)]
  have D': "d_heap (s_drv s') = h'" by (simp add: step(2))
  have wf: "wf_ads_def d" and inv: "sys_inv s" using sys by (simp_all add: sys_ok_def)
  note o = drv_okD [OF sys_invD(1) [OF inv], folded assms(6)]
  have up: "up ?D" using sys_invD(2) [OF inv] assms(3) by (auto simp: at_pc_def)
  then have init: "d_init ?D" "req_initialized ?r" and compl: "complete_request h ?r"
    and fit: "\<And>vid. vid \<in> all_vars ?D \<Longrightarrow> fits32 (var_request h vid)" by (auto simp: up_def assms(6))
  have rs: "set (req_variables ?r) = set (d_read_vars ?D)" by (rule o(10) [OF init(1)])
  have vars: "readable_vars h ?r"
    using assms(7) fit o(5) unfolding readable_vars_def rs by blast
  obtain c where c: "c \<in> set (get_chunks ?r)" "vid \<in> set (chunk_variables c)"
    using assms(8) unfolding rs [symmetric] by (auto simp: req_variables_def)
  note bufs = o(11) [OF init(1)]
  obtain e where e: "data_valid h' vid" "slot_code h' vid = fst (plc e (chunk_addr h c) (var_request h vid))"
    "\<And>n. n \<le> h_size h vid \<Longrightarrow> slot_data h' vid n = take n (snd (plc e (chunk_addr h c) (var_request h vid)))"
    using sum_read_slots [OF wf assms(5) o(1) init(2) bufs compl vars run c(1)] c(2) by blast
  have ok': "req_ok h' ?r" and frame: "read_frame ?r h h'" and init': "all_bufs buf_initialized h' (get_chunks ?r)"
    using sum_read_ok [OF wf o(1) init(2) bufs, of lib] run by auto
  have sz: "h_size h' = h_size h" using frame by (simp add: read_frame_def h_size_def [abs_def])
  have "chunk_ads_port c = addr_ads_port (h_addr h vid)"
    using o(1) c by (auto simp: req_ok_def chunks_ok_def chunk_ok_def)
  then have ask: "chunk_addr h c = (remote_ams_netid (h_conn h), addr_ads_port (h_addr h vid))"
    "var_request h vid = (addr_index_group (h_addr h vid), addr_index_offset (h_addr h vid), h_size h vid)"
    by (simp_all add: chunk_addr_def var_request_def h_size_def)
  show ?thesis
  proof (intro exI [of _ e] allI impI)
    fix n and dst :: "byte list" assume n: "n \<le> length dst"
    have slot: "slot_data h' vid (min n (h_size h vid))
        = take (min n (h_size h vid)) (snd (plc e (chunk_addr h c) (var_request h vid)))" by (rule e(3)) simp
    show "read_from_buffer d vid n (Some dst) (d_heap (s_drv s')) =
      delivered (d_heap (s_drv s')) vid (plc e (remote_ams_netid (h_conn h), addr_ads_port (h_addr h vid))
          (addr_index_group (h_addr h vid), addr_index_offset (h_addr h vid), h_size h vid)) n dst"
      unfolding D' read_from_buffer_eq(1) [OF ok' init' chunk_in_req [OF c] n] sz ask [symmetric] delivered_def
        slot e(2) Let_def by (simp only: e(1) simp_thms if_True if_False)
  qed
qed

theorem driver_delivers_witness:
  "\<exists>s s' evs. example_reach s \<and> sys_step ads_def_documented plc_lib s (Scan_label evs) s' \<and> s_pc s' = Scan_Intr
     \<and> read_from_buffer ads_def_documented 0 10 (Some (replicate 10 0)) (d_heap (s_drv s'))
         = delivered (d_heap (s_drv s')) 0 (0, replicate (h_size (d_heap (s_drv s)) 0) 7) 10 (replicate 10 0)"
proof -
  obtain D where r: "example_reach \<lparr>s_pc = Scan_Read, s_drv = D, s_hooked = True\<rparr>" (is "reach _ _ ?s")
    and D: "up D" "drv_ok D" "d_read_vars D = [0]" "h_size (d_heap D) 0 \<le> 10" by (rule example_reading)
  obtain D2 where "doSumRead ads_def_documented plc_lib D = Some (asynSuccess, D2)"
    using doSumRead_ok [OF wf_ads_def_documented D(2,1), of plc_lib] plc_lib_ok(2) by (auto simp: serving_def)
  then have "scan_step ads_def_documented plc_lib quiet_env (s_pc ?s) (s_drv ?s) = Some ([], Scan_Intr, D2)" by simp
  from sys_scan [OF quiet_env_ok this]
  have step: "sys_step ads_def_documented plc_lib ?s (Scan_label []) (?s\<lparr>s_pc := Scan_Intr, s_drv := D2\<rparr>)"
    (is "sys_step _ _ _ _ ?s'") .
  have ans: "answers_sum_reads ads_def_documented plc_lib sevens"
    using sevens_answers [of ads_def_documented] by (simp add: answers_sum_reads_def plc_lib_def)
  have pcs: "s_pc ?s = Scan_Read" "s_pc ?s' = Scan_Intr"
    and v: "\<forall>vid \<in> set (d_read_vars (s_drv ?s)). h_size (d_heap D) vid \<le> 2 ^ 31" "0 \<in> set (d_read_vars (s_drv ?s))"
    and h: "d_heap D = d_heap (s_drv ?s)" using D by simp_all
  have "10 \<le> length (replicate 10 (0 :: byte))" by simp
  with driver_delivers [OF r step pcs ans h v]
  have "read_from_buffer ads_def_documented 0 10 (Some (replicate 10 0)) (d_heap (s_drv ?s'))
      = delivered (d_heap (s_drv ?s')) 0 (0, replicate (h_size (d_heap D) 0) 7) 10 (replicate 10 0)"
    unfolding sevens_def by auto
  with r step pcs(2) h show ?thesis by metis
qed

end
