(* ===== verification/Reports.thy ===== *)
theory Reports
  imports Driver_Theorems "HOL-Library.Sublist"
begin

text \<open>
  \<open>SumReadRequest::print_info\<close>: the report about a sum-read request, as the characters that are
  written to the stream. \<open>None\<close> is an access to an element that a vector does not have, or to a
  buffer that does not exist.
\<close>

section \<open>The conversions of \<open>fprintf\<close>\<close>

definition end_line :: string where "end_line = [CHR 0x0A]"

text \<open>\<open>%i\<close> of a size that is returned as an \<open>int\<close>, and \<open>%s\<close> of the characters of a string.\<close>

definition int_str :: "nat \<Rightarrow> string" where
  "int_str n = (if u32 n < 2 ^ 31 then dec_str (u32 n) else ''-'' @ dec_str (2 ^ 32 - u32 n))"

definition c_str :: "string \<Rightarrow> string" where
  "c_str cs = takeWhile (\<lambda>c. c \<noteq> CHR 0x00) cs"

text \<open>\<open>%#09x\<close>: at least nine characters, with \<open>0x\<close> in front unless the number is 0.\<close>

definition hex_field :: "nat \<Rightarrow> string" where
  "hex_field n = (if n = 0 then replicate 9 (CHR ''0'')
     else ''0x'' @ replicate (7 - length (hex_str n)) (CHR ''0'') @ hex_str n)"

definition yes_no :: "bool \<Rightarrow> string" where
  "yes_no b = (if b then ''yes'' else ''no'')"

section \<open>The report\<close>

definition is_allocated :: "sum_read_request \<Rightarrow> bool" where
  "is_allocated r \<longleftrightarrow> req_allocated r"

definition is_initialized :: "sum_read_request \<Rightarrow> bool" where
  "is_initialized r \<longleftrightarrow> req_initialized r"

definition report_summary :: "sum_read_request \<Rightarrow> string" where
  "report_summary r =
     ''Sum-read request report:'' @ end_line
     @ '' Summary:'' @ end_line
     @ ''   - Max number of variables per sum-request and sum-read buffer: '' @ dec_str (req_max_vars r) @ end_line
     @ ''   - Number of sum-request and sum-read buffers (chunks) allocated: '' @ int_str (get_num_chunks r) @ end_line
     @ ''   - Buffers allocated: '' @ yes_no (is_allocated r) @ end_line
     @ ''   - Buffers initialized: '' @ yes_no (is_initialized r) @ end_line"

definition report_variable :: "ads_address \<Rightarrow> symbol_info \<Rightarrow> string" where
  "report_variable a req_info =
     (case req_info of (g, off, len) \<Rightarrow>
        ''       - Name: '' @ [CHR 0x27] @ c_str (info a) @ [CHR 0x27] @ end_line
        @ ''       - Port: '' @ dec_str (addr_ads_port a) @ ''; IGrp: '' @ hex_field g
        @ ''; Ioff: '' @ hex_field off @ ''; Length: '' @ dec_str len @ end_line)"

text \<open>The variables of a chunk from \<open>i_var\<close> on, \<open>n\<close> in all.\<close>

fun report_variables :: "'e heap \<Rightarrow> symbol_info list \<Rightarrow> nat \<Rightarrow> nat list \<Rightarrow> nat \<Rightarrow> string option" where
  "report_variables h reqs n [] i_var = Some []"
| "report_variables h reqs n (vid # vids) i_var =
     (if i_var < length reqs
      then map_option (\<lambda>rest.
             ''    - Variable '' @ dec_str (i_var + 1) @ ''/'' @ dec_str n @ '':'' @ end_line
             @ report_variable (h_addr h vid) (reqs ! i_var) @ rest)
             (report_variables h reqs n vids (i_var + 1))
      else None)"

definition report_chunk :: "'e heap \<Rightarrow> sum_read_request \<Rightarrow> int \<Rightarrow> nat \<Rightarrow> read_request_chunk \<Rightarrow> string option" where
  "report_chunk h r details i_chunk c =
     Option.bind (h_bufs h (chunk_buffer c)) (\<lambda>b.
       map_option (\<lambda>vars.
         ''  Buffers chunk #'' @ dec_str (i_chunk + 1) @ ''/'' @ int_str (get_num_chunks r) @ '':'' @ end_line
         @ ''    - ADS port: '' @ dec_str (chunk_ads_port c) @ end_line
         @ ''    - Number of variables: '' @ dec_str (length (chunk_variables c)) @ end_line
         @ ''    - Sum-read buffer size: '' @ dec_str (buf_buffer_size b) @ '' bytes'' @ end_line
         @ vars)
       (if details \<ge> 3
        then map_option (\<lambda>vars. ''    - Sum-request buffer elements:'' @ end_line @ vars)
               (report_variables h (chunk_request c) (length (chunk_variables c)) (chunk_variables c) 0)
        else Some []))"

fun report_chunks :: "'e heap \<Rightarrow> sum_read_request \<Rightarrow> int \<Rightarrow> nat \<Rightarrow> read_request_chunk list \<Rightarrow> string option" where
  "report_chunks h r details i_chunk [] = Some []"
| "report_chunks h r details i_chunk (c # cs) =
     Option.bind (report_chunk h r details i_chunk c) (\<lambda>out.
       map_option (\<lambda>rest. out @ rest) (report_chunks h r details (i_chunk + 1) cs))"

definition print_info :: "'e heap \<Rightarrow> sum_read_request \<Rightarrow> int \<Rightarrow> string option" where
  "print_info h r details =
     map_option (\<lambda>chunks. (if details \<ge> 1 then report_summary r else []) @ chunks)
       (if details \<ge> 2
        then map_option (\<lambda>chunks. '' Details:'' @ end_line @ chunks) (report_chunks h r details 0 (get_chunks r))
        else Some [])"

section \<open>What it writes\<close>

text \<open>What \<open>%#09x\<close> writes is what \<open>std::stol\<close> reads back.\<close>

lemma digits_value_zeros: "digits_value base (replicate k (CHR ''0'') @ s) = digits_value base s"
proof (induction k)
  case (Suc k)
  then show ?case by (simp add: digits_value_def digit_val_def)
qed simp

lemma stol_hex_field: "int n \<le> LONG_MAX \<Longrightarrow> stol 16 (hex_field n) = Inr (int n)"
proof (cases "n = 0")
  case False
  let ?s = "replicate (7 - length (hex_str n)) (CHR ''0'') @ hex_str n"
  assume n: "int n \<le> LONG_MAX"
  have "?s \<noteq> []" "\<forall>c \<in> set ?s. is_digit 16 c"
    using show_base_digits [of 16 n] by (auto simp: hex_str_def is_digit_def digit_val_def)
  from scan_long_0x [OF this] have "scan_long 16 (''0x'' @ ?s) = Some (int n)"
    using show_base_digits [of 16 n] by (simp add: digits_value_zeros hex_str_def)
  with False n show ?thesis by (simp add: hex_field_def stol_def LONG_MIN_def)
qed (simp add: hex_field_def; code_simp)

lemma sublist_before: "sublist xs ys \<Longrightarrow> sublist xs (us @ ys)"
  and sublist_after: "sublist xs ys \<Longrightarrow> sublist xs (ys @ us)"
  using append_assoc unfolding sublist_def by metis+

text \<open>In an index list of the whole length every variable has its lines.\<close>

lemma report_variables_lines:
  assumes "length reqs = i + length vids"
  shows "\<exists>out. report_variables h reqs n vids i = Some out \<and>
    (\<forall>j < length vids. sublist (report_variable (h_addr h (vids ! j)) (reqs ! (i + j))) out)"
  using assms
proof (induction vids arbitrary: i)
  case (Cons vid vids)
  then obtain out where out: "report_variables h reqs n vids (i + 1) = Some out"
    "\<And>j. j < length vids \<Longrightarrow> sublist (report_variable (h_addr h (vids ! j)) (reqs ! (i + 1 + j))) out"
    by fastforce
  let ?no = "''    - Variable '' @ dec_str (i + 1) @ ''/'' @ dec_str n @ '':'' @ end_line"
  let ?var = "\<lambda>j. report_variable (h_addr h ((vid # vids) ! j)) (reqs ! (i + j))"
  have all: "report_variables h reqs n (vid # vids) i = Some (?no @ ?var 0 @ out)"
    using out(1) Cons.prems by simp
  have "sublist (?var j) (?no @ ?var 0 @ out)" if "j < length (vid # vids)" for j
  proof (rule sublist_before)
    show "sublist (?var j) (?var 0 @ out)"
    proof (cases j)
      case (Suc k)
      with that out(2) have "sublist (?var j) out" by fastforce
      then show ?thesis by (rule sublist_before)
    qed simp
  qed
  with all show ?case by blast
qed simp

definition lists_all :: "'e heap \<Rightarrow> read_request_chunk \<Rightarrow> string \<Rightarrow> bool" where
  "lists_all h c out \<longleftrightarrow> (\<forall>j < length (chunk_variables c).
     sublist (report_variable (h_addr h (chunk_variables c ! j)) (chunk_request c ! j)) out)"

lemma lists_all_append: "lists_all h c out \<Longrightarrow> lists_all h c (pre @ out)" "lists_all h c out \<Longrightarrow> lists_all h c (out @ post)"
  by (simp_all add: lists_all_def sublist_before sublist_after)

lemma report_chunk_lines:
  assumes "chunk_ok h n c"
  shows "\<exists>out. report_chunk h r details i c = Some out \<and> (details \<ge> 3 \<longrightarrow> lists_all h c out)"
proof -
  obtain b where b: "h_bufs h (chunk_buffer c) = Some b" using assms by (auto simp: chunk_ok_def)
  have len: "length (chunk_request c) = 0 + length (chunk_variables c)" using assms by (simp add: chunk_ok_def)
  obtain out where "report_variables h (chunk_request c) (length (chunk_variables c)) (chunk_variables c) 0 = Some out"
    "lists_all h c out"
    using report_variables_lines [OF len, of h "length (chunk_variables c)"]
    unfolding lists_all_def by auto
  then have "\<exists>pre. report_chunk h r details i c = Some (pre @ (if details \<ge> 3 then out else []))"
    using b by (simp add: report_chunk_def)
  with \<open>lists_all h c out\<close> show ?thesis using lists_all_append(1) by fastforce
qed

lemma report_chunks_lines:
  assumes "\<forall>c \<in> set cs. chunk_ok h n c"
  shows "\<exists>out. report_chunks h r details i cs = Some out \<and> (details \<ge> 3 \<longrightarrow> (\<forall>c \<in> set cs. lists_all h c out))"
  using assms
proof (induction cs arbitrary: i)
  case (Cons c cs)
  obtain out1 where "report_chunk h r details i c = Some out1" "details \<ge> 3 \<longrightarrow> lists_all h c out1"
    using report_chunk_lines [of h n c r details i] Cons.prems by auto
  moreover obtain out2 where "report_chunks h r details (i + 1) cs = Some out2"
    "details \<ge> 3 \<longrightarrow> (\<forall>c \<in> set cs. lists_all h c out2)"
    using Cons.IH [of "i + 1"] Cons.prems by auto
  ultimately show ?case by (simp add: lists_all_append)
qed simp

lemma print_info_lines:
  assumes "req_ok h r"
  shows "\<exists>out. print_info h r details = Some out
    \<and> (details \<ge> 3 \<longrightarrow> (\<forall>c \<in> set (get_chunks r). lists_all h c out))"
proof -
  obtain out where "report_chunks h r details 0 (get_chunks r) = Some out"
    "details \<ge> 3 \<longrightarrow> (\<forall>c \<in> set (get_chunks r). lists_all h c out)"
    using report_chunks_lines [of "get_chunks r" h "req_max_vars r" r details 0] assms
    by (auto simp: req_ok_def chunks_ok_def)
  moreover from this have "\<exists>pre. print_info h r details = Some (pre @ (if details \<ge> 2 then out else []))"
    by (simp add: print_info_def)
  ultimately show ?thesis using lists_all_append(1) by fastforce
qed

section \<open>In the driver\<close>

text \<open>
  C38. The report about the driver's sum-read request can be printed at any time and in any detail: no
  vector is read past its end and no buffer is missing, also before the hook has allocated anything
  and while the driver is disconnected. When it is connected, the most detailed report tells the truth
  about every variable of the read list: it contains the name and the ADS port of its address, the
  index group and offset to which the name is resolved, written so that they can be read back, and the
  number of bytes of the variable.
\<close>

theorem print_info_truthful:
  assumes "reach (sys_start d lib) (sys_step d lib) s" and "D = s_drv s"
  shows "\<exists>out. print_info (d_heap D) (d_req D) details = Some out
    \<and> (details \<ge> 3 \<and> is_connected (d_heap D) \<longrightarrow> (\<forall>vid \<in> set (d_read_vars D).
         let a = h_addr (d_heap D) vid in \<exists>group_text offset_text.
           stol 16 group_text = Inr (int (addr_index_group a)) \<and> stol 16 offset_text = Inr (int (addr_index_offset a))
           \<and> sublist (''       - Name: '' @ [CHR 0x27] @ c_str (info a) @ [CHR 0x27] @ end_line
                @ ''       - Port: '' @ dec_str (addr_ads_port a) @ ''; IGrp: '' @ group_text @ ''; Ioff: '' @ offset_text
                @ ''; Length: '' @ dec_str (h_size (d_heap D) vid) @ end_line) out))"
proof -
  note i = sys_invD [OF reach_sys(3) [OF assms(1)], folded assms(2)]
  note o = drv_okD [OF i(1)]
  obtain out where out: "print_info (d_heap D) (d_req D) details = Some out"
    "details \<ge> 3 \<longrightarrow> (\<forall>c \<in> set (get_chunks (d_req D)). lists_all (d_heap D) c out)"
    using print_info_lines [OF o(1), of details] by blast
  have "stol 16 (hex_field (addr_index_group a)) = Inr (int (addr_index_group a))
      \<and> stol 16 (hex_field (addr_index_offset a)) = Inr (int (addr_index_offset a))
      \<and> sublist (report_variable a (var_request (d_heap D) vid)) out"
    if all: "details \<ge> 3" "is_connected (d_heap D)" "vid \<in> set (d_read_vars D)" and a: "a = h_addr (d_heap D) vid" for vid a
  proof -
    have up: "up D" using i(2) all(2) by (auto simp: at_pc_def down_def)
    then have init: "d_init D" and compl: "complete_request (d_heap D) (d_req D)"
      and fits: "fits32 (var_request (d_heap D) vid)" using o(5) all(3) by (auto simp: up_def)
    obtain c j where c: "c \<in> set (get_chunks (d_req D))" "j < length (chunk_variables c)" "chunk_variables c ! j = vid"
      using o(10) [OF init] all(3) by (metis req_variable_slot)
    then have "sublist (report_variable a (var_request (d_heap D) vid)) out"
      using out(2) all(1) compl a by (auto simp: lists_all_def complete_request_def)
    with fits a show ?thesis by (simp add: stol_hex_field fits32_def var_request_def LONG_MAX_def)
  qed
  with out(1) show ?thesis
    unfolding Let_def report_variable_def var_request_def h_size_def [symmetric] by fastforce
qed

theorem print_info_truthful_witness:
  "\<exists>s out group_text offset_text. example_reach s \<and> is_connected (d_heap (s_drv s)) \<and> d_read_vars (s_drv s) = [0]
     \<and> print_info (d_heap (s_drv s)) (d_req (s_drv s)) 3 = Some out
     \<and> stol 16 group_text = Inr (int (addr_index_group (h_addr (d_heap (s_drv s)) 0)))
     \<and> sublist (''       - Name: '' @ [CHR 0x27] @ c_str (info (h_addr (d_heap (s_drv s)) 0)) @ [CHR 0x27] @ end_line
          @ ''       - Port: '' @ dec_str (addr_ads_port (h_addr (d_heap (s_drv s)) 0)) @ ''; IGrp: '' @ group_text
          @ ''; Ioff: '' @ offset_text @ ''; Length: '' @ dec_str (h_size (d_heap (s_drv s)) 0) @ end_line) out"
proof -
  obtain D where D: "example_reach \<lparr>s_pc = Scan_Read, s_drv = D, s_hooked = True\<rparr>" "up D" "d_read_vars D = [0]"
    by (rule example_reading)
  from D(2) have up: "is_connected (d_heap D)" by (simp add: up_def)
  have "s_drv \<lparr>s_pc = Scan_Read, s_drv = D, s_hooked = True\<rparr> = D" by simp
  with print_info_truthful [OF D(1) this [symmetric], of 3] up D show ?thesis by (metis (no_types, lifting) list.set_intros(1) order_refl)
qed

end
