(* ===== verification/Ioc_Commands.thy ===== *)
theory Ioc_Commands
  imports Driver_System
begin

text \<open>
  The commands of the IOC shell, \<open>ioc_commands.cpp\<close>: \<open>AdsOpen\<close> with its arguments, which constructs
  the driver, \<open>AdsSetLocalAMSNetID\<close>, and the registration of both. Messages to the shell are left out.
\<close>

section \<open>AdsOpen\<close>

text \<open>
  The local variables of \<open>ads_open\<close>, with their initial values; the default port is that of the ADS
  library's header.
\<close>

record open_args =
  oa_port_name :: string
  oa_ip_addr :: string
  oa_ams_net_id :: string
  oa_read_port :: int
  oa_sum_buffer_nelem :: int
  oa_timeout_ms :: int
  oa_sum_read_period :: int

definition default_args :: "ads_def \<Rightarrow> open_args" where
  "default_args d = \<lparr> oa_port_name = [], oa_ip_addr = [], oa_ams_net_id = [], oa_read_port = int (AMSPORT_R0_PLC_TC3 d),
     oa_sum_buffer_nelem = 500, oa_timeout_ms = -1, oa_sum_read_period = 1 \<rparr>"

text \<open>\<open>int n = strtol(s, nullptr, 10)\<close>: the \<open>long\<close> is converted to 32 bits.\<close>

definition int32 :: "int \<Rightarrow> int" where
  "int32 v = (v + 2 ^ 31) mod 2 ^ 32 - 2 ^ 31"

definition int_arg :: "string \<Rightarrow> int" where
  "int_arg s = int32 (strtol 10 s)"

text \<open>One turn of the loop over the arguments, for the argument number \<open>i\<close>; \<open>None\<close> is \<open>return -1\<close>.\<close>

definition open_arg :: "nat \<Rightarrow> string \<Rightarrow> open_args \<Rightarrow> open_args option" where
  "open_arg i s oa =
     (if i = 1 then Some (oa\<lparr>oa_port_name := s\<rparr>)
      else if i = 2 then Some (oa\<lparr>oa_ip_addr := s\<rparr>)
      else if i = 3 then Some (oa\<lparr>oa_ams_net_id := s\<rparr>)
      else if i = 4 then if int_arg s < 1 then None else Some (oa\<lparr>oa_sum_buffer_nelem := int_arg s\<rparr>)
      else if i = 5 then if int_arg s < 1 then None else Some (oa\<lparr>oa_timeout_ms := int_arg s\<rparr>)
      else if i = 6 then if int_arg s < 1 then None else Some (oa\<lparr>oa_read_port := int_arg s\<rparr>)
      else if i = 7 then if int_arg s < 1 then None else Some (oa\<lparr>oa_sum_read_period := int_arg s\<rparr>)
      else Some oa)"

fun open_loop :: "nat \<Rightarrow> string list \<Rightarrow> open_args \<Rightarrow> open_args option" where
  "open_loop i [] oa = Some oa"
| "open_loop i (s # ss) oa = Option.bind (open_arg i s oa) (open_loop (i + 1) ss)"

text \<open>
  \<open>argv\<close> starts with the name of the command. The result is the return value and the driver that was
  constructed; an exception of its constructor is not caught. The constructor takes the size of the
  buffer and the port as \<open>uint16_t\<close>.
\<close>

definition ads_open ::
  "ads_def \<Rightarrow> (string \<Rightarrow> netid) \<Rightarrow> nat \<Rightarrow> nat \<Rightarrow> nat \<Rightarrow> nat list \<Rightarrow> 'e \<Rightarrow> string list \<Rightarrow> exn + int \<times> 'e driver option" where
  "ads_open d parse_netid state_invalid unset_port unset_state unset_version e argv =
     (if length argv < 3 \<or> length argv > 8 then Inr (-1, None)
      else
        case open_loop 1 (tl argv) (default_args d) of
          None \<Rightarrow> Inr (-1, None)
        | Some oa \<Rightarrow>
            exn_bind (ADSPortDriver parse_netid state_invalid (oa_ip_addr oa) (oa_ams_net_id oa)
                (long_to_u16 (oa_sum_buffer_nelem oa)) (long_to_u16 (oa_read_port oa))
                unset_port unset_state unset_version e)
              (\<lambda>D. Inr (0, Some D)))"

section \<open>AdsSetLocalAMSNetID\<close>

text \<open>\<open>None\<close> is the null pointer.\<close>

definition ads_set_local_amsNetID :: "(string \<Rightarrow> netid) \<Rightarrow> 'e ads_lib \<Rightarrow> string option \<Rightarrow> 'e \<Rightarrow> 'e" where
  "ads_set_local_amsNetID parse_netid lib ams e =
     (case ams of None \<Rightarrow> e | Some s \<Rightarrow> AdsSetLocalAddress lib e (parse_netid s))"

section \<open>Registration\<close>

text \<open>The two static flags, and the commands that \<open>iocshRegister\<close> was called for.\<close>

record registry =
  reg_open :: int
  reg_set_local :: int
  reg_commands :: "string list"

definition ads_open_register_command :: "registry \<Rightarrow> registry" where
  "ads_open_register_command R =
     (if reg_open R = 0
      then R\<lparr>reg_commands := reg_commands R @ [''AdsOpen''], reg_open := 1\<rparr> else R)"

definition ads_set_local_amsNetID_register_command :: "registry \<Rightarrow> registry" where
  "ads_set_local_amsNetID_register_command R =
     (if reg_set_local R = 0
      then R\<lparr>reg_commands := reg_commands R @ [''AdsSetLocalAMSNetID''], reg_set_local := -1\<rparr> else R)"

definition fresh_registry :: registry where
  "fresh_registry = \<lparr> reg_open = 0, reg_set_local = 0, reg_commands = [] \<rparr>"

section \<open>Properties\<close>

text \<open>The numeric arguments that \<open>AdsOpen\<close> accepts.\<close>

lemma open_loop_None:
  "open_loop i ss oa = None \<longleftrightarrow> (\<exists>k < length ss. 4 \<le> i + k \<and> i + k \<le> 7 \<and> int_arg (ss ! k) < 1)"
proof (induction ss arbitrary: i oa)
  case Nil
  then show ?case by simp
next
  case (Cons s ss)
  have "open_arg i s oa = None \<longleftrightarrow> 4 \<le> i \<and> i \<le> 7 \<and> int_arg s < 1"
    by (auto simp: open_arg_def)
  then have "open_loop i (s # ss) oa = None \<longleftrightarrow> 4 \<le> i \<and> i \<le> 7 \<and> int_arg s < 1
      \<or> (\<exists>k < length ss. 4 \<le> i + 1 + k \<and> i + 1 + k \<le> 7 \<and> int_arg (ss ! k) < 1)"
    using Cons by (auto simp: bind_eq_None_conv)
  also have "\<dots> \<longleftrightarrow> (\<exists>k < length (s # ss). 4 \<le> i + k \<and> i + k \<le> 7 \<and> int_arg ((s # ss) ! k) < 1)"
    by (simp add: Ex_less_Suc2)
  finally show ?case .
qed

text \<open>What the loop makes of a variable that the argument number \<open>j\<close> sets.\<close>

lemma open_loop_field:
  assumes set: "\<And>i s oa oa'. open_arg i s oa = Some oa' \<Longrightarrow> f oa' = (if i = j then g s else f oa)"
  shows "open_loop i ss oa = Some oa' \<Longrightarrow> f oa' = (if i \<le> j \<and> j - i < length ss then g (ss ! (j - i)) else f oa)"
proof (induction ss arbitrary: i oa)
  case Nil
  then show ?case by simp
next
  case (Cons s ss)
  obtain oa1 where a: "open_arg i s oa = Some oa1" and l: "open_loop (i + 1) ss oa1 = Some oa'"
    using Cons(2) by (auto simp: bind_eq_Some_conv)
  have "f oa' = (if i + 1 \<le> j \<and> j - (i + 1) < length ss then g (ss ! (j - (i + 1))) else f oa1)"
    by (rule Cons(1) [OF l])
  moreover have "f oa1 = (if i = j then g s else f oa)" by (rule set [OF a])
  ultimately show ?case
    by (cases "i = j") (auto simp: nth_Cons' Suc_diff_le)
qed

lemma open_arg_fields:
  assumes "open_arg i s oa = Some oa'"
  shows "oa_ip_addr oa' = (if i = 2 then s else oa_ip_addr oa)"
    and "oa_ams_net_id oa' = (if i = 3 then s else oa_ams_net_id oa)"
    and "oa_sum_buffer_nelem oa' = (if i = 4 then int_arg s else oa_sum_buffer_nelem oa)"
    and "oa_read_port oa' = (if i = 6 then int_arg s else oa_read_port oa)"
  using assms by (auto simp: open_arg_def split: if_splits)

lemma open_loop_fields:
  assumes "open_loop 1 ss oa = Some oa'"
  shows "oa_ip_addr oa' = (if 1 < length ss then ss ! 1 else oa_ip_addr oa)"
    and "oa_ams_net_id oa' = (if 2 < length ss then ss ! 2 else oa_ams_net_id oa)"
    and "oa_sum_buffer_nelem oa' = (if 3 < length ss then int_arg (ss ! 3) else oa_sum_buffer_nelem oa)"
    and "oa_read_port oa' = (if 5 < length ss then int_arg (ss ! 5) else oa_read_port oa)"
  using open_loop_field [where f = oa_ip_addr and j = 2 and g = "\<lambda>s. s", OF open_arg_fields(1) assms]
    open_loop_field [where f = oa_ams_net_id and j = 3 and g = "\<lambda>s. s", OF open_arg_fields(2) assms]
    open_loop_field [where f = oa_sum_buffer_nelem and j = 4 and g = int_arg, OF open_arg_fields(3) assms]
    open_loop_field [where f = oa_read_port and j = 6 and g = int_arg, OF open_arg_fields(4) assms]
  by simp_all

text \<open>The numeric arguments are refused.\<close>

definition bad_number :: "string list \<Rightarrow> bool" where
  "bad_number argv \<longleftrightarrow> (\<exists>k < length argv. 4 \<le> k \<and> k \<le> 7 \<and> int_arg (argv ! k) < 1)"

lemma open_loop_argv:
  assumes "argv \<noteq> []"
  shows "open_loop 1 (tl argv) oa = None \<longleftrightarrow> bad_number argv"
proof -
  obtain c ss where argv: "argv = c # ss" using assms by (cases argv) auto
  have "(\<exists>k < length ss. 4 \<le> 1 + k \<and> 1 + k \<le> 7 \<and> int_arg (ss ! k) < 1) \<longleftrightarrow> bad_number argv"
  proof
    assume "\<exists>k < length ss. 4 \<le> 1 + k \<and> 1 + k \<le> 7 \<and> int_arg (ss ! k) < 1"
    then obtain k where "k < length ss" "4 \<le> 1 + k" "1 + k \<le> 7" "int_arg (ss ! k) < 1" by blast
    then show "bad_number argv" unfolding bad_number_def argv by (intro exI [of _ "Suc k"]) simp
  next
    assume "bad_number argv"
    then obtain k where "k < length argv" "4 \<le> k" "k \<le> 7" "int_arg (argv ! k) < 1"
      unfolding bad_number_def by blast
    then show "\<exists>k < length ss. 4 \<le> 1 + k \<and> 1 + k \<le> 7 \<and> int_arg (ss ! k) < 1"
      unfolding argv by (intro exI [of _ "k - 1"]) auto
  qed
  with open_loop_None [of 1 ss oa] show ?thesis by (simp add: argv)
qed

text \<open>When \<open>AdsOpen\<close> refuses its words, and the size of the sum-read buffer that they give.\<close>

definition refused :: "string list \<Rightarrow> bool" where
  "refused argv \<longleftrightarrow> length argv < 3 \<or> 8 < length argv \<or> bad_number argv"

definition nelem_arg :: "string list \<Rightarrow> int" where
  "nelem_arg argv = (if 4 < length argv then int_arg (argv ! 4) else 500)"

lemma int_arg_dec: "n < 2 ^ 31 \<Longrightarrow> int_arg (dec_str n) = int n"
  using show_base_digits [of 10 n]
  by (simp add: int_arg_def int32_def strtol_def dec_str_def scan_long_digits LONG_MAX_def LONG_MIN_def)

text \<open>
  C39. \<open>AdsOpen\<close>: with fewer than three or more than eight words, or a number that is not positive as a
  32-bit \<open>int\<close>, it returns -1 and constructs nothing. Otherwise, if the size of the sum-read buffer is a
  multiple of 65536, the constructor's exception leaves the command; and else it returns 0 with a
  driver for the given address in a state from which the scan thread may start. The buffer has the
  given size modulo 65536; without a net id the driver is constructed for the empty one.
\<close>

theorem ads_open_correct:
  "(refused argv \<longrightarrow> ads_open d parse_netid st up0 us uv e argv = Inr (-1, None))
    \<and> (\<not> refused argv \<and> nelem_arg argv mod 65536 = 0 \<longrightarrow> (\<exists>msg. ads_open d parse_netid st up0 us uv e argv = Inl (Invalid_argument msg)))
    \<and> (\<not> refused argv \<and> nelem_arg argv mod 65536 \<noteq> 0 \<longrightarrow> (\<exists>D. ads_open d parse_netid st up0 us uv e argv = Inr (0, Some D)
         \<and> sys_init \<lparr>s_pc = Scan_Head, s_drv = D, s_hooked = False\<rparr> \<and> drv_ok D \<and> down D
         \<and> d_ip D = argv ! 2 \<and> d_netid D = parse_netid (if 3 < length argv then argv ! 3 else [])
         \<and> int (req_max_vars (d_req D)) = nelem_arg argv mod 65536))"
proof (cases "refused argv")
  case True
  then show ?thesis
    using open_loop_argv [of argv "default_args d"] unfolding refused_def ads_open_def by (cases "argv = []") auto
next
  case False
  then have ne: "argv \<noteq> []" "3 \<le> length argv" "length argv \<le> 8" "\<not> bad_number argv" by (auto simp: refused_def)
  then obtain oa where oa: "open_loop 1 (tl argv) (default_args d) = Some oa"
    using open_loop_argv [OF ne(1), of "default_args d"] by (cases "open_loop 1 (tl argv) (default_args d)") auto
  note f = open_loop_fields [OF oa]
  have size: "oa_sum_buffer_nelem oa = nelem_arg argv" and ip: "oa_ip_addr oa = argv ! 2"
    and net: "oa_ams_net_id oa = (if 3 < length argv then argv ! 3 else [])"
    using ne(1,2) f(1-3) by (auto simp: nelem_arg_def default_args_def nth_tl eval_nat_numeral)
  let ?n = "long_to_u16 (nelem_arg argv)"
  have n: "int ?n = nelem_arg argv mod 65536" "?n < 2 ^ 16" by (simp_all add: long_to_u16_def nat_less_iff)
  have run: "ads_open d parse_netid st up0 us uv e argv =
      exn_bind (ADSPortDriver parse_netid st (oa_ip_addr oa) (oa_ams_net_id oa) ?n (long_to_u16 (oa_read_port oa)) up0 us uv e)
        (\<lambda>D. Inr (0, Some D))"
    using ne oa by (simp add: ads_open_def size)
  show ?thesis
  proof (cases "nelem_arg argv mod 65536 = 0")
    case True
    then have "?n = 0" using n by linarith
    with run True False show ?thesis by (simp add: ADSPortDriver_def SumReadRequest_def exn_bind_def)
  next
    case nz: False
    then have "?n \<noteq> 0" using n by linarith
    then obtain D where D: "ADSPortDriver parse_netid st (oa_ip_addr oa) (oa_ams_net_id oa) ?n (long_to_u16 (oa_read_port oa)) up0 us uv e = Inr D"
      and fD: "d_ip D = oa_ip_addr oa" "d_netid D = parse_netid (oa_ams_net_id oa)" "req_max_vars (d_req D) = ?n"
      by (simp add: ADSPortDriver_def SumReadRequest_def)
    have "sys_init \<lparr>s_pc = Scan_Head, s_drv = D, s_hooked = False\<rparr>"
      unfolding sys_init_def by simp (use D n(2) in force)
    with run D fD n(1) ADSPortDriver_ok [OF D n(2)] ip net nz False show ?thesis by simp
  qed
qed

theorem ads_open_correct_witness:
  "(\<exists>msg. ads_open ads_def_documented (\<lambda>_. no_netid) 0 0 0 [] (0 :: nat)
       [''AdsOpen'', ''PLC'', ''10.0.0.1'', ''10.0.0.1.1.1'', dec_str 65536] = Inl (Invalid_argument msg))
   \<and> (\<exists>D. ads_open ads_def_documented (\<lambda>_. no_netid) 0 0 0 [] (0 :: nat)
       [''AdsOpen'', ''PLC'', ''10.0.0.1'', ''10.0.0.1.1.1'', dec_str 500, dec_str 100] = Inr (0, Some D)
       \<and> req_max_vars (d_req D) = 500)
   \<and> ads_open ads_def_documented (\<lambda>_. no_netid) 0 0 0 [] (0 :: nat)
       [''AdsOpen'', ''PLC'', ''10.0.0.1'', ''10.0.0.1.1.1'', dec_str 0] = Inr (-1, None)"
proof -
  have n: "int_arg (dec_str 65536) = 65536" "int_arg (dec_str 500) = 500" "int_arg (dec_str 100) = 100" "int_arg (dec_str 0) = 0"
    using int_arg_dec [of 65536] int_arg_dec [of 500] int_arg_dec [of 100] int_arg_dec [of 0] by simp_all
  have good: "\<not> bad_number [a, b, c, d, dec_str 65536]" "\<not> bad_number [a, b, c, d, dec_str 500, dec_str 100]"
    "bad_number [a, b, c, d, dec_str 0]" for a b c d
    using n by (auto simp: bad_number_def less_Suc_eq nth_Cons' numeral_eq_iff)
  note A = ads_open_correct [of _ ads_def_documented "\<lambda>_. no_netid" 0 0 0 "[]" "0 :: nat"]
  show ?thesis
    using A [of "[''AdsOpen'', ''PLC'', ''10.0.0.1'', ''10.0.0.1.1.1'', dec_str 65536]"]
      A [of "[''AdsOpen'', ''PLC'', ''10.0.0.1'', ''10.0.0.1.1.1'', dec_str 500, dec_str 100]"]
      A [of "[''AdsOpen'', ''PLC'', ''10.0.0.1'', ''10.0.0.1.1.1'', dec_str 0]"]
    by (auto simp: good n refused_def nelem_arg_def)
qed

end
