(* ===== verification/Spec2Isabelle.thy ===== *)
theory Spec2Isabelle
  imports Race_Locks Request_Memory Write_Theorems Reports Ioc_Commands
begin

text \<open>
  A model of adsDriver, the EPICS driver for Beckhoff PLCs that speak ADS, translated from the C++
  sources under \<open>src/adsApp/src\<close>, and the theorems that make it correct.

  \<^bold>\<open>The program.\<close> The IOC shell command \<open>AdsOpen\<close> constructs an \<open>ADSPortDriver\<close>. While records are
  initialised, the base class (autoparam) gives it the links of the records; each link is parsed to
  an \<open>ADSAddress\<close> and becomes an \<open>ADSVariable\<close>, for reading or for writing. A hook then allocates the
  sum-read request: for every variable that is read, a slot in one of the buffers, at most a fixed
  number of variables to a buffer. The scan thread connects to the PLC, resolves the variables' names
  to handles, and then periodically reads all variables with one request per buffer and hands the
  values to I/O Intr records. Handlers in other threads read a variable from its slot, or write it
  directly. When a request fails the driver disconnects and the scan thread connects again.

  \<^bold>\<open>Theories\<close>, in the order in which they build on one another:

  \<^item> \<open>Prelude\<close>: fixed-width integers as naturals with the wrap-around written out, bytes, memory that is
    read and written within bounds (\<open>None\<close> is undefined behaviour), exceptions as values, and the
    collections of rules. \<open>Std_Map\<close>: \<open>std::map\<close> as a sorted association list.
  \<^item> \<open>Ads_Def\<close>: the ADS library, which is a submodule, as parameters: its constants (\<open>ads_def\<close>, with the
    conditions \<open>wf_ads_def\<close> on them) and its functions (\<open>ads_lib\<close>), which may answer anything.
  \<^item> \<open>Err\<close> (\<open>err.h\<close>, \<open>err.cpp\<close>), \<open>Ads_Types\<close> (\<open>Types.h\<close>, \<open>Types.cpp\<close>, \<open>type.h\<close>): return codes,
    enumerations and tables. \<open>Numerals\<close>: \<open>strtol\<close> and \<open>std::stol\<close>.
  \<^item> \<open>Ads_Address\<close> (\<open>ADSAddress.cpp\<close>): the record \<open>ads_address\<close>, its two constructors, all parsers,
    resolving; \<open>Address_Props\<close> its properties.
  \<^item> \<open>Ads_Variable\<close> and \<open>Variable_IO\<close> (\<open>Variable.cpp\<close>), \<open>Sum_Read_Buffer\<close> (\<open>SumReadBuffer.cpp\<close>),
    \<open>Connection\<close> (\<open>Connection.cpp\<close>), \<open>Sum_Read_Request\<close> (\<open>SumReadRequest.cpp\<close>): one definition per
    method, over a store of the connection, the variables and the buffers (\<open>heap\<close>); shared pointers
    are numbers. \<open>Codec\<close>: the bytes of the C++ types. \<open>Buffer_Props\<close>, \<open>Connection_Props\<close>,
    \<open>Request_Inv\<close>, \<open>Request_Alloc\<close>, \<open>Request_Props\<close>, \<open>Request_Read\<close> and \<open>Variable_Props\<close> prove what the
    methods do. \<open>Request_Memory\<close>: allocation when any of its memory allocations fails.
  \<^item> \<open>Handlers\<close> (\<open>ADSPortDriver.cpp\<close>): the templates of the read and write handlers as functions of
    the C++ types, their registration, and \<open>performIOIntr\<close>; \<open>Handler_Props\<close> their properties.
  \<^item> \<open>Port_Driver\<close> (\<open>ADSPortDriver.h\<close>, \<open>ADSPortDriver.cpp\<close>): the record \<open>driver\<close>, links, device variables,
    the hook, connecting, disconnecting, the periodic reads, and the scan thread as the function
    \<open>scan_step\<close> over its program counter. \<open>Driver_Links\<close>, \<open>Driver_Inv\<close>, \<open>Driver_Setup\<close>, \<open>Driver_Ops\<close>:
    round trip of links, the driver's invariant \<open>drv_ok\<close> and that every operation keeps it.
  \<^item> \<open>Transitions\<close>: reachability, invariants, simulation and progress of labelled transition systems.
    \<open>Driver_System\<close>: the driver with all threads, as the relation \<open>sys_step\<close>; \<open>Driver_Props\<close> and
    \<open>Driver_Theorems\<close>: its properties.
  \<^item> \<open>Small_Steps\<close>: an operation of a thread in small steps, and when they are the operation as one step.
    \<open>Read_Steps\<close> (\<open>SumReadRequest::read\<close>, \<open>ADSVariable::read_from_buffer\<close>, \<open>SumReadBuffer::read_data\<close>):
    the steps of the two threads that use a buffer, down to single bytes; \<open>Step_Refinement\<close> proves them to
    be \<open>sum_read\<close> and \<open>read_from_buffer\<close>. \<open>Read_Races\<close>, \<open>Race_Inv\<close>, \<open>Race_Theorems\<close>, \<open>Race_Example\<close>: both
    threads with writes and the device in any interleaving (\<open>race_step\<close>).
  \<^item> \<open>Write_Steps\<close> (\<open>ADSVariable::write\<close>, \<open>ADSPortDriver::ADSDisconnect\<close>), \<open>Write_Races\<close>,
    \<open>Write_Theorems\<close>: the same for disconnecting beside writes (\<open>disc_race_step\<close>).
  \<^item> \<open>Reports\<close> (\<open>SumReadRequest::print_info\<close>), \<open>Ioc_Commands\<close> (\<open>ioc_commands.cpp\<close>) and \<open>RW_Lock\<close>
    (\<open>RWLock.cpp\<close>).
  \<^item> \<open>Buffer_Object\<close> (\<open>SumReadBuffer.cpp\<close> with \<open>calloc\<close>, \<open>free\<close>, the constructors, the destructor and the
    calls of \<open>RWLock\<close>): the buffer as an object with pointers into a store of blocks and with a lock;
    \<open>Buffer_Object_Props\<close>: it refines the record \<open>sum_read_buffer\<close> that the other theories use.
    \<open>Variable_Locks\<close>: \<open>ADSVariable::get_read_data\<close>, which takes the lock for its caller.
    \<open>Race_Locks\<close>: \<open>race_step\<close> with these calls of the locks (\<open>locked_step\<close>).

  \<^bold>\<open>Interfaces\<close>, each a locale interpreted on the model: \<open>ordered_map\<close> for \<open>std::map\<close>, \<open>codec\<close> and
  \<open>array_codec\<close> for the C++ types in memory, \<open>resolvable\<close> for the handle of an address, \<open>slot_store\<close> for a
  buffer of slots, \<open>machine\<close>, \<open>simulation\<close> and \<open>ranked\<close> for the running driver (the first also for the
  read-write lock and its threads, the second also for the object of a buffer and for the races with
  locks, the last also for the three kinds of races), \<open>small_steps\<close> for each of
  the four operations that are modelled in small steps.

  \<^bold>\<open>What is proved.\<close> For the running driver, in any interleaving: memory safety of the scan thread and
  the exact conditions under which a read or write of another thread leaves the caller's memory
  (\<open>driver_memory_safe\<close>), that connected means that everything is resolved and the request asks for exactly that
  (\<open>driver_connected\<close>), refinement of a machine with four phases in which callbacks follow fresh data
  only (\<open>driver_refines\<close>), recovery and shutdown within six steps of the scan thread
  (\<open>driver_recovers\<close>, \<open>driver_stops\<close>), and destruction. For the data path: a successful sum-read
  delivers to each variable what the PLC answered for it (\<open>sum_read_delivers\<close>, and
  \<open>driver_delivers\<close> for the running driver, down to the handle its name was resolved to), allocation
  establishes the layout of the buffers, or fails and leaves no trace but, when a vector of a chunk cannot
  grow, one dangling pointer (\<open>allocate_correct\<close>, \<open>allocate_leaves_dangling_pointer\<close>), a failed sum-read invalidates all of them, a
  written value is read back once. For the components: round trips and well-formedness of addresses
  and links, resolving as a handle store, the handlers' conversions, the exact conditions of the
  memory errors that the code has, the report about the request, and the shell command. For the buffer as
  an object: its calls do what the record says (\<open>object_refines\<close>), no block is lost or freed twice
  (\<open>object_lifecycle\<close>), and what happens when its lock refuses (\<open>refused_lock_ignored\<close>).

  \<^bold>\<open>Assumptions.\<close> \<open>wf_ads_def\<close>: the constants of the ADS library are what their names say, as far as the
  tables need it. \<open>names_end\<close>: the device name that the library delivers has a NUL within 16
  characters (without it \<open>readADSDeviceInfo\<close> reads past its array). \<open>answers_sum_reads\<close>: a successful
  sum-read answers in the documented layout; \<open>serving\<close>: no call fails, for recovery only.
  \<open>scan_env_ok\<close> and the hook's
  step: the variables with interrupt records are variables of the driver, each listed once.
  \<open>request_mem\<close> in the hook's step (\<open>sys_hook\<close>), for all theorems about reachable states of the running driver:
  the two vectors of a chunk can grow, \<open>push_back\<close> in \<open>ReadRequestChunk::add_variable\<close> does not throw; if
  one does, the hook gives up and a variable keeps a pointer into a freed buffer, which the next read of it
  would follow. Storing a variable in a buffer and the two blocks of a buffer may fail. All other allocations
  are taken to succeed, such as those of the chunks and of their sets in \<open>SumReadRequest::allocate\<close>:
  \<open>std::bad_alloc\<close> there is caught nowhere and ends the IOC. \<open>ports_documented\<close>, for links with a named
  port only: the port constants of the ADS library are those of the manual's table. \<open>build_ok\<close>: the
  POSIX and Boost locks keep their documentation; \<open>granted_when_free\<close> and \<open>faultless\<close>: they grant a lock that
  nobody holds, and without an error.

  \<^bold>\<open>Atomicity.\<close> In \<open>Driver_System\<close> a step is one operation. The code holds the driver's lock in the handlers,
  in \<open>ADSConnect\<close>, in the hook and in \<open>performIOIntr\<close>, and the connection's mutex in its methods. Two
  operations of the scan thread run without the driver's lock, and for them the steps are refined. The
  sum-read fills the buffers without the driver's lock and without the buffers' read-write lock: while
  it does, memory stays safe (\<open>races_memory_safe\<close>), a handler gets only bytes from before or of one
  answer (\<open>races_old_or_new\<close>), possibly a mixture (\<open>torn_read\<close>), the result is what the device
  answered (\<open>races_deliver\<close>) and nobody waits forever (\<open>races_end\<close>). That the rule who waits
  (\<open>blocked\<close>) is what the calls of the locks do is \<open>locked_races_equal\<close>, and with them still nobody waits
  forever (\<open>locked_races_end\<close>). A disconnect after a failed
  request clears the addresses and closes the connection: a write that runs beside it goes to its own
  variable or to index group 0 and offset 0 (\<open>writes_addressed\<close>, \<open>stray_write\<close>), and the disconnect always
  ends well (\<open>disconnect_ends\<close>). \<open>driver_read_interleaves\<close> and \<open>driver_disconnect_interleaves\<close> connect both
  with the running driver. There, one handler runs at a time, because the base class takes the port's
  lock; single bytes, flags and the 4 bytes of a return code are accessed atomically, in program order;
  \<open>memcpy\<close> and the ADS library may access bytes in any order.

  \<^bold>\<open>Bounds.\<close> No fuel is used: loops over lists are structural, and the scan thread is a step function. The
  six steps of recovery and shutdown are the largest value of \<open>recover_rank\<close> and \<open>exit_rank\<close>; the numbers of
  small steps are the values of \<open>read_rank\<close>, \<open>hand_rank\<close>, \<open>write_rank\<close> and \<open>disc_rank\<close> at the start.

  \<^bold>\<open>Not modelled.\<close> Logging and messages, delays and the clock (whether device information is due is an
  input), what the C++ memory model says of unsynchronised accesses, the build for the TwinCAT library
  on Windows (\<open>USE_TC_ADS\<close>), autoparam and asyn, which are submodules (setting parameters and callbacks
  are the events of a step), the example IOC, the PLC project, the databases and the screens.
\<close>

end
